(* ===== verification/Racs_Prelude.thy ===== *)
theory Racs_Prelude
  imports Main "HOL-Library.Word" "HOL-Library.Monad_Syntax"
begin

text \<open>
  Shared vocabulary of the development: the integer types of \<^verbatim>\<open>src/src/types.h\<close>, byte buffers,
  and the generic facts on lists, options and words that the component theories use.

  Conventions. A C function that can be driven into undefined behaviour (an access outside an
  allocated object, a null or dangling pointer, an uninitialised pointer, a division by zero, an
  out-of-range float-to-integer conversion) is modelled by a function into \<open>option\<close>, and \<open>None\<close>
  stands for that undefined behaviour. An error that the C code reports in its return value is a
  value of the model, never \<open>None\<close>. The machine is little-endian with 64-bit \<open>size_t\<close>, as on the
  platforms the build files name. Allocation succeeds.
\<close>

unbundle bit_operations_syntax

section \<open>Machine types\<close>

type_synonym racs_uint8 = "8 word"
type_synonym racs_uint16 = "16 word"
type_synonym racs_uint32 = "32 word"
type_synonym racs_uint64 = "64 word"
type_synonym racs_int16 = "16 word"
type_synonym racs_int32 = "32 word"
type_synonym racs_int64 = "64 word"
type_synonym bytes = "racs_uint8 list"

text \<open>A key of the storage layer: the two words of \<open>racs_uint64 key[2]\<close>.\<close>

type_synonym racs_key = "racs_uint64 \<times> racs_uint64"

named_theorems codec_simps \<open>evaluation of buffer reads and writes\<close>
named_theorems step_simps \<open>unfolding of the component operations\<close>

section \<open>Lists as buffers\<close>

text \<open>The bytes of \<open>xs\<close> at positions \<open>off\<close> to \<open>off + n - 1\<close>.\<close>

definition slice :: "nat \<Rightarrow> nat \<Rightarrow> 'a list \<Rightarrow> 'a list" where
  "slice off n xs = take n (drop off xs)"

text \<open>\<open>memcpy (xs + off, d)\<close> for a copy that stays inside \<open>xs\<close>.\<close>

definition patch :: "nat \<Rightarrow> 'a list \<Rightarrow> 'a list \<Rightarrow> 'a list" where
  "patch off d xs = take off xs @ d @ drop (off + length d) xs"

lemma length_slice [simp]: "off + n \<le> length xs \<Longrightarrow> length (slice off n xs) = n"
  by (simp add: slice_def)

lemma slice_append_exact [simp]:
  "off = length p \<Longrightarrow> n = length d \<Longrightarrow> slice off n (p @ d @ q) = d"
  by (simp add: slice_def)

lemma slice_append_exact_last [simp]:
  "off = length p \<Longrightarrow> n = length d \<Longrightarrow> slice off n (p @ d) = d"
  by (simp add: slice_def)

lemma slice_zero_prefix [simp]: "n = length d \<Longrightarrow> slice 0 n (d @ q) = d"
  by (simp add: slice_def)

lemma slice_append_left:
  "off + n \<le> length p \<Longrightarrow> slice off n (p @ q) = slice off n p"
  by (simp add: slice_def)

lemma slice_append_right:
  "length p \<le> off \<Longrightarrow> slice off n (p @ q) = slice (off - length p) n q"
  by (simp add: slice_def)

lemma slice_take:
  "off + n \<le> m \<Longrightarrow> slice off n (take m xs) = slice off n xs"
  by (simp add: slice_def drop_take min_def)

lemma nth_slice: "i < n \<Longrightarrow> off + n \<le> length xs \<Longrightarrow> slice off n xs ! i = xs ! (off + i)"
  by (simp add: slice_def)

lemma length_patch [simp]:
  "off + length d \<le> length xs \<Longrightarrow> length (patch off d xs) = length xs"
  by (simp add: patch_def)

lemma nth_patch:
  "off + length d \<le> length xs \<Longrightarrow> i < length xs \<Longrightarrow>
   patch off d xs ! i = (if off \<le> i \<and> i < off + length d then d ! (i - off) else xs ! i)"
  by (auto simp: patch_def nth_append min_def)

lemma slice_patch_same [simp]:
  "off + length d \<le> length xs \<Longrightarrow> n = length d \<Longrightarrow> slice off n (patch off d xs) = d"
  by (simp add: patch_def)

lemma slice_patch_disjoint:
  assumes "off + length d \<le> length xs" "o' + n \<le> length xs"
    and "o' + n \<le> off \<or> off + length d \<le> o'"
  shows "slice o' n (patch off d xs) = slice o' n xs"
  by (rule nth_equalityI) (use assms in \<open>auto simp: nth_slice nth_patch\<close>)

lemma take_patch_extend:
  "off + length d \<le> length xs \<Longrightarrow> take (off + length d) (patch off d xs) = take off xs @ d"
  by (simp add: patch_def)

lemma take_patch_before:
  "m \<le> off \<Longrightarrow> off + length d \<le> length xs \<Longrightarrow> take m (patch off d xs) = take m xs"
  by (simp add: patch_def min_def)

lemma patch_append_prefix:
  "length d = length p \<Longrightarrow> patch 0 d (p @ q) = d @ q"
  by (simp add: patch_def)

section \<open>Options and maps\<close>

lemma bind_eq_SomeE:
  assumes "Option.bind m f = Some y"
  obtains x where "m = Some x" "f x = Some y"
  using assms by (cases m) auto

lemma map_upd_eq_iff: "(m(k \<mapsto> v)) x = Some y \<longleftrightarrow> (if x = k then v = y else m x = Some y)"
  by auto

section \<open>Multisets of list entries by filtering\<close>

lemma filter_all: "(\<And>x. x \<in> set xs \<Longrightarrow> P x) \<Longrightarrow> filter P xs = xs"
  by (induction xs) auto

end
