(* ===== verification/Text.thy ===== *)
theory Text
  imports Racs_Prelude "HOL-Library.Char_ord" "HOL-Library.List_Lexorder"
begin

text \<open>
  The pieces of the C string library that the file names of the storage layer go through: decimal
  \<open>printf\<close> conversions, \<open>strtoull\<close>, the integer conversions of \<open>sscanf\<close>, \<open>strcmp\<close>, \<open>strstr\<close> and
  \<open>strrchr\<close>. A string is the list of its characters without the terminator. The order of the library
  instance on strings is the order of \<open>strcmp\<close>.
\<close>

section \<open>Characters and digits\<close>

definition char_code :: "char \<Rightarrow> nat" where
  "char_code c = of_char c"

definition is_digit :: "char \<Rightarrow> bool" where
  "is_digit c \<longleftrightarrow> 48 \<le> char_code c \<and> char_code c \<le> 57"

definition is_space :: "char \<Rightarrow> bool" where
  "is_space c \<longleftrightarrow> char_code c = 32 \<or> (9 \<le> char_code c \<and> char_code c \<le> 13)"

definition digit_val :: "char \<Rightarrow> nat" where
  "digit_val c = char_code c - 48"

definition digit_char :: "nat \<Rightarrow> char" where
  "digit_char d = char_of (48 + d)"

definition str_val :: "string \<Rightarrow> nat" where
  "str_val s = foldl (\<lambda>acc c. 10 * acc + digit_val c) 0 s"

fun nat_str :: "nat \<Rightarrow> string" where
  "nat_str n = (if n < 10 then [digit_char n] else nat_str (n div 10) @ [digit_char (n mod 10)])"

declare nat_str.simps [simp del]

definition pad0 :: "nat \<Rightarrow> string \<Rightarrow> string" where
  "pad0 w s = replicate (w - length s) CHR ''0'' @ s"

text \<open>The conversions \<open>%0<w>d\<close> and \<open>%0<w>ld\<close>.\<close>

definition fmt_d0 :: "nat \<Rightarrow> int \<Rightarrow> string" where
  "fmt_d0 w n = (if n < 0 then CHR ''-'' # pad0 (w - 1) (nat_str (nat (- n))) else pad0 w (nat_str (nat n)))"

definition fmt_d :: "int \<Rightarrow> string" where
  "fmt_d n = fmt_d0 0 n"

text \<open>The conversion \<open>%0<w>llu\<close>.\<close>

definition fmt_u0 :: "nat \<Rightarrow> racs_uint64 \<Rightarrow> string" where
  "fmt_u0 w n = pad0 w (nat_str (unat n))"

section \<open>Reading numbers\<close>

text \<open>\<open>strtoull (s, &end, 10)\<close>: the value and what \<open>end\<close> points to.\<close>

definition strtoull :: "string \<Rightarrow> racs_uint64 \<times> string" where
  "strtoull s =
     (let t = dropWhile is_space s;
          neg = (t \<noteq> [] \<and> hd t = CHR ''-'');
          t = (if t \<noteq> [] \<and> (hd t = CHR ''-'' \<or> hd t = CHR ''+'') then tl t else t);
          ds = takeWhile is_digit t
      in if ds = [] then (0, s)
         else (if 2 ^ 64 \<le> str_val ds then - 1 else if neg then - of_nat (str_val ds) else of_nat (str_val ds),
               dropWhile is_digit t))"

text \<open>One conversion \<open>%<w>d\<close> of \<open>sscanf\<close> (\<open>w = 0\<close>: no maximal width), and one literal character.\<close>

definition scan_d :: "nat \<Rightarrow> string \<Rightarrow> (int \<times> string) option" where
  "scan_d w s =
     (let t = dropWhile is_space s;
          sgn = (t \<noteq> [] \<and> (hd t = CHR ''-'' \<or> hd t = CHR ''+''));
          neg = (t \<noteq> [] \<and> hd t = CHR ''-'');
          t = (if sgn then tl t else t);
          room = (if w = 0 then length t else if sgn then w - 1 else w);
          ds = takeWhile is_digit (take room t)
      in if ds = [] then None
         else Some (if neg then - int (str_val ds) else int (str_val ds), drop (length ds) t))"

fun scan_lit :: "string \<Rightarrow> string \<Rightarrow> string option" where
  "scan_lit [] s = Some s"
| "scan_lit (c # cs) [] = None"
| "scan_lit (c # cs) (d # s) = (if c = d then scan_lit cs s else None)"

section \<open>Searching and comparing\<close>

text \<open>\<open>strstr\<close>: the suffix that starts with the first occurrence.\<close>

fun strstr :: "string \<Rightarrow> string \<Rightarrow> string option" where
  "strstr [] pat = (if pat = [] then Some [] else None)"
| "strstr (c # s) pat = (if take (length pat) (c # s) = pat then Some (c # s) else strstr s pat)"

text \<open>\<open>strrchr\<close>: the suffix that starts with the last occurrence.\<close>

fun strrchr :: "string \<Rightarrow> char \<Rightarrow> string option" where
  "strrchr [] c = None"
| "strrchr (x # s) c =
     (case strrchr s c of Some t \<Rightarrow> Some t | None \<Rightarrow> if x = c then Some (x # s) else None)"

text \<open>The sign of \<open>strcmp\<close>, which compares the characters as unsigned.\<close>

fun strcmp :: "string \<Rightarrow> string \<Rightarrow> int" where
  "strcmp [] [] = 0"
| "strcmp [] (d # t) = - 1"
| "strcmp (c # s) [] = 1"
| "strcmp (c # s) (d # t) =
     (if char_code c < char_code d then - 1 else if char_code d < char_code c then 1 else strcmp s t)"

lemma char_less_code: "c < d \<longleftrightarrow> char_code c < char_code d"
  by (simp add: char_code_def less_char_def)

lemma char_code_inject: "char_code c = char_code d \<longleftrightarrow> c = d"
  by (simp add: char_code_def)

lemma strcmp_order:
  "(strcmp s t < 0) = (s < t)" "(strcmp s t = 0) = (s = t)" "(0 < strcmp s t) = (t < s)"
  by (induction s t rule: strcmp.induct)
     (auto simp: char_less_code Cons_less_Cons not_less le_less char_code_inject)

section \<open>Decimal representation\<close>

lemma char_code_digit: "d < 10 \<Longrightarrow> char_code (digit_char d) = 48 + d"
  by (simp add: digit_char_def char_code_def)

lemma digit_char_val [simp]: "d < 10 \<Longrightarrow> digit_val (digit_char d) = d"
  by (simp add: digit_val_def char_code_digit)

lemma is_digit_char [simp]: "d < 10 \<Longrightarrow> is_digit (digit_char d)"
  by (simp add: is_digit_def char_code_digit)

lemma digit_0 [simp]: "is_digit CHR ''0''" "digit_val CHR ''0'' = 0"
  by (simp_all add: is_digit_def digit_val_def char_code_def)

lemma digit_val_less: "is_digit c \<Longrightarrow> digit_val c < 10"
  by (auto simp: is_digit_def digit_val_def)

lemma str_val_snoc: "str_val (s @ [c]) = 10 * str_val s + digit_val c"
  by (simp add: str_val_def)

lemma str_val_Nil [simp]: "str_val [] = 0"
  by (simp add: str_val_def)

lemma foldl_val: "foldl (\<lambda>acc c. 10 * acc + digit_val c) a s = a * 10 ^ length s + str_val s"
proof (induction s rule: rev_induct)
  case (snoc c s)
  then show ?case by (simp add: str_val_snoc algebra_simps)
qed (simp add: str_val_def)

lemma str_val_Cons: "str_val (c # s) = digit_val c * 10 ^ length s + str_val s"
  using foldl_val [of "digit_val c" s] by (simp add: str_val_def)

lemma str_val_less: "\<forall>c\<in>set s. is_digit c \<Longrightarrow> str_val s < 10 ^ length s"
proof (induction s rule: rev_induct)
  case (snoc c s)
  then show ?case using digit_val_less [of c] by (auto simp: str_val_snoc)
qed (simp add: str_val_def)

lemma nat_str_digits: "c \<in> set (nat_str n) \<Longrightarrow> is_digit c"
  by (induction n rule: nat_str.induct) (subst (asm) (2) nat_str.simps, auto split: if_splits)

lemma str_val_nat_str [simp]: "str_val (nat_str n) = n"
proof (induction n rule: nat_str.induct)
  case (1 n)
  then show ?case
    by (cases "n < 10") (subst nat_str.simps, simp add: str_val_snoc str_val_Cons)+
qed

lemma nat_str_nonempty [simp]: "nat_str n \<noteq> []"
  by (subst nat_str.simps) simp

lemma length_nat_str: "n < 10 ^ w \<Longrightarrow> 0 < w \<Longrightarrow> length (nat_str n) \<le> w"
proof (induction n arbitrary: w rule: nat_str.induct)
  case (1 n)
  show ?case
  proof (cases "n < 10")
    case True
    then show ?thesis using 1 by (subst nat_str.simps) simp
  next
    case False
    obtain v where v: "w = Suc v" using 1 by (cases w) auto
    with False 1 have "n div 10 < 10 ^ v" "0 < v" by (cases v; auto)+
    with 1(1) [OF False, of v] False v show ?thesis by (subst nat_str.simps) simp
  qed
qed

lemma pad0_digits: "\<forall>c\<in>set (pad0 w (nat_str n)). is_digit c"
  using nat_str_digits by (auto simp: pad0_def)

lemma str_val_zeros: "str_val (replicate k CHR ''0'' @ s) = str_val s"
  by (induction k) (simp_all add: str_val_Cons)

lemma str_val_pad0 [simp]: "str_val (pad0 w s) = str_val s"
  by (simp add: pad0_def str_val_zeros)

lemma length_pad0: "length s \<le> w \<Longrightarrow> length (pad0 w s) = w"
  by (simp add: pad0_def)

lemma length_pad0_nat: "n < 10 ^ w \<Longrightarrow> 0 < w \<Longrightarrow> length (pad0 w (nat_str n)) = w"
  by (simp add: length_pad0 length_nat_str)

lemma pad0_nonempty [simp]: "pad0 w (nat_str n) \<noteq> []"
  by (simp add: pad0_def)

text \<open>On digit strings of one length, \<open>strcmp\<close> is the order of the numbers.\<close>

lemma digits_order:
  "length s = length t \<Longrightarrow> \<forall>c\<in>set s. is_digit c \<Longrightarrow> \<forall>c\<in>set t. is_digit c \<Longrightarrow>
   s < t \<longleftrightarrow> str_val s < str_val t"
proof (induction s t rule: list_induct2)
  case Nil
  then show ?case by simp
next
  case (Cons a s b t)
  then have IH: "s < t \<longleftrightarrow> str_val s < str_val t" by simp
  have lt: "str_val s < 10 ^ length t" "str_val t < 10 ^ length t"
    using Cons str_val_less [of s] str_val_less [of t] by auto
  have less: "a < b \<longleftrightarrow> digit_val a < digit_val b" "a = b \<longleftrightarrow> digit_val a = digit_val b"
    using Cons.prems by (auto simp: char_less_code is_digit_def digit_val_def simp flip: char_code_inject)
  show ?case
  proof (cases "digit_val a = digit_val b")
    case True
    with less IH Cons.hyps show ?thesis by (simp add: str_val_Cons Cons_less_Cons)
  next
    case False
    have *: "x * 10 ^ length t + str_val u < y * 10 ^ length t + str_val v"
      if "x < y" "str_val u < 10 ^ length t" for x y u v
    proof -
      have "(x + 1) * 10 ^ length t \<le> y * 10 ^ length t" using that(1) by (intro mult_le_mono) auto
      with that(2) show ?thesis by simp
    qed
    show ?thesis
    proof (cases "digit_val a < digit_val b")
      case True
      with * [OF True lt(1), of t] less Cons.hyps show ?thesis
        by (simp add: str_val_Cons Cons_less_Cons)
    next
      case False
      with \<open>digit_val a \<noteq> digit_val b\<close> have gt: "digit_val b < digit_val a" by simp
      with * [OF gt lt(2), of s] less Cons.hyps False show ?thesis
        by (simp add: str_val_Cons Cons_less_Cons)
    qed
  qed
qed

lemma pad0_order:
  assumes "m < 10 ^ w" "n < 10 ^ w" "0 < w"
  shows "pad0 w (nat_str m) < pad0 w (nat_str n) \<longleftrightarrow> m < n"
  using digits_order [OF _ pad0_digits pad0_digits, of w m w n] assms by (simp add: length_pad0_nat)

lemma pad0_inject:
  "pad0 w (nat_str m) = pad0 w (nat_str n) \<Longrightarrow> m = n"
  by (metis str_val_nat_str str_val_pad0)

text \<open>Orders of concatenations with a common prefix or a decided front.\<close>

lemma append_less_same: "(p @ s < p @ t) = (s < (t :: string))"
  by (induction p) simp_all

lemma append_less_front:
  "length p = length q \<Longrightarrow> p \<noteq> q \<Longrightarrow> (p @ s < q @ t) = (p < (q :: string))"
  by (induction p q rule: list_induct2) auto

section \<open>Reading back what was printed\<close>

lemma digit_not_space: "is_digit c \<Longrightarrow> \<not> is_space c"
  by (auto simp: is_digit_def is_space_def)

lemma digit_not_sign: "is_digit c \<Longrightarrow> c \<noteq> CHR ''-'' \<and> c \<noteq> CHR ''+''"
  by (auto simp: is_digit_def char_code_def)

lemma takeWhile_digits:
  "\<forall>c\<in>set ds. is_digit c \<Longrightarrow> takeWhile is_digit (ds @ r) = ds @ takeWhile is_digit r"
  by (induction ds) auto

lemma dropWhile_digits:
  "\<forall>c\<in>set ds. is_digit c \<Longrightarrow> dropWhile is_digit (ds @ r) = dropWhile is_digit r"
  by (induction ds) auto

lemma dropWhile_space_digits:
  "\<forall>c\<in>set ds. is_digit c \<Longrightarrow> ds \<noteq> [] \<Longrightarrow> dropWhile is_space (ds @ r) = ds @ r"
  by (cases ds) (auto simp: digit_not_space)

lemma scan_d_digits:
  assumes ds: "\<forall>c\<in>set ds. is_digit c" "ds \<noteq> []"
    and w: "w = length ds \<or> w = 0 \<and> (r = [] \<or> \<not> is_digit (hd r))"
  shows "scan_d w (ds @ r) = Some (int (str_val ds), r)"
proof -
  have hd: "hd (ds @ r) \<noteq> CHR ''-''" "hd (ds @ r) \<noteq> CHR ''+''"
    using ds digit_not_sign [of "hd ds"] by (cases ds; simp)+
  have tk: "takeWhile is_digit (take (if w = 0 then length (ds @ r) else w) (ds @ r)) = ds"
    using w ds by (cases r) (auto simp: takeWhile_digits)
  show ?thesis
    unfolding scan_d_def dropWhile_space_digits [OF ds] using ds(2) hd tk
    by (cases "w = 0") (simp_all add: Let_def)
qed

lemma scan_d_pad0:
  "n < 10 ^ w \<Longrightarrow> 0 < w \<Longrightarrow> scan_d w (pad0 w (nat_str n) @ r) = Some (int n, r)"
  using scan_d_digits [of "pad0 w (nat_str n)" w r] pad0_digits [of w n]
  by (simp add: length_pad0_nat)

lemma strtoull_digits:
  assumes "\<forall>c\<in>set ds. is_digit c" "ds \<noteq> []" "r = [] \<or> \<not> is_digit (hd r)" "str_val ds < 2 ^ 64"
  shows "strtoull (ds @ r) = (of_nat (str_val ds), r)"
proof -
  have hd: "hd (ds @ r) \<noteq> CHR ''-''" "hd (ds @ r) \<noteq> CHR ''+''"
    using assms digit_not_sign [of "hd ds"] by (cases ds; simp)+
  have "takeWhile is_digit (ds @ r) = ds" "dropWhile is_digit (ds @ r) = r"
    using assms by (cases r; simp add: takeWhile_digits dropWhile_digits)+
  with assms hd show ?thesis
    by (simp add: strtoull_def dropWhile_space_digits Let_def)
qed

lemma strtoull_fmt_u0: "strtoull (fmt_u0 w n) = (n, [])"
proof -
  have "unat n < 2 ^ 64" using unsigned_less [of n] by simp
  then show ?thesis
    using strtoull_digits [of "fmt_u0 w n" "[]"] pad0_digits [of w "unat n"] by (simp add: fmt_u0_def)
qed

lemma scan_lit_append [simp]: "scan_lit cs (cs @ s) = Some s"
  by (induction cs) simp_all

end
