(* ===== verification/Regex.thy ===== *)
theory Regex
  imports Text "HOL-Library.Sublist"
begin

text \<open>
  The part of \<^verbatim>\<open>regcomp\<close> and \<^verbatim>\<open>regexec\<close> (POSIX extended regular expressions) that the parser of the
  command language uses: a match is the leftmost one, and the longest of those. The matcher works with
  derivatives; the lemmas relate it to the language of an expression.
\<close>

section \<open>Expressions\<close>

datatype regex = Zero | One | Cls "char \<Rightarrow> bool" | Seq regex regex | Alt regex regex | Star regex

inductive matches :: "regex \<Rightarrow> string \<Rightarrow> bool" where
  m_One: "matches One []"
| m_Cls: "P c \<Longrightarrow> matches (Cls P) [c]"
| m_Seq: "matches r s \<Longrightarrow> matches q t \<Longrightarrow> matches (Seq r q) (s @ t)"
| m_AltL: "matches r s \<Longrightarrow> matches (Alt r q) s"
| m_AltR: "matches q s \<Longrightarrow> matches (Alt r q) s"
| m_Nil: "matches (Star r) []"
| m_Star: "matches r s \<Longrightarrow> matches (Star r) t \<Longrightarrow> matches (Star r) (s @ t)"

inductive_simps matches_simps [simp]:
  "matches Zero s" "matches One s" "matches (Cls P) s" "matches (Alt r q) s"

inductive_simps matches_Seq: "matches (Seq r q) s"

inductive_cases matches_StarE: "matches (Star r) s"

text \<open>Derived forms: a literal, a repetition of fixed length, one or more, an optional part.\<close>

abbreviation chr :: "char \<Rightarrow> regex" where "chr c \<equiv> Cls (\<lambda>x. x = c)"

abbreviation plus :: "regex \<Rightarrow> regex" where "plus r \<equiv> Seq r (Star r)"

abbreviation opt :: "regex \<Rightarrow> regex" where "opt r \<equiv> Alt One r"

fun rep :: "nat \<Rightarrow> regex \<Rightarrow> regex" where
  "rep 0 r = One"
| "rep (Suc n) r = Seq r (rep n r)"

section \<open>Derivatives\<close>

fun nullable :: "regex \<Rightarrow> bool" where
  "nullable Zero = False"
| "nullable One = True"
| "nullable (Cls P) = False"
| "nullable (Seq r q) = (nullable r \<and> nullable q)"
| "nullable (Alt r q) = (nullable r \<or> nullable q)"
| "nullable (Star r) = True"

fun mk_seq :: "regex \<Rightarrow> regex \<Rightarrow> regex" where
  "mk_seq Zero q = Zero"
| "mk_seq One q = q"
| "mk_seq r q = Seq r q"

fun mk_alt :: "regex \<Rightarrow> regex \<Rightarrow> regex" where
  "mk_alt Zero q = q"
| "mk_alt r q = (if q = Zero then r else Alt r q)"

fun deriv :: "char \<Rightarrow> regex \<Rightarrow> regex" where
  "deriv c Zero = Zero"
| "deriv c One = Zero"
| "deriv c (Cls P) = (if P c then One else Zero)"
| "deriv c (Seq r q) = (if nullable r then mk_alt (mk_seq (deriv c r) q) (deriv c q) else mk_seq (deriv c r) q)"
| "deriv c (Alt r q) = mk_alt (deriv c r) (deriv c q)"
| "deriv c (Star r) = mk_seq (deriv c r) (Star r)"

text \<open>The length of the longest match at the start of a string.\<close>

fun longest :: "regex \<Rightarrow> string \<Rightarrow> nat option" where
  "longest r [] = (if nullable r then Some 0 else None)"
| "longest r (c # s) =
     (case longest (deriv c r) s of Some n \<Rightarrow> Some (Suc n) | None \<Rightarrow> if nullable r then Some 0 else None)"

text \<open>The leftmost match, from position \<open>i\<close> on: its first position and the position behind it.\<close>

fun leftmost :: "regex \<Rightarrow> string \<Rightarrow> nat \<Rightarrow> (nat \<times> nat) option" where
  "leftmost r s i =
     (case longest r s of
        Some n \<Rightarrow> Some (i, i + n)
      | None \<Rightarrow> (case s of [] \<Rightarrow> None | _ # t \<Rightarrow> leftmost r t (Suc i)))"

declare leftmost.simps [simp del]

section \<open>Correctness\<close>

lemma nullable_matches: "nullable r \<longleftrightarrow> matches r []"
  by (induction r) (auto simp: matches_Seq intro: m_Nil)

lemma matches_mk_seq [simp]: "matches (mk_seq r q) s \<longleftrightarrow> matches (Seq r q) s"
  by (cases r) (auto simp: matches_Seq)

lemma matches_mk_alt [simp]: "matches (mk_alt r q) s \<longleftrightarrow> matches (Alt r q) s"
  by (cases r) auto

lemma matches_Star_Cons: "matches (Star r) (c # s) \<longleftrightarrow> (\<exists>t u. s = t @ u \<and> matches r (c # t) \<and> matches (Star r) u)"
proof
  show "matches (Star r) (c # s) \<Longrightarrow> \<exists>t u. s = t @ u \<and> matches r (c # t) \<and> matches (Star r) u"
  proof (induction "Star r" "c # s" rule: matches.induct)
    case (m_Star s t)
    then show ?case by (cases s) auto
  qed
qed (use m_Star [of r "c # _"] in fastforce)

lemma matches_Seq_Cons: "matches (Seq r q) (c # s) \<longleftrightarrow>
    (\<exists>t u. s = t @ u \<and> matches r (c # t) \<and> matches q u) \<or> matches r [] \<and> matches q (c # s)"
  by (auto simp: matches_Seq Cons_eq_append_conv)

lemma deriv_matches: "matches (deriv c r) s \<longleftrightarrow> matches r (c # s)"
proof (induction r arbitrary: s)
  case (Seq r q)
  have "matches (Seq (deriv c r) q) s \<longleftrightarrow> (\<exists>t u. s = t @ u \<and> matches r (c # t) \<and> matches q u)"
    by (simp add: matches_Seq Seq.IH)
  then show ?case by (auto simp: matches_Seq_Cons nullable_matches Seq.IH)
next
  case (Star r)
  have "matches (Seq (deriv c r) (Star r)) s \<longleftrightarrow> (\<exists>t u. s = t @ u \<and> matches r (c # t) \<and> matches (Star r) u)"
    by (simp add: matches_Seq Star.IH)
  then show ?case by (simp add: matches_Star_Cons)
qed auto

lemma all_le_Suc: "(\<forall>m\<le>Suc n. P m) \<longleftrightarrow> P 0 \<and> (\<forall>m\<le>n. P (Suc m))"
  by (metis Suc_le_mono not0_implies_Suc zero_le)

lemma longest_None: "longest r s = None \<longleftrightarrow> (\<forall>m\<le>length s. \<not> matches r (take m s))"
proof (induction r s rule: longest.induct)
  case (2 r c s)
  have "longest r (c # s) = None \<longleftrightarrow> longest (deriv c r) s = None \<and> \<not> nullable r" by (auto split: option.splits)
  with 2 show ?case by (auto simp: all_le_Suc nullable_matches deriv_matches)
qed (simp add: nullable_matches)

lemma longest_Some:
  "longest r s = Some n \<Longrightarrow> n \<le> length s \<and> matches r (take n s) \<and> (\<forall>m\<le>length s. matches r (take m s) \<longrightarrow> m \<le> n)"
proof (induction r s arbitrary: n rule: longest.induct)
  case (1 r)
  then show ?case by (auto simp: nullable_matches split: if_splits)
next
  case (2 r c s)
  show ?case
  proof (cases "longest (deriv c r) s")
    case None
    then have "n = 0" "matches r []" using 2(2) by (auto simp: nullable_matches split: if_splits)
    moreover have "\<forall>m\<le>length s. \<not> matches r (take (Suc m) (c # s))"
      using None by (simp add: longest_None deriv_matches)
    ultimately show ?thesis by (simp add: all_le_Suc)
  next
    case (Some k)
    then have "n = Suc k" using 2(2) by simp
    with 2(1) [OF Some] show ?thesis by (simp add: all_le_Suc deriv_matches)
  qed
qed

lemma longestI:
  assumes "n \<le> length s" "matches r (take n s)" "\<And>m. n < m \<Longrightarrow> m \<le> length s \<Longrightarrow> \<not> matches r (take m s)"
  shows "longest r s = Some n"
proof (cases "longest r s")
  case None
  then show ?thesis using assms(1,2) by (simp add: longest_None)
next
  case (Some k)
  from longest_Some [OF this] assms have "k = n" by (metis le_neq_implies_less not_less)
  with Some show ?thesis by simp
qed

text \<open>A match lies in the string, and no match starts further left.\<close>

lemma leftmost_Some:
  "leftmost r s i = Some (a, b) \<Longrightarrow> i \<le> a \<and> a \<le> b \<and> b \<le> i + length s \<and> matches r (take (b - a) (drop (a - i) s)) \<and>
     (\<forall>j<a - i. longest r (drop j s) = None)"
proof (induction r s i arbitrary: a b rule: leftmost.induct)
  case (1 r s i)
  show ?case
  proof (cases "longest r s")
    case None
    then obtain c t where s: "s = c # t" "leftmost r t (Suc i) = Some (a, b)"
      using 1(2) by (subst (asm) leftmost.simps) (auto split: list.splits)
    have IH: "Suc i \<le> a \<and> a \<le> b \<and> b \<le> Suc i + length t \<and> matches r (take (b - a) (drop (a - Suc i) t)) \<and>
     (\<forall>j<a - Suc i. longest r (drop j t) = None)" by (rule 1(1) [OF None s])
    have "longest r (drop j s) = None" if "j < a - i" for j
      using that IH None s(1) by (cases j) auto
    moreover have "drop (a - i) s = drop (a - Suc i) t" using IH s(1) by (simp add: Suc_diff_le [symmetric] drop_Cons')
    ultimately show ?thesis using IH s(1) by simp
  next
    case (Some n)
    then have "a = i" "b = i + n" using 1(2) by (simp_all add: leftmost.simps)
    with longest_Some [OF Some] show ?thesis by simp
  qed
qed

section \<open>Words of an expression\<close>

text \<open>Every character of a word satisfies a predicate that all classes imply.\<close>

fun drawn_from :: "(char \<Rightarrow> bool) \<Rightarrow> regex \<Rightarrow> bool" where
  "drawn_from P (Cls Q) = (\<forall>c. Q c \<longrightarrow> P c)"
| "drawn_from P (Seq r q) = (drawn_from P r \<and> drawn_from P q)"
| "drawn_from P (Alt r q) = (drawn_from P r \<and> drawn_from P q)"
| "drawn_from P (Star r) = drawn_from P r"
| "drawn_from P _ = True"

lemma drawn_from_matches: "matches r s \<Longrightarrow> drawn_from P r \<Longrightarrow> \<forall>c\<in>set s. P c"
  by (induction rule: matches.induct) auto

text \<open>Some character of every word satisfies a predicate.\<close>

fun requires :: "(char \<Rightarrow> bool) \<Rightarrow> regex \<Rightarrow> bool" where
  "requires P (Cls Q) = (\<forall>c. Q c \<longrightarrow> P c)"
| "requires P (Seq r q) = (requires P r \<or> requires P q)"
| "requires P (Alt r q) = (requires P r \<and> requires P q)"
| "requires P Zero = True"
| "requires P _ = False"

lemma requires_matches: "matches r s \<Longrightarrow> requires P r \<Longrightarrow> \<exists>c\<in>set s. P c"
  by (induction rule: matches.induct) auto

lemma matches_Star_Cls: "matches (Star (Cls P)) s \<longleftrightarrow> (\<forall>c\<in>set s. P c)"
proof
  show "matches (Star (Cls P)) s \<Longrightarrow> \<forall>c\<in>set s. P c" by (drule drawn_from_matches [where P = P]) simp_all
  show "\<forall>c\<in>set s. P c \<Longrightarrow> matches (Star (Cls P)) s"
  proof (induction s)
    case (Cons c s)
    then show ?case using m_Star [of "Cls P" "[c]" s] by simp
  qed (rule m_Nil)
qed

lemma matches_plus_Cls: "matches (plus (Cls P)) s \<longleftrightarrow> s \<noteq> [] \<and> (\<forall>c\<in>set s. P c)"
proof (cases s)
  case (Cons c t)
  have "matches (plus (Cls P)) (c # t)" if "P c" "\<forall>x\<in>set t. P x"
    using m_Seq [of "Cls P" "[c]" "Star (Cls P)" t] that by (simp add: matches_Star_Cls)
  then show ?thesis using Cons by (auto simp: matches_Seq matches_Star_Cls)
qed (auto simp: matches_Seq)

text \<open>A longest match that is stopped by the next character.\<close>

lemma take_beyond: "length w < m \<Longrightarrow> m \<le> length (w @ c # u) \<Longrightarrow> \<exists>v. take m (w @ c # u) = w @ c # v"
  by (cases "m - length w") auto

lemma longest_stop:
  assumes "matches r w" "u = [] \<or> (\<forall>v. \<not> matches r (w @ hd u # v))"
  shows "longest r (w @ u) = Some (length w)"
proof (rule longestI)
  fix m assume m: "length w < m" "m \<le> length (w @ u)"
  then obtain c u' where "u = c # u'" by (cases u) auto
  with take_beyond [of w m c u'] m assms(2) show "\<not> matches r (take m (w @ u))" by auto
qed (use assms(1) in simp_all)

lemma longest_refused:
  assumes "\<And>v. prefix v s \<Longrightarrow> \<not> matches r v"
  shows "longest r s = None"
  using assms take_is_prefix by (auto simp: longest_None)

end
