(* ===== verification/Timepath.thy ===== *)
theory Timepath
  imports Text "HOL-Library.Signed_Division"
begin

text \<open>
  Time stamps and the segment paths made from them, \<^verbatim>\<open>src/src/time.c\<close>. A time is a number of
  milliseconds; the calendar functions \<open>gmtime_r\<close> and \<open>timegm\<close> of the C library are defined on the
  proleptic Gregorian calendar. The theorems are the round trip from a time to its segment path and
  back, and that the alphabetical order in which the segment files are visited is the order of time.
\<close>

section \<open>The calendar\<close>

record tm =
  tm_year :: int
  tm_mon :: int
  tm_mday :: int
  tm_hour :: int
  tm_min :: int
  tm_sec :: int

definition leap :: "int \<Rightarrow> bool" where
  "leap y \<longleftrightarrow> y mod 4 = 0 \<and> y mod 100 \<noteq> 0 \<or> y mod 400 = 0"

definition year_len :: "int \<Rightarrow> int" where
  "year_len y = (if leap y then 366 else 365)"

definition month_lens :: "int \<Rightarrow> int list" where
  "month_lens y = [31, if leap y then 29 else 28, 31, 30, 31, 30, 31, 31, 30, 31, 30, 31]"

definition leaps :: "int \<Rightarrow> int" where
  "leaps y = y div 4 - y div 100 + y div 400"

text \<open>Days from 1970-01-01 to the first day of a year.\<close>

definition days_before_year :: "int \<Rightarrow> int" where
  "days_before_year y = 365 * (y - 1970) + (leaps (y - 1) - leaps 1969)"

definition month_offset :: "int \<Rightarrow> nat \<Rightarrow> int" where
  "month_offset y m = sum_list (take m (month_lens y))"

text \<open>\<open>timegm\<close>, which accepts fields outside their usual ranges.\<close>

definition timegm :: "tm \<Rightarrow> int" where
  "timegm info =
     (let y = tm_year info + 1900 + tm_mon info div 12;
          d = days_before_year y + month_offset y (nat (tm_mon info mod 12)) + tm_mday info - 1
      in ((d * 24 + tm_hour info) * 60 + tm_min info) * 60 + tm_sec info)"

lemma year_len_bounds: "365 \<le> year_len y" "year_len y \<le> 366"
  by (simp_all add: year_len_def)

function split_year :: "int \<Rightarrow> int \<Rightarrow> int \<times> int" where
  "split_year y n =
     (if n < 0 then split_year (y - 1) (n + year_len (y - 1))
      else if n < year_len y then (y, n)
      else split_year (y + 1) (n - year_len y))"
  by pat_completeness auto
termination
proof (relation "measure (\<lambda>(y, n). if n < 0 then nat (- n) + 366 else nat n)", goal_cases)
  case (2 y n)
  then show ?case using year_len_bounds [of "y - 1"] by (auto split: if_splits)
next
  case (3 y n)
  then show ?case using year_len_bounds [of y] by (auto split: if_splits)
qed simp

declare split_year.simps [simp del]

fun split_month :: "int list \<Rightarrow> nat \<Rightarrow> int \<Rightarrow> nat \<times> int" where
  "split_month [] m n = (m, n)"
| "split_month (l # ls) m n = (if n < l then (m, n) else split_month ls (Suc m) (n - l))"

definition gmtime :: "int \<Rightarrow> tm" where
  "gmtime sec =
     (let (y, n) = split_year 1970 (sec div 86400);
          (m, d) = split_month (month_lens y) 0 n;
          r = sec mod 86400
      in \<lparr>tm_year = y - 1900, tm_mon = int m, tm_mday = d + 1,
          tm_hour = r div 3600, tm_min = r div 60 mod 60, tm_sec = r mod 60\<rparr>)"

section \<open>Operations\<close>

definition racs_time_from_ts :: "int \<Rightarrow> int \<Rightarrow> int" where
  "racs_time_from_ts tv_sec tv_nsec = (tv_sec * 1000000000 + tv_nsec) sdiv 1000000"

definition racs_time_to_tm :: "int \<Rightarrow> tm" where
  "racs_time_to_tm time = gmtime (time sdiv 1000)"

definition racs_time_to_rfc3339 :: "int \<Rightarrow> string" where
  "racs_time_to_rfc3339 time =
     (let info = racs_time_to_tm time; rem = time smod 1000
      in fmt_d0 4 (tm_year info + 1900) @ ''-'' @ fmt_d0 2 (tm_mon info + 1) @ ''-'' @
         fmt_d0 2 (tm_mday info) @ ''T'' @ fmt_d0 2 (tm_hour info) @ '':'' @ fmt_d0 2 (tm_min info) @
         '':'' @ fmt_d0 2 (tm_sec info) @ ''.'' @ fmt_d0 3 rem @ ''Z'')"

text \<open>
  \<open>sscanf\<close> with a format that alternates literals and integer conversions of given widths: the values
  assigned before the first failure, in order.
\<close>

fun sscanf :: "(string \<times> nat) list \<Rightarrow> string \<Rightarrow> int list" where
  "sscanf [] s = []"
| "sscanf ((lit, w) # fmt) s =
     (case scan_lit lit s of
        None \<Rightarrow> []
      | Some t \<Rightarrow> (case scan_d w t of None \<Rightarrow> [] | Some (v, u) \<Rightarrow> v # sscanf fmt u))"

definition rfc3339_fmt :: "(string \<times> nat) list" where
  "rfc3339_fmt = [('''', 0), (''-'', 0), (''-'', 0), (''T'', 0), ('':'', 0), ('':'', 0), (''.'', 0)]"

definition seg_fmt :: "(string \<times> nat) list" where
  "seg_fmt = [(''.racs/seg/'', 4), (''/'', 2), (''/'', 2), (''/'', 2), (''/'', 2), (''/'', 2), (''/'', 3)]"

definition field :: "int list \<Rightarrow> nat \<Rightarrow> int" where
  "field vs i = (if i < length vs then vs ! i else 0)"

definition racs_time_from_rfc3339 :: "string \<Rightarrow> int" where
  "racs_time_from_rfc3339 buf =
     (let vs = sscanf rfc3339_fmt buf
      in if length vs < 3 then - 1
         else let info = \<lparr>tm_year = field vs 0 - 1900, tm_mon = field vs 1 - 1, tm_mday = field vs 2,
                          tm_hour = field vs 3, tm_min = field vs 4, tm_sec = field vs 5\<rparr>;
                  time = timegm info
              in if time = - 1 then - 1 else time * 1000 + field vs 6)"

definition racs_time_from_path :: "string \<Rightarrow> int option" where
  "racs_time_from_path path =
     do { match \<leftarrow> strstr path ''.racs/seg'';
          let vs = sscanf seg_fmt match;
          let mill = field vs 6;
          Some (if length vs \<noteq> 7 then - 1
                else if mill < 0 \<or> 999 < mill then - 1
                else let info = \<lparr>tm_year = field vs 0 - 1900, tm_mon = field vs 1 - 1, tm_mday = field vs 2,
                                 tm_hour = field vs 3, tm_min = field vs 4, tm_sec = field vs 5\<rparr>;
                         time = timegm info
                     in if time = - 1 then - 1 else time * 1000 + mill) }"

definition racs_time_to_path :: "string \<Rightarrow> int \<Rightarrow> bool \<Rightarrow> string" where
  "racs_time_to_path racs_time_dir time tmp =
     (let info = racs_time_to_tm time; rem = time smod 1000; ext = (if tmp then ''.tmp'' else '''')
      in racs_time_dir @ ''/.racs/seg/'' @ fmt_d (tm_year info + 1900) @ ''/'' @ fmt_d0 2 (tm_mon info + 1) @
         ''/'' @ fmt_d0 2 (tm_mday info) @ ''/'' @ fmt_d0 2 (tm_hour info) @ ''/'' @ fmt_d0 2 (tm_min info) @
         ''/'' @ fmt_d0 2 (tm_sec info) @ ''/'' @ fmt_d0 3 rem @ ext)"

text \<open>The directories that \<open>racs_time_create_dirs\<close> makes: the proper prefixes that end before a slash.\<close>

definition racs_time_create_dirs :: "string \<Rightarrow> int \<Rightarrow> string list" where
  "racs_time_create_dirs racs_time_dir time =
     (let p = racs_time_to_path racs_time_dir time True
      in map (\<lambda>i. take i p) (filter (\<lambda>i. p ! i = CHR ''/'') [1..<length p]))"

definition racs_is_tmpfile :: "string \<Rightarrow> bool" where
  "racs_is_tmpfile path = (case strrchr path CHR ''.'' of None \<Rightarrow> False | Some ext \<Rightarrow> strcmp ext ''.tmp'' = 0)"

section \<open>Calendar round trip\<close>

lemma div_step:
  fixes y k :: int
  assumes "0 < k"
  shows "y div k = (y - 1) div k + (if y mod k = 0 then 1 else 0)"
proof -
  have y: "y = k * (y div k) + y mod k" by simp
  show ?thesis
  proof (cases "y mod k = 0")
    case True
    then have "(y - 1) div k = y div k - 1"
      using assms y by (intro int_div_pos_eq [of _ _ _ "k - 1"]) (auto simp: algebra_simps)
    with True show ?thesis by simp
  next
    case False
    then have "0 < y mod k" "y mod k < k" using assms by (simp_all add: le_neq_trans)
    then have "(y - 1) div k = y div k"
      using y by (intro int_div_pos_eq [of _ _ _ "y mod k - 1"]) auto
    with False show ?thesis by simp
  qed
qed

lemma diff_add_steps:
  "a = a' + x \<Longrightarrow> b = b' + z \<Longrightarrow> c = c' + w \<Longrightarrow> a - b + c = (a' - b' + c') + (x - z + w)"
  for a b c :: int
  by simp

lemma leaps_step: "leaps y = leaps (y - 1) + (if leap y then 1 else 0)"
proof -
  have m: "y mod 400 = 0 \<Longrightarrow> y mod 100 = 0" "y mod 100 = 0 \<Longrightarrow> y mod 4 = 0"
    by presburger+
  have "leaps y = leaps (y - 1) + ((if y mod 4 = 0 then 1 else 0) - (if y mod 100 = 0 then 1 else 0) +
      (if y mod 400 = 0 then 1 else 0))"
    unfolding leaps_def by (rule diff_add_steps; rule div_step; simp)
  moreover have "((if y mod 4 = 0 then 1 else 0) - (if y mod 100 = 0 then 1 else 0) +
      (if y mod 400 = 0 then 1 else 0)) = (if leap y then 1 else (0 :: int))"
    using m by (cases "y mod 400 = 0"; cases "y mod 100 = 0"; cases "y mod 4 = 0") (simp_all only: leap_def, simp_all)
  ultimately show ?thesis by (simp only:)
qed

lemma days_before_year_Suc: "days_before_year (y + 1) = days_before_year y + year_len y"
  using leaps_step [of y] by (simp add: days_before_year_def year_len_def)

lemma days_before_year_less:
  assumes "x < y"
  shows "days_before_year x + year_len x \<le> days_before_year y"
proof -
  have "days_before_year x + year_len x \<le> days_before_year (x + 1 + int k)" for k
  proof (induction k)
    case 0
    then show ?case by (simp add: days_before_year_Suc)
  next
    case (Suc k)
    have "days_before_year (x + 1 + int (Suc k)) =
        days_before_year (x + 1 + int k) + year_len (x + 1 + int k)"
      using days_before_year_Suc [of "x + 1 + int k"] by (simp add: add.commute add.left_commute)
    with Suc year_len_bounds [of "x + 1 + int k"] show ?case by simp
  qed
  from this [of "nat (y - x - 1)"] assms show ?thesis by simp
qed

lemma split_year_inv:
  "split_year y n = (y', n') \<Longrightarrow>
   days_before_year y' + n' = days_before_year y + n \<and> 0 \<le> n' \<and> n' < year_len y'"
proof (induction y n rule: split_year.induct)
  case (1 y n)
  consider "n < 0" | "0 \<le> n" "n < year_len y" | "0 \<le> n" "year_len y \<le> n" by linarith
  then show ?case
  proof cases
    case 1
    with "1.IH"(1) "1.prems" days_before_year_Suc [of "y - 1"] show ?thesis
      by (subst (asm) (2) split_year.simps) simp
  next
    case 2
    with "1.prems" show ?thesis by (subst (asm) split_year.simps) simp
  next
    case 3
    with "1.IH"(2) "1.prems" days_before_year_Suc [of y] show ?thesis
      by (subst (asm) (2) split_year.simps) simp
  qed
qed

lemma split_month_inv:
  "split_month ls m n = (m', n') \<Longrightarrow> 0 \<le> n \<Longrightarrow> n < sum_list ls \<Longrightarrow>
   m \<le> m' \<and> m' < m + length ls \<and> 0 \<le> n' \<and> n' < ls ! (m' - m) \<and>
   n = sum_list (take (m' - m) ls) + n'"
proof (induction ls arbitrary: m n)
  case Nil
  then show ?case by simp
next
  case (Cons l ls)
  show ?case
  proof (cases "n < l")
    case True
    with Cons.prems show ?thesis by auto
  next
    case False
    with Cons.IH [of "Suc m" "n - l"] Cons.prems
    have IH: "Suc m \<le> m' \<and> m' < Suc m + length ls \<and> 0 \<le> n' \<and> n' < ls ! (m' - Suc m) \<and>
      n - l = sum_list (take (m' - Suc m) ls) + n'" by simp
    then obtain k where k: "m' - m = Suc k" "m' - Suc m = k" by (metis Suc_diff_le diff_Suc_Suc)
    with IH show ?thesis by auto
  qed
qed

lemma sum_month_lens: "sum_list (month_lens y) = year_len y"
  by (simp add: month_lens_def year_len_def)

lemma length_month_lens [simp]: "length (month_lens y) = 12"
  by (simp add: month_lens_def)

text \<open>What \<open>gmtime_r\<close> returns, in terms of the day number and the second of the day.\<close>

lemma gmtime_fields:
  obtains y m d where
    "gmtime s = \<lparr>tm_year = y - 1900, tm_mon = int m, tm_mday = d + 1, tm_hour = s mod 86400 div 3600,
       tm_min = s mod 86400 div 60 mod 60, tm_sec = s mod 86400 mod 60\<rparr>"
    "s div 86400 = days_before_year y + month_offset y m + d" "m < 12" "0 \<le> d" "d < month_lens y ! m"
    "month_offset y m + d < year_len y"
proof -
  obtain y n where y: "split_year 1970 (s div 86400) = (y, n)" by fastforce
  obtain m d where m: "split_month (month_lens y) 0 n = (m, d)" by fastforce
  note yi = split_year_inv [OF y]
  then have mi: "m < 12" "0 \<le> d" "d < month_lens y ! m" "n = month_offset y m + d"
    using split_month_inv [OF m] by (auto simp: sum_month_lens month_offset_def)
  show ?thesis
    using y m yi mi by (intro that [of y m d]) (simp_all add: gmtime_def Let_def days_before_year_def)
qed

lemma seconds_sum:
  "s = D * 86400 + r \<Longrightarrow> r = p * 60 + sec \<Longrightarrow> p = h * 60 + mi \<Longrightarrow>
   ((D * 24 + h) * 60 + mi) * 60 + sec = (s :: int)"
  by simp

lemma hours_of_minutes: "r div 3600 = r div 60 div (60 :: int)"
  by (simp flip: zdiv_zmult2_eq)

lemma timegm_gmtime: "timegm (gmtime s) = s"
proof -
  obtain y m d where g: "gmtime s = \<lparr>tm_year = y - 1900, tm_mon = int m, tm_mday = d + 1,
       tm_hour = s mod 86400 div 3600, tm_min = s mod 86400 div 60 mod 60, tm_sec = s mod 86400 mod 60\<rparr>"
    "s div 86400 = days_before_year y + month_offset y m + d" "m < 12" "0 \<le> d" "d < month_lens y ! m"
    "month_offset y m + d < year_len y"
    by (rule gmtime_fields)
  have "timegm (gmtime s) = (((s div 86400) * 24 + s mod 86400 div 3600) * 60 + s mod 86400 div 60 mod 60) * 60 +
      s mod 86400 mod 60"
    unfolding g(1) g(2) timegm_def using g(3) by (simp add: Let_def)
  also have "\<dots> = s"
    unfolding hours_of_minutes
    by (rule seconds_sum; rule div_mult_mod_eq [symmetric])
  finally show ?thesis .
qed

section \<open>Paths as lists of padded numbers\<close>

text \<open>The first instant of the year 10000, where the year no longer has four digits.\<close>

definition time_limit :: int where
  "time_limit = 253402300800000"

definition in_range :: "int \<Rightarrow> bool" where
  "in_range t \<longleftrightarrow> 0 \<le> t \<and> t < time_limit"

definition path_fields :: "int \<Rightarrow> nat list" where
  "path_fields t =
     (let info = gmtime (t div 1000)
      in [nat (tm_year info + 1900), nat (tm_mon info + 1), nat (tm_mday info), nat (tm_hour info),
          nat (tm_min info), nat (tm_sec info), nat (t mod 1000)])"

definition seg_widths :: "nat list" where
  "seg_widths = [4, 2, 2, 2, 2, 2, 3]"

definition seg_string :: "nat list \<Rightarrow> nat list \<Rightarrow> string" where
  "seg_string ws vs = concat (map2 (\<lambda>w v. CHR ''/'' # pad0 w (nat_str v)) ws vs)"

lemma smod_sdiv_nonneg:
  "0 \<le> (t :: int) \<Longrightarrow> t smod 1000 = t mod 1000 \<and> t sdiv 1000 = t div 1000"
  by (cases "t = 0") (simp_all add: signed_divide_int_def signed_modulo_int_def minus_mult_div_eq_mod)

lemma month_lens_le_31: "m < 12 \<Longrightarrow> month_lens y ! m \<le> 31"
  by (auto simp: month_lens_def nth_Cons less_Suc_eq numeral_eq_Suc split: nat.splits)

lemma time_fields:
  assumes "in_range t"
  obtains y m d where "t div 1000 div 86400 = days_before_year y + month_offset y m + d"
    "m < 12" "0 \<le> d" "d < month_lens y ! m" "month_offset y m + d < year_len y"
    "1970 \<le> y" "y \<le> 9999"
    "gmtime (t div 1000) = \<lparr>tm_year = y - 1900, tm_mon = int m, tm_mday = d + 1,
       tm_hour = t div 1000 mod 86400 div 3600, tm_min = t div 1000 mod 86400 div 60 mod 60,
       tm_sec = t div 1000 mod 86400 mod 60\<rparr>"
proof -
  obtain y m d where g: "gmtime (t div 1000) = \<lparr>tm_year = y - 1900, tm_mon = int m, tm_mday = d + 1,
       tm_hour = t div 1000 mod 86400 div 3600, tm_min = t div 1000 mod 86400 div 60 mod 60,
       tm_sec = t div 1000 mod 86400 mod 60\<rparr>"
    "t div 1000 div 86400 = days_before_year y + month_offset y m + d" "m < 12" "0 \<le> d"
    "d < month_lens y ! m" "month_offset y m + d < year_len y"
    by (rule gmtime_fields)
  define D where "D = t div 1000 div 86400"
  note g2 = g(2) [folded D_def]
  have D: "D = t div 86400000" by (simp add: D_def flip: zdiv_zmult2_eq)
  then have day: "0 \<le> D" using assms by (simp add: in_range_def pos_imp_zdiv_nonneg_iff)
  have "D \<le> (time_limit - 1) div 86400000"
    unfolding D using assms by (intro zdiv_mono1) (simp_all add: in_range_def)
  then have day': "D \<le> 2932896" by (simp add: time_limit_def)
  have off: "month_offset y m \<ge> 0"
    by (auto simp: month_offset_def month_lens_def intro!: sum_list_nonneg dest!: in_set_takeD)
  have ends: "days_before_year 1970 = 0" "days_before_year 9999 + year_len 9999 = 2932897" by code_simp+
  have "1970 \<le> y"
  proof (rule ccontr)
    assume "\<not> 1970 \<le> y"
    then have "days_before_year y + year_len y \<le> days_before_year 1970"
      by (intro days_before_year_less) simp
    with g2 g(6) day ends(1) show False by linarith
  qed
  moreover have "y \<le> 9999"
  proof (rule ccontr)
    assume "\<not> y \<le> 9999"
    then have "days_before_year 9999 + year_len 9999 \<le> days_before_year y"
      by (intro days_before_year_less) simp
    with g2 g(4) day' off ends(2) show False by linarith
  qed
  ultimately show ?thesis using g that by blast
qed

lemma hour_bound: "x mod 86400 div 3600 \<le> (23 :: int)"
proof -
  have "x mod 86400 div 3600 \<le> 86399 div 3600"
    using pos_mod_bound [of 86400 x] by (intro zdiv_mono1) simp_all
  then show ?thesis by simp
qed

lemma info_bounds:
  assumes "in_range t" "info = gmtime (t div 1000)"
  shows "1970 \<le> tm_year info + 1900" "tm_year info + 1900 \<le> 9999" "0 \<le> tm_mon info" "tm_mon info \<le> 11"
    "1 \<le> tm_mday info" "tm_mday info \<le> 31" "0 \<le> tm_hour info" "tm_hour info \<le> 23"
    "0 \<le> tm_min info" "tm_min info \<le> 59" "0 \<le> tm_sec info" "tm_sec info \<le> 59"
proof -
  obtain y m d where f: "t div 1000 div 86400 = days_before_year y + month_offset y m + d"
    "m < 12" "0 \<le> d" "d < month_lens y ! m" "month_offset y m + d < year_len y"
    "1970 \<le> y" "y \<le> 9999"
    "gmtime (t div 1000) = \<lparr>tm_year = y - 1900, tm_mon = int m, tm_mday = d + 1,
       tm_hour = t div 1000 mod 86400 div 3600, tm_min = t div 1000 mod 86400 div 60 mod 60,
       tm_sec = t div 1000 mod 86400 mod 60\<rparr>"
    by (rule time_fields [OF assms(1)])
  have hour: "0 \<le> tm_hour info" "tm_hour info \<le> 23"
    using hour_bound [of "t div 1000"] by (simp_all add: assms(2) f(8) pos_imp_zdiv_nonneg_iff)
  have min: "0 \<le> tm_min info" "tm_min info < 60" "0 \<le> tm_sec info" "tm_sec info < 60"
    by (simp_all add: assms(2) f(8))
  show "tm_mday info \<le> 31" using month_lens_le_31 [OF f(2), of y] f(4) by (simp add: assms(2) f(8))
  show "1970 \<le> tm_year info + 1900" "tm_year info + 1900 \<le> 9999" "0 \<le> tm_mon info" "tm_mon info \<le> 11"
    "1 \<le> tm_mday info" using f(2,3,6,7) by (simp_all add: assms(2) f(8))
  show "0 \<le> tm_hour info" "tm_hour info \<le> 23" "0 \<le> tm_min info" "tm_min info \<le> 59"
    "0 \<le> tm_sec info" "tm_sec info \<le> 59" using hour min by simp_all
qed

lemma path_fields_bounds:
  assumes "in_range t"
  shows "list_all2 (\<lambda>w v. v < 10 ^ w) seg_widths (path_fields t)"
proof -
  define info where "info = gmtime (t div 1000)"
  have "t mod 1000 < 1000" by simp
  with info_bounds [OF assms info_def] show ?thesis
    by (simp add: path_fields_def seg_widths_def nat_less_iff Let_def flip: info_def)
qed

lemma pad0_year: "1970 \<le> n \<Longrightarrow> pad0 4 (nat_str n) = nat_str n"
proof -
  assume n: "1970 \<le> n"
  have "\<not> length (nat_str n) \<le> 3"
  proof
    assume "length (nat_str n) \<le> 3"
    then have le: "(10 :: nat) ^ length (nat_str n) \<le> 10 ^ 3" by (intro power_increasing) simp_all
    have "str_val (nat_str n) < 10 ^ length (nat_str n)"
      using nat_str_digits by (intro str_val_less) blast
    also note le
    finally show False using n by simp
  qed
  then show ?thesis by (simp add: pad0_def)
qed

lemma to_path_eq:
  assumes "in_range t"
  shows "racs_time_to_path dir t tmp =
    dir @ ''/.racs/seg'' @ seg_string seg_widths (path_fields t) @ (if tmp then ''.tmp'' else [])"
proof -
  define info where "info = gmtime (t div 1000)"
  have t: "t smod 1000 = t mod 1000" "t sdiv 1000 = t div 1000"
    using assms smod_sdiv_nonneg [of t] by (simp_all add: in_range_def)
  note b = info_bounds [OF assms info_def]
  have nn: "0 \<le> tm_year info + 1900" "0 \<le> tm_mon info + 1" "0 \<le> tm_mday info" "0 \<le> t mod 1000"
    using b by simp_all
  have f0: "fmt_d0 w n = pad0 w (nat_str (nat n))" if "0 \<le> n" for w n
    using that by (simp add: fmt_d0_def)
  have year: "pad0 0 (nat_str (nat (tm_year info + 1900))) = pad0 4 (nat_str (nat (tm_year info + 1900)))"
    using b(1) pad0_year [of "nat (tm_year info + 1900)"] by (simp add: pad0_def)
  show ?thesis
    unfolding racs_time_to_path_def racs_time_to_tm_def path_fields_def seg_string_def seg_widths_def
      t Let_def fmt_d_def info_def [symmetric] f0 [OF nn(1)] f0 [OF nn(2)] f0 [OF nn(3)] f0 [OF nn(4)]
      f0 [OF b(7)] f0 [OF b(9)] f0 [OF b(11)] year
    by simp
qed

section \<open>Round trip\<close>

lemma sscanf_fields:
  "list_all2 (\<lambda>w v. 0 < w \<and> v < 10 ^ w) ws vs \<Longrightarrow>
   sscanf (map (Pair ''/'') ws) (seg_string ws vs @ r) = map int vs"
proof (induction ws vs rule: list_all2_induct)
  case Nil
  then show ?case by simp
next
  case (Cons w ws v vs)
  then show ?case
    using scan_d_pad0 [of v w "seg_string ws vs @ r"] by (simp add: seg_string_def)
qed

lemma scan_lit_prefix: "scan_lit (p @ q) (p @ s) = scan_lit q s"
  by (induction p) simp_all

lemma sscanf_seg:
  "sscanf seg_fmt (''.racs/seg'' @ s) = sscanf (map (Pair ''/'') seg_widths) s"
  using scan_lit_prefix [of "''.racs/seg''" "''/''" s] by (simp add: seg_fmt_def seg_widths_def)

lemma seg_pattern_cross:
  assumes "length xs < 9"
  shows "take 9 (xs @ ''/.racs/seg'' @ r) \<noteq> ''.racs/seg''"
proof
  assume eq: "take 9 (xs @ ''/.racs/seg'' @ r) = ''.racs/seg''"
  let ?k = "length xs"
  have "(take 9 (xs @ ''/.racs/seg'' @ r)) ! ?k = CHR ''/''"
    using assms by (simp add: nth_append)
  then have k: "''.racs/seg'' ! ?k = CHR ''/''" by (simp only: eq)
  have "?k = 0 \<or> ?k = 1 \<or> ?k = 2 \<or> ?k = 3 \<or> ?k = 4 \<or> ?k = 5 \<or> ?k = 6 \<or> ?k = 7 \<or> ?k = 8"
    using assms by linarith
  with k have "?k = 5" by auto
  then have "(take 9 (xs @ ''/.racs/seg'' @ r)) ! 6 = CHR ''.''"
    by (simp add: nth_append)
  then have "''.racs/seg'' ! 6 = CHR ''.''" by (simp only: eq)
  then show False by simp
qed

lemma strstr_append:
  "strstr dir pat = None \<Longrightarrow>
   (\<And>xs. xs \<noteq> [] \<Longrightarrow> length xs < length pat \<Longrightarrow> take (length pat) (xs @ q) \<noteq> pat) \<Longrightarrow>
   strstr (dir @ q) pat = strstr q pat"
proof (induction dir)
  case Nil
  then show ?case by simp
next
  case (Cons c dir)
  have "take (length pat) ((c # dir) @ q) \<noteq> pat"
  proof (cases "length (c # dir) < length pat")
    case True
    then show ?thesis by (intro Cons.prems(2)) simp_all
  next
    case False
    then have "take (length pat) ((c # dir) @ q) = take (length pat) (c # dir)"
      using take_append [of "length pat" "c # dir" q] by simp
    with Cons.prems(1) show ?thesis by (auto split: if_splits)
  qed
  with Cons show ?case by (simp split: if_splits)
qed

lemma strstr_seg:
  assumes "strstr dir ''.racs/seg'' = None"
  shows "strstr (dir @ ''/.racs/seg'' @ r) ''.racs/seg'' = Some (''.racs/seg'' @ r)"
proof -
  have nine: "length ''.racs/seg'' = 9" by simp
  have "strstr (dir @ ''/.racs/seg'' @ r) ''.racs/seg'' = strstr (''/.racs/seg'' @ r) ''.racs/seg''"
    using assms by (rule strstr_append) (unfold nine, rule seg_pattern_cross)
  then show ?thesis by simp
qed

lemma seg_widths_pos:
  "in_range t \<Longrightarrow> list_all2 (\<lambda>w v. 0 < w \<and> v < 10 ^ w) seg_widths (path_fields t)"
  using path_fields_bounds [of t] by (auto simp: list_all2_conv_all_nth seg_widths_def nth_Cons split: nat.splits)

lemma time_from_to_path:
  assumes "in_range t" "strstr dir ''.racs/seg'' = None"
  shows "racs_time_from_path (racs_time_to_path dir t tmp) = Some t"
proof -
  define info where "info = gmtime (t div 1000)"
  define r where "r = (if tmp then ''.tmp'' else [])"
  note b = info_bounds [OF assms(1) info_def]
  have scan: "sscanf seg_fmt (''.racs/seg'' @ seg_string seg_widths (path_fields t) @ r) = map int (path_fields t)"
    unfolding sscanf_seg by (rule sscanf_fields [OF seg_widths_pos [OF assms(1)]])
  have fields: "map int (path_fields t) = [tm_year info + 1900, tm_mon info + 1, tm_mday info, tm_hour info,
      tm_min info, tm_sec info, t mod 1000]"
    using b by (simp add: path_fields_def Let_def flip: info_def)
  have eta: "\<lparr>tm_year = tm_year info, tm_mon = tm_mon info, tm_mday = tm_mday info,
      tm_hour = tm_hour info, tm_min = tm_min info, tm_sec = tm_sec info\<rparr> = info" by simp
  have "timegm info = t div 1000" by (simp add: info_def timegm_gmtime)
  moreover have "0 \<le> t div 1000" using assms(1) by (simp add: in_range_def pos_imp_zdiv_nonneg_iff)
  then have "t div 1000 \<noteq> - 1" by linarith
  moreover have "\<not> t mod 1000 < 0" by simp
  moreover have "t mod 1000 \<le> 999" using pos_mod_bound [of 1000 t] by linarith
  moreover have "t div 1000 * 1000 + t mod 1000 = t" by (rule div_mult_mod_eq)
  ultimately show ?thesis
    unfolding racs_time_from_path_def to_path_eq [OF assms(1)] strstr_seg [OF assms(2)] r_def [symmetric]
      bind.simps Let_def scan fields field_def
    by (simp add: eta)
qed

text \<open>
  C27: The name of a segment file determines its time: for every time from 1970 up to the year 9999,
  \<open>racs_time_from_path\<close> reads back from the path of a finished or temporary segment exactly the time
  that \<open>racs_time_to_path\<close> wrote there, whatever the data directory is (as long as it does not itself
  contain the marker that the parser looks for).
\<close>

theorem time_path_roundtrip:
  assumes "in_range t" "strstr dir ''.racs/seg'' = None"
  shows "racs_time_from_path (racs_time_to_path dir t tmp) = Some t"
  using assms by (rule time_from_to_path)

theorem time_path_roundtrip_witness:
  "racs_time_to_path ''/data'' 1735689600123 True = ''/data/.racs/seg/2025/01/01/00/00/00/123.tmp'' \<and>
   racs_time_from_path ''/data/.racs/seg/2025/01/01/00/00/00/123.tmp'' = Some 1735689600123"
proof -
  have p: "racs_time_to_path ''/data'' 1735689600123 True = ''/data/.racs/seg/2025/01/01/00/00/00/123.tmp''"
    by code_simp
  have "racs_time_from_path (racs_time_to_path ''/data'' 1735689600123 True) = Some 1735689600123"
    by (rule time_path_roundtrip) (simp_all add: in_range_def time_limit_def)
  with p show ?thesis by simp
qed

section \<open>The order of the files is the order of time\<close>

lemma seg_string_order:
  "list_all2 (\<lambda>w v. 0 < w \<and> v < 10 ^ w) ws us \<Longrightarrow> list_all2 (\<lambda>w v. 0 < w \<and> v < 10 ^ w) ws vs \<Longrightarrow>
   seg_string ws us < seg_string ws vs \<longleftrightarrow> us < vs"
proof (induction ws arbitrary: us vs)
  case Nil
  then show ?case by (simp add: seg_string_def)
next
  case (Cons w ws)
  obtain u us' v vs' where uv: "us = u # us'" "vs = v # vs'"
    using Cons.prems by (auto simp: list_all2_Cons1)
  with Cons have IH: "seg_string ws us' < seg_string ws vs' \<longleftrightarrow> us' < vs'"
    and b: "0 < w" "u < 10 ^ w" "v < 10 ^ w" by auto
  show ?case
  proof (cases "u = v")
    case True
    with IH uv show ?thesis by (simp add: seg_string_def append_less_same)
  next
    case False
    then have "pad0 w (nat_str u) \<noteq> pad0 w (nat_str v)" using pad0_inject by blast
    with False uv b show ?thesis
      by (simp add: seg_string_def append_less_front length_pad0_nat pad0_order)
  qed
qed

lemma div_mod_less:
  fixes a b k :: int
  assumes "a < b" "0 < k"
  shows "a div k < b div k \<or> a div k = b div k \<and> a mod k < b mod k"
proof (cases "a div k = b div k")
  case True
  then show ?thesis using assms div_mult_mod_eq [of a k] div_mult_mod_eq [of b k] by (smt (verit))
next
  case False
  then show ?thesis using zdiv_mono1 [of a b k] assms by simp
qed

lemma month_offset_mono:
  assumes "m < m'" "m' \<le> 12"
  shows "month_offset y m + month_lens y ! m \<le> month_offset y m'"
proof -
  have take: "take m' (month_lens y) = take m (month_lens y) @ month_lens y ! m #
      drop (Suc m) (take m' (month_lens y))"
    using assms id_take_nth_drop [of m "take m' (month_lens y)"] by simp
  have "0 \<le> sum_list (drop (Suc m) (take m' (month_lens y)))"
    by (auto simp: month_lens_def intro!: sum_list_nonneg dest!: in_set_takeD in_set_dropD)
  with arg_cong [OF take, of sum_list] show ?thesis by (simp add: month_offset_def)
qed

lemma date_order:
  assumes d: "D = days_before_year y + month_offset y m + d" "m < 12" "0 \<le> d" "d < month_lens y ! m"
      "month_offset y m + d < year_len y"
    and d': "D' = days_before_year y' + month_offset y' m' + d'" "m' < 12" "0 \<le> d'" "d' < month_lens y' ! m'"
      "month_offset y' m' + d' < year_len y'"
    and le: "D \<le> D'"
  shows "y < y' \<or> y = y' \<and> (m < m' \<or> m = m' \<and> d' - d = D' - D)"
proof -
  have nonneg: "0 \<le> month_offset z k" for z k
    by (auto simp: month_offset_def month_lens_def intro!: sum_list_nonneg dest!: in_set_takeD)
  have "y \<le> y'"
  proof (rule ccontr)
    assume "\<not> y \<le> y'"
    then have "days_before_year y' + year_len y' \<le> days_before_year y" by (intro days_before_year_less) simp
    with d(1,3) d'(1,5) le nonneg [of y m] show False by linarith
  qed
  moreover have "m \<le> m'" if "y = y'"
  proof (rule ccontr)
    assume "\<not> m \<le> m'"
    with that d(2) have "month_offset y m' + month_lens y ! m' \<le> month_offset y m"
      by (intro month_offset_mono) simp_all
    with that d(1,3) d'(1,4) le show False by simp
  qed
  moreover have "d' - d = D' - D" if "y = y'" "m = m'" using that d(1) d'(1) by simp
  ultimately show ?thesis by linarith
qed

lemma path_fields_mono:
  assumes t: "in_range t" and t': "in_range t'" and less: "t < t'"
  shows "path_fields t < path_fields t'"
proof -
  obtain y m d where f: "t div 1000 div 86400 = days_before_year y + month_offset y m + d"
    "m < 12" "0 \<le> d" "d < month_lens y ! m" "month_offset y m + d < year_len y" "1970 \<le> y" "y \<le> 9999"
    "gmtime (t div 1000) = \<lparr>tm_year = y - 1900, tm_mon = int m, tm_mday = d + 1,
       tm_hour = t div 1000 mod 86400 div 3600, tm_min = t div 1000 mod 86400 div 60 mod 60,
       tm_sec = t div 1000 mod 86400 mod 60\<rparr>"
    by (rule time_fields [OF t])
  obtain y' m' d' where f': "t' div 1000 div 86400 = days_before_year y' + month_offset y' m' + d'"
    "m' < 12" "0 \<le> d'" "d' < month_lens y' ! m'" "month_offset y' m' + d' < year_len y'" "1970 \<le> y'" "y' \<le> 9999"
    "gmtime (t' div 1000) = \<lparr>tm_year = y' - 1900, tm_mon = int m', tm_mday = d' + 1,
       tm_hour = t' div 1000 mod 86400 div 3600, tm_min = t' div 1000 mod 86400 div 60 mod 60,
       tm_sec = t' div 1000 mod 86400 mod 60\<rparr>"
    by (rule time_fields [OF t'])
  define D r D' r' where dr: "D = t div 1000 div 86400" "r = t div 1000 mod 86400"
    "D' = t' div 1000 div 86400" "r' = t' div 1000 mod 86400"
  define h mi s h' mi' s' where hms: "h = r div 60 div 60" "mi = r div 60 mod 60" "s = r mod 60"
    "h' = r' div 60 div 60" "mi' = r' div 60 mod 60" "s' = r' mod 60"
  define ms ms' where ms: "ms = t mod 1000" "ms' = t' mod 1000"
  have nn: "0 \<le> h" "0 \<le> mi" "0 \<le> s" "0 \<le> ms" "0 \<le> h'" "0 \<le> mi'" "0 \<le> s'" "0 \<le> ms'"
    by (simp_all add: hms ms dr pos_imp_zdiv_nonneg_iff)
  have pf: "path_fields t = [nat y, nat (int m + 1), nat (d + 1), nat h, nat mi, nat s, nat ms]"
    "path_fields t' = [nat y', nat (int m' + 1), nat (d' + 1), nat h', nat mi', nat s', nat ms']"
    by (simp_all add: path_fields_def Let_def f(8) f'(8) hms dr ms hours_of_minutes)
  have dates: "D \<le> D' \<Longrightarrow> y < y' \<or> y = y' \<and> (m < m' \<or> m = m' \<and> d' - d = D' - D)"
    "D' \<le> D \<Longrightarrow> y' < y \<or> y' = y \<and> (m' < m \<or> m' = m \<and> d - d' = D - D')"
    using date_order f(1-5) [folded dr] f'(1-5) [folded dr] by blast+
  then have same: "y = y' \<and> m = m' \<and> d = d'" if "D = D'" using that by linarith
  have "t div 1000 < t' div 1000 \<or> t div 1000 = t' div 1000 \<and> ms < ms'"
    unfolding ms by (rule div_mod_less [OF less]) simp
  then consider "D < D'" | "D = D'" "r < r'" | "D = D'" "r = r'" "ms < ms'"
    unfolding dr using div_mod_less [of "t div 1000" "t' div 1000" 86400] by auto
  then show ?thesis
  proof cases
    case 1
    then have "y < y' \<or> y = y' \<and> (m < m' \<or> m = m' \<and> d < d')" using dates by linarith
    with f(3,6) f'(3,6) show ?thesis by (auto simp: pf)
  next
    case 2
    from 2(2) have "h < h' \<or> h = h' \<and> (mi < mi' \<or> mi = mi' \<and> s < s')"
      unfolding hms using div_mod_less [of r r' 60] div_mod_less [of "r div 60" "r' div 60" 60] by auto
    with same [OF 2(1)] nn show ?thesis by (auto simp: pf)
  next
    case 3
    with same [OF 3(1)] nn show ?thesis by (auto simp: pf hms)
  qed
qed

text \<open>
  Sorting segment files by name sorts them by time: for times from 1970 up to the year 9999,
  \<open>strcmp\<close> orders the paths of two segments as their times are ordered.
\<close>

theorem time_path_order:
  assumes "in_range t" "in_range t'"
  shows "strcmp (racs_time_to_path dir t False) (racs_time_to_path dir t' False) < 0 \<longleftrightarrow> t < t'"
proof -
  have mono: "racs_time_to_path dir a False < racs_time_to_path dir b False"
    if "in_range a" "in_range b" "a < b" for a b
    using that path_fields_mono [OF that]
    by (simp add: to_path_eq append_less_same seg_string_order seg_widths_pos)
  show ?thesis
    unfolding strcmp_order
    using mono [OF assms] mono [OF assms(2,1)] by (metis less_asym less_irrefl linorder_neqE)
qed

theorem time_path_order_witness:
  "strcmp (racs_time_to_path ''/d'' 999999999999 False) (racs_time_to_path ''/d'' 1000000000000 False) < 0"
  using time_path_order [of 999999999999 1000000000000 "''/d''"] by (simp add: in_range_def time_limit_def)

section \<open>Temporary files\<close>

lemma strrchr_append:
  "strrchr (s @ t) c = (case strrchr t c of Some u \<Rightarrow> Some u | None \<Rightarrow> map_option (\<lambda>u. u @ t) (strrchr s c))"
  by (induction s) (auto split: option.splits)

lemma strrchr_notin: "c \<notin> set s \<Longrightarrow> strrchr s c = None"
  by (induction s) auto

lemma seg_string_no_dot: "CHR ''.'' \<notin> set (seg_string ws vs)"
proof -
  have "\<not> is_digit CHR ''.''" by (simp add: is_digit_def char_code_def)
  then have "CHR ''.'' \<notin> set (pad0 w (nat_str v))" for w v using pad0_digits by blast
  then show ?thesis by (auto simp: seg_string_def dest!: set_zip_leftD)
qed

lemma tmpfile_of_path: "in_range t \<Longrightarrow> racs_is_tmpfile (racs_time_to_path dir t tmp) = tmp"
  by (simp add: racs_is_tmpfile_def to_path_eq strrchr_append strrchr_notin [OF seg_string_no_dot]
      strcmp_order)

end
