(* ===== verification/Floats.thy ===== *)
theory Floats
  imports Racs_Prelude Complex_Main "HOL-Library.Log_Nat"
begin

text \<open>
  Binary floating point as the C code uses it: a finite number is a rational, and every operation is
  the exact operation followed by \<open>rnd p\<close>, rounding to nearest with ties to even in \<open>p\<close> bits (53 for
  \<^verbatim>\<open>double\<close>, 24 for \<^verbatim>\<open>float\<close>). The exponent is not bounded. The times, sizes and ratios
  that the code computes are far from the subnormal numbers and the overflow threshold; a client can write a
  literal that is not, with some 309 digits or more, which is infinite or zero in C and a large or small
  rational here. A conversion to an integer type truncates, and is undefined outside the range of the type.
\<close>

definition two_powi :: "int \<Rightarrow> rat" where
  "two_powi e = (if 0 \<le> e then 2 ^ nat e else 1 / 2 ^ nat (- e))"

text \<open>The exponent of a positive rational, from the lengths of its numerator and denominator.\<close>

definition ilog2 :: "rat \<Rightarrow> int" where
  "ilog2 x = (let (a, b) = quotient_of x; k = bitlen a - bitlen b in if two_powi k \<le> x then k else k - 1)"

definition round_even :: "rat \<Rightarrow> int" where
  "round_even m = (let f = \<lfloor>m\<rfloor>; d = m - of_int f
     in if d < 1 / 2 then f else if 1 / 2 < d then f + 1 else if even f then f else f + 1)"

definition rnd :: "nat \<Rightarrow> rat \<Rightarrow> rat" where
  "rnd p x = (if x = 0 then 0
     else let e = ilog2 \<bar>x\<bar> - int (p - 1) in of_int (round_even (x / two_powi e)) * two_powi e)"

abbreviation double :: "rat \<Rightarrow> rat" where "double \<equiv> rnd 53"

abbreviation single :: "rat \<Rightarrow> rat" where "single \<equiv> rnd 24"

definition trunc_int :: "rat \<Rightarrow> int" where
  "trunc_int x = (if 0 \<le> x then \<lfloor>x\<rfloor> else - \<lfloor>- x\<rfloor>)"

section \<open>Powers of two\<close>

lemma two_powi_pos [simp]: "0 < two_powi e"
  by (simp add: two_powi_def)

lemma two_powi_nonzero [simp]: "two_powi e \<noteq> 0"
  using two_powi_pos [of e] by linarith

lemma two_powi_nonneg [simp]: "0 \<le> two_powi e"
  using two_powi_pos [of e] by (rule less_imp_le)

lemma two_powi_Suc: "two_powi (e + 1) = 2 * two_powi e"
proof -
  consider "0 \<le> e" | "e = - 1" | "e < - 1" by linarith
  then show ?thesis
  proof cases
    case 3
    then have "nat (- e) = Suc (nat (- (e + 1)))" by simp
    with 3 show ?thesis by (simp add: two_powi_def)
  qed (simp_all add: two_powi_def nat_add_distrib)
qed

lemma two_powi_add_nat: "two_powi (e + int n) = 2 ^ n * two_powi e"
proof (induction n)
  case (Suc n)
  then show ?case using two_powi_Suc [of "e + int n"] by (simp add: ac_simps)
qed simp

lemma two_powi_nat [simp]: "two_powi (int n) = 2 ^ n"
  by (simp add: two_powi_def)

lemma two_powi_mono: "e \<le> e' \<Longrightarrow> two_powi e \<le> two_powi e'"
proof -
  assume "e \<le> e'"
  then have e: "e' = e + int (nat (e' - e))" by simp
  have "1 * two_powi e \<le> 2 ^ nat (e' - e) * two_powi e"
    by (intro mult_right_mono) simp_all
  then show "two_powi e \<le> two_powi e'" by (subst e, subst two_powi_add_nat) simp
qed

lemma two_powi_less_iff: "two_powi e < two_powi e' \<longleftrightarrow> e < e'"
proof
  assume "two_powi e < two_powi e'" then show "e < e'" using two_powi_mono [of e' e] by linarith
next
  assume "e < e'"
  then have "two_powi (e + 1) \<le> two_powi e'" by (intro two_powi_mono) simp
  then have "2 * two_powi e \<le> two_powi e'" by (simp add: two_powi_Suc)
  then show "two_powi e < two_powi e'" using two_powi_pos [of e] by linarith
qed

lemma two_powi_diff: "two_powi (int a - int b) = 2 ^ a / 2 ^ b"
proof (cases "b \<le> a")
  case True
  then have "two_powi (int a - int b) = 2 ^ (a - b)" by (metis of_nat_diff two_powi_nat)
  then show ?thesis using True by (simp add: power_diff)
next
  case False
  then have "nat (- (int a - int b)) = b - a" by simp
  then show ?thesis using False by (simp add: two_powi_def power_diff)
qed

lemma bitlen_range:
  assumes "0 < (a :: int)"
  obtains n where "bitlen a = int (Suc n)" "2 ^ n \<le> a" "a < 2 ^ Suc n"
proof -
  have "0 < bitlen a" using assms bitlen_eq_zero_iff [of a] bitlen_nonneg [of a] by linarith
  then obtain n where n: "bitlen a = int (Suc n)" by (metis zero_less_imp_eq_int gr0_implies_Suc)
  then show thesis using bitlen_bounds [OF assms] by (intro that [of n]) (simp_all add: nat_add_distrib)
qed

lemma ilog2_bounds:
  assumes "0 < x"
  shows "two_powi (ilog2 x) \<le> x" "x < two_powi (ilog2 x + 1)"
proof -
  obtain a b where ab: "quotient_of x = (a, b)" by fastforce
  have b: "0 < b" using ab by (rule quotient_of_denom_pos)
  have x: "x = of_int a / of_int b" using ab by (rule quotient_of_div)
  then have a: "0 < a" using assms b by (simp add: zero_less_divide_iff)
  obtain m where m: "bitlen a = int (Suc m)" "2 ^ m \<le> a" "a < 2 ^ Suc m" using bitlen_range [OF a] .
  obtain n where n: "bitlen b = int (Suc n)" "2 ^ n \<le> b" "b < 2 ^ Suc n" using bitlen_range [OF b] .
  have a': "(2 :: rat) ^ m \<le> of_int a" "of_int a < (2 :: rat) ^ Suc m"
    and b': "(2 :: rat) ^ n \<le> of_int b" "of_int b < (2 :: rat) ^ Suc n"
    using m n by (metis of_int_le_iff of_int_less_iff of_int_numeral of_int_power)+
  have lo: "two_powi (int m - int (Suc n)) \<le> x"
    unfolding x two_powi_diff using a a' b' b by (intro frac_le) auto
  have hi: "x < two_powi (int (Suc m) - int n)"
    unfolding x two_powi_diff using a a' b' b by (intro frac_less) auto
  let ?k = "int m - int n"
  have k: "ilog2 x = (if two_powi ?k \<le> x then ?k else ?k - 1)"
    using ab m(1) n(1) by (simp add: ilog2_def)
  have e: "int m - int (Suc n) = ?k - 1" "int (Suc m) - int n = ?k + 1" by simp_all
  show "two_powi (ilog2 x) \<le> x" "x < two_powi (ilog2 x + 1)"
    using lo hi unfolding k e by (auto simp: not_le)
qed

lemma ilog2_unique:
  assumes "0 < x" "two_powi e \<le> x" "x < two_powi (e + 1)"
  shows "ilog2 x = e"
  using ilog2_bounds [OF assms(1)] assms(2,3) two_powi_less_iff
  by (metis le_less_trans less_le_trans not_less_iff_gr_or_eq add1_zle_eq linorder_not_less)

section \<open>Rounding to an integer\<close>

lemma round_even_error: "\<bar>of_int (round_even m) - m\<bar> \<le> 1 / 2"
proof -
  have "of_int \<lfloor>m\<rfloor> \<le> m" "m < of_int \<lfloor>m\<rfloor> + 1" by linarith+
  then show ?thesis by (auto simp: round_even_def Let_def abs_le_iff)
qed

lemma round_even_int [simp]: "round_even (of_int n) = n"
  by (simp add: round_even_def)

lemma round_even_mono:
  assumes "x \<le> y"
  shows "round_even x \<le> round_even y"
proof (cases "\<lfloor>x\<rfloor> = \<lfloor>y\<rfloor>")
  case True
  then show ?thesis using assms by (auto simp: round_even_def Let_def)
next
  case False
  then have "\<lfloor>x\<rfloor> + 1 \<le> \<lfloor>y\<rfloor>" using floor_mono [OF assms] by linarith
  moreover have "round_even x \<le> \<lfloor>x\<rfloor> + 1" "\<lfloor>y\<rfloor> \<le> round_even y" by (auto simp: round_even_def Let_def)
  ultimately show ?thesis by linarith
qed

lemma round_even_of_nat_pow [simp]: "round_even (2 ^ n) = 2 ^ n"
  using round_even_int [of "2 ^ n"] by simp

section \<open>Rounding to a precision\<close>

lemma rnd_zero [simp]: "rnd p 0 = 0"
  by (simp add: rnd_def)

lemma rnd_eq:
  "x \<noteq> 0 \<Longrightarrow> rnd p x =
     of_int (round_even (x / two_powi (ilog2 \<bar>x\<bar> - int (p - 1)))) * two_powi (ilog2 \<bar>x\<bar> - int (p - 1))"
  unfolding rnd_def Let_def by simp

lemma rnd_eq_pos:
  "0 < x \<Longrightarrow> rnd p x =
     of_int (round_even (x / two_powi (ilog2 x - int (p - 1)))) * two_powi (ilog2 x - int (p - 1))"
  using rnd_eq [of x p] by simp

lemma rnd_error:
  assumes "0 < p"
  shows "\<bar>rnd p x - x\<bar> \<le> \<bar>x\<bar> / 2 ^ p"
proof (cases "x = 0")
  case False
  define e where "e = ilog2 \<bar>x\<bar> - int (p - 1)"
  let ?t = "two_powi e"
  have "two_powi (ilog2 \<bar>x\<bar>) \<le> \<bar>x\<bar>" using False by (intro ilog2_bounds) simp
  moreover have "two_powi (ilog2 \<bar>x\<bar>) = 2 ^ (p - 1) * ?t"
    using two_powi_add_nat [of e "p - 1"] by (simp add: e_def)
  moreover have p: "(2 :: rat) ^ p = 2 * 2 ^ (p - 1)" using assms by (cases p) auto
  ultimately have t: "?t / 2 \<le> \<bar>x\<bar> / 2 ^ p" by (simp add: field_simps)
  have "rnd p x = of_int (round_even (x / ?t)) * ?t" unfolding e_def by (rule rnd_eq [OF False])
  then have "rnd p x - x = (of_int (round_even (x / ?t)) - x / ?t) * ?t" by (simp add: left_diff_distrib)
  then have "\<bar>rnd p x - x\<bar> = \<bar>of_int (round_even (x / ?t)) - x / ?t\<bar> * ?t"
    by (simp add: abs_mult)
  also have "\<dots> \<le> 1 / 2 * ?t" using round_even_error by (intro mult_right_mono) simp_all
  finally show ?thesis using t by linarith
qed simp

lemma rnd_int:
  assumes "\<bar>n\<bar> < 2 ^ p" "0 < p"
  shows "rnd p (of_int n) = of_int n"
proof (cases "n = 0")
  case False
  define x :: rat where "x = of_int n"
  have "of_int \<bar>n\<bar> < (of_int (2 ^ p) :: rat)" using assms(1) by (subst of_int_less_iff)
  then have x: "0 < \<bar>x\<bar>" "\<bar>x\<bar> < 2 ^ p" using False by (simp_all add: x_def)
  define e where "e = ilog2 \<bar>x\<bar> - int (p - 1)"
  have "two_powi (ilog2 \<bar>x\<bar>) < two_powi (int p)" using ilog2_bounds [OF x(1)] x(2) by simp
  then have "ilog2 \<bar>x\<bar> < int p" unfolding two_powi_less_iff .
  then have "e \<le> 0" using assms(2) by (simp add: e_def of_nat_diff)
  then have "two_powi e * 2 ^ nat (- e) = 1" by (simp add: two_powi_def)
  then have "x / two_powi e = x * 2 ^ nat (- e)" by (simp add: field_simps)
  then have q: "x / two_powi e = of_int (n * 2 ^ nat (- e))" by (simp add: x_def)
  have "rnd p x = of_int (round_even (x / two_powi e)) * two_powi e"
    unfolding e_def using x(1) by (intro rnd_eq) simp
  also have "\<dots> = x" unfolding q round_even_int unfolding q [symmetric] by simp
  finally show ?thesis by (simp add: x_def)
qed simp

lemma rnd_bounds:
  assumes "0 < x" "0 < p"
  shows "two_powi (ilog2 x) \<le> rnd p x" "rnd p x \<le> two_powi (ilog2 x + 1)"
proof -
  define e where "e = ilog2 x - int (p - 1)"
  have r: "rnd p x = of_int (round_even (x / two_powi e)) * two_powi e"
    unfolding e_def using assms(1) by (rule rnd_eq_pos)
  have lo: "two_powi (ilog2 x) = 2 ^ (p - 1) * two_powi e"
    using two_powi_add_nat [of e "p - 1"] by (simp add: e_def)
  have hi: "two_powi (ilog2 x + 1) = 2 ^ p * two_powi e"
    using two_powi_add_nat [of e p] assms(2) by (simp add: e_def of_nat_diff)
  have "2 ^ (p - 1) \<le> x / two_powi e" "x / two_powi e \<le> 2 ^ p"
    using ilog2_bounds [OF assms(1)] unfolding lo hi by (simp_all add: field_simps)
  then have "2 ^ (p - 1) \<le> round_even (x / two_powi e)" "round_even (x / two_powi e) \<le> 2 ^ p"
    using round_even_mono by (metis round_even_of_nat_pow)+
  then have "(2 :: rat) ^ (p - 1) \<le> of_int (round_even (x / two_powi e))"
    "of_int (round_even (x / two_powi e)) \<le> (2 :: rat) ^ p"
    by (metis of_int_le_iff of_int_numeral of_int_power)+
  then show "two_powi (ilog2 x) \<le> rnd p x" "rnd p x \<le> two_powi (ilog2 x + 1)"
    unfolding r lo hi by (simp_all add: mult_right_mono)
qed

lemma rnd_nonneg: "0 \<le> x \<Longrightarrow> 0 < p \<Longrightarrow> 0 \<le> rnd p x"
proof (cases "x = 0")
  case False
  assume "0 \<le> x" "0 < p"
  with False rnd_bounds(1) [of x p] have "two_powi (ilog2 x) \<le> rnd p x" by auto
  with two_powi_pos [of "ilog2 x"] show ?thesis by linarith
qed simp

lemma ilog2_mono: "0 < x \<Longrightarrow> x \<le> y \<Longrightarrow> ilog2 x \<le> ilog2 y"
  using ilog2_bounds [of x] ilog2_bounds [of y] two_powi_less_iff [of "ilog2 x" "ilog2 y + 1"] by linarith

lemma rnd_mono:
  assumes "0 \<le> x" "x \<le> y" "0 < p"
  shows "rnd p x \<le> rnd p y"
proof (cases "x = 0")
  case True
  then show ?thesis using rnd_nonneg assms by simp
next
  case False
  with assms have x: "0 < x" and y: "0 < y" by auto
  show ?thesis
  proof (cases "ilog2 x = ilog2 y")
    case True
    define e where "e = ilog2 y - int (p - 1)"
    have "x / two_powi e \<le> y / two_powi e" using assms by (simp add: divide_right_mono)
    then have "round_even (x / two_powi e) \<le> round_even (y / two_powi e)" by (rule round_even_mono)
    then have "(of_int (round_even (x / two_powi e)) :: rat) \<le> of_int (round_even (y / two_powi e))" by simp
    moreover have "rnd p x = of_int (round_even (x / two_powi e)) * two_powi e"
      "rnd p y = of_int (round_even (y / two_powi e)) * two_powi e"
      unfolding e_def by (rule rnd_eq_pos [OF x, unfolded True], rule rnd_eq_pos [OF y])
    ultimately show ?thesis by (simp add: mult_right_mono)
  next
    case False
    then have "ilog2 x + 1 \<le> ilog2 y" using ilog2_mono [OF x assms(2)] by simp
    then have "two_powi (ilog2 x + 1) \<le> two_powi (ilog2 y)" by (rule two_powi_mono)
    with rnd_bounds [OF x assms(3)] rnd_bounds [OF y assms(3)] show ?thesis by linarith
  qed
qed

lemma trunc_int_mono: "x \<le> y \<Longrightarrow> trunc_int x \<le> trunc_int y"
proof (cases "0 \<le> x \<or> y < 0")
  case False
  then have "0 \<le> \<lfloor>- x\<rfloor>" "0 \<le> \<lfloor>y\<rfloor>" by simp_all
  then have "- \<lfloor>- x\<rfloor> \<le> \<lfloor>y\<rfloor>" by linarith
  with False show ?thesis by (simp add: trunc_int_def)
qed (auto simp: trunc_int_def floor_mono)

lemma rnd_nat: "n < 2 ^ p \<Longrightarrow> 0 < p \<Longrightarrow> rnd p (of_nat n) = of_nat n"
  using rnd_int [of "int n" p] by simp

lemma rnd_error_nonneg: "0 \<le> x \<Longrightarrow> 0 < p \<Longrightarrow> \<bar>rnd p x - x\<bar> \<le> x * (1 / 2 ^ p)"
  using rnd_error [of p x] by simp

text \<open>Two roundings, of a quotient and of its product with 1000, stay within one unit.\<close>

lemma two_roundings:
  assumes "0 \<le> y" "1000 * y < 2 ^ 51"
  shows "\<bar>double (double y * 1000) - 1000 * y\<bar> < 1"
proof -
  define E :: rat where "E = 1 / 2 ^ 53"
  have E: "0 < E" "E \<le> 1" "2 ^ 51 * E = 1 / 4" by (simp_all add: E_def)
  have e1: "\<bar>double y - y\<bar> \<le> y * E" unfolding E_def by (rule rnd_error_nonneg [OF assms(1)]) simp
  have q: "0 \<le> double y" using rnd_nonneg [OF assms(1), of 53] by simp
  have e2: "\<bar>double (double y * 1000) - double y * 1000\<bar> \<le> double y * 1000 * E"
    unfolding E_def using q by (intro rnd_error_nonneg) simp_all
  have y1: "y * E \<le> y" using mult_left_mono [OF E(2) assms(1)] by simp
  have "double y \<le> 2 * y" using e1 y1 by linarith
  then have "double y * 1000 * E \<le> 2 * y * 1000 * E" using E(1) by (intro mult_right_mono) auto
  then have d: "double y * 1000 * E \<le> 2000 * (y * E)" by (simp add: mult.assoc mult.left_commute)
  have "1000 * y * E < 2 ^ 51 * E" by (rule mult_strict_right_mono [OF assms(2) E(1)])
  then have "1000 * (y * E) < 1 / 4" unfolding E(3) by (simp add: mult.assoc)
  then show ?thesis using e1 e2 d by linarith
qed

lemma ms_mono:
  assumes "0 \<le> x" "x \<le> y" "0 \<le> r"
  shows "trunc_int (double (double (double x / r) * 1000)) \<le> trunc_int (double (double (double y / r) * 1000))"
  using assms
  by (intro trunc_int_mono rnd_mono mult_right_mono divide_right_mono divide_nonneg_nonneg mult_nonneg_nonneg rnd_nonneg)
     simp_all


section \<open>Symmetry\<close>

lemma round_even_minus: "round_even (- m) = - round_even m"
proof (cases "of_int \<lfloor>m\<rfloor> = m")
  case True
  then have "round_even m = \<lfloor>m\<rfloor>" "round_even (- m) = - \<lfloor>m\<rfloor>"
    using round_even_int [of "\<lfloor>m\<rfloor>"] round_even_int [of "- \<lfloor>m\<rfloor>"] by auto
  then show ?thesis by simp
next
  case False
  then have f: "\<lfloor>- m\<rfloor> = - \<lfloor>m\<rfloor> - 1" using ceiling_altdef [of m] floor_minus [of m] by auto
  show ?thesis unfolding round_even_def Let_def f by auto
qed

lemma rnd_minus: "rnd p (- x) = - rnd p x"
  by (simp add: rnd_def Let_def round_even_minus)

lemma rnd_abs_le:
  assumes "\<bar>x\<bar> \<le> \<bar>y\<bar>" "0 < p"
  shows "\<bar>rnd p x\<bar> \<le> \<bar>rnd p y\<bar>"
proof -
  have a: "\<bar>rnd p z\<bar> = rnd p \<bar>z\<bar>" for z
    using rnd_nonneg [of "\<bar>z\<bar>" p] assms(2) rnd_minus [of p z] by (cases "0 \<le> z") auto
  show ?thesis unfolding a using assms by (intro rnd_mono) auto
qed

lemma rnd_sign: "0 < p \<Longrightarrow> 0 \<le> x \<Longrightarrow> 0 \<le> rnd p x" "0 < p \<Longrightarrow> x \<le> 0 \<Longrightarrow> rnd p x \<le> 0"
  using rnd_nonneg [of x p] rnd_nonneg [of "- x" p] by (simp_all add: rnd_minus)

lemma rnd_one [simp]: "0 < p \<Longrightarrow> rnd p 1 = 1"
  using round_even_int [of 1] by (simp add: rnd_def ilog2_def two_powi_def Let_def)

end
