(* ===== verification/Parser.thy ===== *)
theory Parser
  imports Regex Timepath Floats
begin

text \<open>
  The lexer of the command language, \<^verbatim>\<open>src/src/parser.c\<close>. A token is its type with the text or value
  that the C structure refers to; the text of an identifier or string is the \<open>size\<close> bytes at \<open>ptr\<close>. The
  source is a C string, so it has no character 0, and it is shorter than 2^31 characters: positions are
  natural numbers here, while the code advances by offsets of the type \<open>regoff_t\<close>, an \<open>int\<close>. The theorems: every token but the last advances inside
  the source, so a source has at most as many tokens as characters; and the lexer reads back the tokens
  of a printed command line.
\<close>

section \<open>Patterns\<close>

definition is_alpha :: "char \<Rightarrow> bool" where
  "is_alpha c \<longleftrightarrow> 65 \<le> char_code c \<and> char_code c \<le> 90 \<or> 97 \<le> char_code c \<and> char_code c \<le> 122"

abbreviation quote :: char where "quote \<equiv> CHR 0x27"

abbreviation backslash :: char where "backslash \<equiv> CHR 0x5C"

text \<open>The expressions of \<^verbatim>\<open>parser.h\<close>; the first component tells whether the pattern starts with \<^verbatim>\<open>^\<close>.\<close>

type_synonym pattern = "bool \<times> regex"

definition RACS_REGEX_PIPE :: pattern where
  "RACS_REGEX_PIPE = (False, Seq (chr CHR ''|'') (chr CHR ''>''))"

abbreviation plain :: regex where "plain \<equiv> Cls (\<lambda>c. c \<noteq> quote \<and> c \<noteq> backslash)"

definition RACS_REGEX_STR :: pattern where
  "RACS_REGEX_STR = (False, Seq (chr quote)
     (Seq (Seq (Star plain) (Star (Seq (chr backslash) (Seq (chr quote) (Star plain))))) (chr quote)))"

definition RACS_REGEX_ID :: pattern where
  "RACS_REGEX_ID = (True, Seq (Cls (\<lambda>c. is_alpha c \<or> c = CHR ''_'')) (Star (Cls (\<lambda>c. is_alpha c \<or> is_digit c \<or> c = CHR ''_''))))"

abbreviation sign :: regex where "sign \<equiv> opt (Cls (\<lambda>c. c = CHR ''+'' \<or> c = CHR ''-''))"

abbreviation digit :: regex where "digit \<equiv> Cls is_digit"

definition RACS_REGEX_INT :: pattern where
  "RACS_REGEX_INT = (True, Seq sign (plus digit))"

definition RACS_REGEX_FLOAT :: pattern where
  "RACS_REGEX_FLOAT = (True, Seq sign
     (Alt (Seq (Star digit) (Seq (chr CHR ''.'') (plus digit))) (Seq (plus digit) (Seq (chr CHR ''.'') (Star digit)))))"

definition RACS_REGEX_TIME :: pattern where
  "RACS_REGEX_TIME = (True,
     Seq (rep 4 digit) (Seq (chr CHR ''-'') (Seq (rep 2 digit) (Seq (chr CHR ''-'') (Seq (rep 2 digit)
    (Seq (chr CHR ''T'') (Seq (rep 2 digit) (Seq (chr CHR '':'') (Seq (rep 2 digit) (Seq (chr CHR '':'') (Seq (rep 2 digit)
    (Seq (opt (Seq (chr CHR ''.'') (plus digit)))
    (Alt (chr CHR ''Z'') (Seq (Cls (\<lambda>c. c = CHR ''+'' \<or> c = CHR ''-''))
      (Seq (rep 2 digit) (Seq (chr CHR '':'') (rep 2 digit)))))))))))))))))"

section \<open>Tokens\<close>

datatype racs_token =
    Tok_none | Tok_id string | Tok_str string | Tok_pipe | Tok_int racs_int64 | Tok_float rat
  | Tok_time racs_int64 | Tok_eof | Tok_error string

record racs_parser =
  ps_ptr :: string
  ps_curr :: int
  ps_error :: string

definition racs_parser_init :: "string \<Rightarrow> racs_parser" where
  "racs_parser_init source = \<lparr>ps_ptr = source, ps_curr = 0, ps_error = []\<rparr>"

definition racs_parser_advance :: "racs_parser \<Rightarrow> nat \<Rightarrow> racs_parser" where
  "racs_parser_advance p step = p\<lparr>ps_ptr := drop step (ps_ptr p), ps_curr := ps_curr p + int step\<rparr>"

text \<open>The offsets \<open>rm_so\<close> and \<open>rm_eo\<close> of the match.\<close>

definition racs_match_token :: "string \<Rightarrow> pattern \<Rightarrow> (nat \<times> nat) option" where
  "racs_match_token s pat =
     (if fst pat then map_option (Pair 0) (longest (snd pat) s) else leftmost (snd pat) s 0)"

definition racs_parser_lex_token_time :: "racs_parser \<Rightarrow> nat \<times> nat \<Rightarrow> racs_token \<times> racs_parser" where
  "racs_parser_lex_token_time p m =
     (let sz = snd m - fst m
      in (Tok_time (word_of_int (racs_time_from_rfc3339 (take sz (ps_ptr p)))), racs_parser_advance p sz))"

definition racs_parser_lex_token_str :: "racs_parser \<Rightarrow> nat \<times> nat \<Rightarrow> racs_token \<times> racs_parser" where
  "racs_parser_lex_token_str p m =
     (let sz = snd m - fst m - 2; p = racs_parser_advance p 1
      in (Tok_str (take sz (ps_ptr p)), racs_parser_advance p (sz + 1)))"

definition racs_parser_lex_token_id :: "racs_parser \<Rightarrow> nat \<times> nat \<Rightarrow> racs_token \<times> racs_parser" where
  "racs_parser_lex_token_id p m =
     (let sz = snd m - fst m in (Tok_id (take sz (ps_ptr p)), racs_parser_advance p sz))"

definition racs_parser_lex_token_int64 :: "racs_parser \<Rightarrow> nat \<times> nat \<Rightarrow> racs_token \<times> racs_parser" where
  "racs_parser_lex_token_int64 p m =
     (let sz = snd m - fst m in (Tok_int (fst (strtoull (take sz (ps_ptr p)))), racs_parser_advance p sz))"

text \<open>\<open>atof\<close> on the strings that the pattern accepts: a sign, digits, a point and digits.\<close>

definition atof :: "string \<Rightarrow> rat" where
  "atof s =
     (let t = (if s \<noteq> [] \<and> (hd s = CHR ''+'' \<or> hd s = CHR ''-'') then tl s else s);
          ds = takeWhile is_digit t;
          fs = takeWhile is_digit (tl (dropWhile is_digit t));
          v = of_nat (str_val (ds @ fs)) / 10 ^ length fs
      in double (if s \<noteq> [] \<and> hd s = CHR ''-'' then - v else v))"

definition racs_parser_lex_token_float64 :: "racs_parser \<Rightarrow> nat \<times> nat \<Rightarrow> racs_token \<times> racs_parser" where
  "racs_parser_lex_token_float64 p m =
     (let sz = snd m - fst m in (Tok_float (atof (take sz (ps_ptr p))), racs_parser_advance p sz))"

definition racs_parser_lex_token_pipe :: "racs_parser \<Rightarrow> nat \<times> nat \<Rightarrow> racs_token \<times> racs_parser" where
  "racs_parser_lex_token_pipe p m = (Tok_pipe, racs_parser_advance p (snd m - fst m))"

definition racs_parser_token_error :: "racs_parser \<Rightarrow> racs_token \<times> racs_parser" where
  "racs_parser_token_error p =
     (let msg = ''Invalid token at '' @ fmt_d (ps_curr p) in (Tok_error msg, p\<lparr>ps_error := msg\<rparr>))"

text \<open>The loop over white space.\<close>

fun skip_space :: "string \<Rightarrow> int \<Rightarrow> string \<times> int" where
  "skip_space [] n = ([], n)"
| "skip_space (c # s) n = (if is_space c then skip_space s (n + 1) else (c # s, n))"

text \<open>The tests of \<open>racs_parser_next_token\<close> in their order: the first character, the pattern, the action.\<close>

type_synonym lex_rule = "bool \<times> pattern \<times> (racs_parser \<Rightarrow> nat \<times> nat \<Rightarrow> racs_token \<times> racs_parser)"

definition lex_rules :: "char \<Rightarrow> lex_rule list" where
  "lex_rules c =
    [(c = CHR ''+'' \<or> c = CHR ''-'', RACS_REGEX_FLOAT, racs_parser_lex_token_float64),
     (c = CHR ''+'' \<or> c = CHR ''-'', RACS_REGEX_INT, racs_parser_lex_token_int64),
     (is_digit c, RACS_REGEX_TIME, racs_parser_lex_token_time),
     (is_digit c, RACS_REGEX_FLOAT, racs_parser_lex_token_float64),
     (is_digit c, RACS_REGEX_INT, racs_parser_lex_token_int64),
     (c = CHR ''.'', RACS_REGEX_FLOAT, racs_parser_lex_token_float64),
     (c = quote, RACS_REGEX_STR, racs_parser_lex_token_str),
     (c = CHR ''|'', RACS_REGEX_PIPE, racs_parser_lex_token_pipe),
     (is_alpha c \<or> c = CHR ''_'', RACS_REGEX_ID, racs_parser_lex_token_id)]"

fun lex_first :: "lex_rule list \<Rightarrow> racs_parser \<Rightarrow> racs_token \<times> racs_parser" where
  "lex_first [] p = racs_parser_token_error p"
| "lex_first ((b, pat, act) # rules) p =
     (if b then (case racs_match_token (ps_ptr p) pat of Some m \<Rightarrow> act p m | None \<Rightarrow> lex_first rules p)
      else lex_first rules p)"

definition racs_parser_next_token :: "racs_parser \<Rightarrow> racs_token \<times> racs_parser" where
  "racs_parser_next_token p =
     (let (s, n) = skip_space (ps_ptr p) (ps_curr p); p = p\<lparr>ps_ptr := s, ps_curr := n\<rparr>
      in case s of [] \<Rightarrow> (Tok_eof, p) | c # _ \<Rightarrow> lex_first (lex_rules c) p)"

section \<open>Progress\<close>

text \<open>An accepted token moves the parser by at least one character and not past the end.\<close>

definition moved :: "racs_parser \<Rightarrow> racs_parser \<Rightarrow> nat \<Rightarrow> bool" where
  "moved p p' k \<longleftrightarrow> k \<le> length (ps_ptr p) \<and> ps_ptr p' = drop k (ps_ptr p) \<and> ps_curr p' = ps_curr p + int k"

lemma skip_space_eq: "skip_space s n = (dropWhile is_space s, n + int (length (takeWhile is_space s)))"
  by (induction s arbitrary: n) auto

lemma match_bounds:
  assumes "racs_match_token s pat = Some (a, b)"
  shows "a \<le> b" "b \<le> length s" "matches (snd pat) (take (b - a) (drop a s))"
proof -
  have "a \<le> b \<and> b \<le> length s \<and> matches (snd pat) (take (b - a) (drop a s))"
  proof (cases "fst pat")
    case True
    then show ?thesis using assms longest_Some [of "snd pat" s] by (auto simp: racs_match_token_def)
  next
    case False
    then show ?thesis using assms leftmost_Some [of "snd pat" s 0 a b] by (simp add: racs_match_token_def)
  qed
  then show "a \<le> b" "b \<le> length s" "matches (snd pat) (take (b - a) (drop a s))" by auto
qed

text \<open>The shortest word of an expression.\<close>

fun min_len :: "regex \<Rightarrow> nat" where
  "min_len (Cls P) = 1"
| "min_len (Seq r q) = min_len r + min_len q"
| "min_len (Alt r q) = min (min_len r) (min_len q)"
| "min_len _ = 0"

lemma min_len_matches: "matches r s \<Longrightarrow> min_len r \<le> length s"
  by (induction rule: matches.induct) auto

lemma match_size:
  assumes "racs_match_token s pat = Some (a, b)"
  shows "min_len (snd pat) \<le> b - a"
  using min_len_matches [OF match_bounds(3) [OF assms]] match_bounds(1,2) [OF assms] by simp

lemma advance_moved: "k \<le> length (ps_ptr p) \<Longrightarrow> moved p (racs_parser_advance p k) k"
  by (simp add: moved_def racs_parser_advance_def)

lemma advance_add: "racs_parser_advance (racs_parser_advance p j) k = racs_parser_advance p (j + k)"
  by (simp add: racs_parser_advance_def add.commute)

lemma lex_first_moved:
  assumes "lex_first rules p = (tok, p')" "\<And>m. tok \<noteq> Tok_error m"
    and "\<And>b pat act a e. (b, pat, act) \<in> set rules \<Longrightarrow> b \<Longrightarrow> racs_match_token (ps_ptr p) pat = Some (a, e) \<Longrightarrow>
      \<exists>k>0. moved p (snd (act p (a, e))) k"
  shows "\<exists>k>0. moved p p' k"
  using assms
proof (induction rules)
  case Nil
  then show ?case by (auto simp: racs_parser_token_error_def Let_def)
next
  case (Cons r rules)
  obtain b pat act where r: "r = (b, pat, act)" by (cases r)
  show ?case
  proof (cases "b \<and> racs_match_token (ps_ptr p) pat \<noteq> None")
    case True
    then obtain a e where "b" "racs_match_token (ps_ptr p) pat = Some (a, e)" by auto
    with Cons.prems(1) Cons.prems(3) [of b pat act a e] r show ?thesis by auto
  next
    case False
    then have "lex_first rules p = (tok, p')" using Cons.prems(1) r by (auto split: if_splits option.splits)
    then show ?thesis
    proof (rule Cons.IH [OF _ Cons.prems(2)])
      fix b' pat' act' a e
      assume "(b', pat', act') \<in> set rules" "b'" "racs_match_token (ps_ptr p) pat' = Some (a, e)"
      then show "\<exists>k>0. moved p (snd (act' p (a, e))) k" using Cons.prems(3) [of b' pat' act' a e] by simp
    qed
  qed
qed

lemma rule_moves:
  assumes "(b, pat, act) \<in> set (lex_rules c)" "racs_match_token (ps_ptr p) pat = Some (a, e)"
  shows "\<exists>k>0. moved p (snd (act p (a, e))) k"
proof -
  note bounds = match_bounds(1,2) [OF assms(2)]
  have sz: "min_len (snd pat) \<le> e - a" by (rule match_size [OF assms(2)])
  have le: "e - a \<le> length (ps_ptr p)" using bounds by simp
  have str: "e - a = (e - a - 2) + 2" if "pat = RACS_REGEX_STR" using sz that by (simp add: RACS_REGEX_STR_def)
  have pos: "0 < e - a" using sz assms(1)
    by (auto simp: lex_rules_def RACS_REGEX_PIPE_def RACS_REGEX_STR_def RACS_REGEX_ID_def RACS_REGEX_INT_def
        RACS_REGEX_FLOAT_def RACS_REGEX_TIME_def numeral_eq_Suc)
  have "moved p (racs_parser_advance p (e - a)) (e - a)" by (rule advance_moved [OF le])
  moreover have "snd (act p (a, e)) = racs_parser_advance p (e - a)"
    using assms(1) str
    by (auto simp: lex_rules_def racs_parser_lex_token_float64_def racs_parser_lex_token_int64_def
        racs_parser_lex_token_time_def racs_parser_lex_token_id_def racs_parser_lex_token_pipe_def
        racs_parser_lex_token_str_def Let_def advance_add)
  ultimately show ?thesis using pos by metis
qed

lemma next_token_progress:
  assumes "racs_parser_next_token p = (tok, p')" "tok \<noteq> Tok_eof" "\<And>m. tok \<noteq> Tok_error m"
  shows "\<exists>k>0. moved p p' k"
proof -
  define w where "w = length (takeWhile is_space (ps_ptr p))"
  define q where "q = p\<lparr>ps_ptr := dropWhile is_space (ps_ptr p), ps_curr := ps_curr p + int w\<rparr>"
  obtain c s where cs: "dropWhile is_space (ps_ptr p) = c # s" "lex_first (lex_rules c) q = (tok, p')"
    using assms(1,2) by (auto simp: racs_parser_next_token_def skip_space_eq Let_def q_def w_def split: list.splits)
  have "\<exists>k>0. moved q p' k"
    by (rule lex_first_moved [OF cs(2) assms(3)]) (rule rule_moves)
  then obtain k where k: "0 < k" "moved q p' k" by blast
  have "dropWhile is_space (ps_ptr p) = drop w (ps_ptr p)" by (simp add: w_def dropWhile_eq_drop)
  moreover have "w \<le> length (ps_ptr p)" by (simp add: w_def length_takeWhile_le)
  ultimately have "moved p p' (k + w)" using k(2) by (auto simp: moved_def q_def)
  then show ?thesis using k(1) by auto
qed

text \<open>The state after \<open>n\<close> tokens, and the next token there.\<close>

primrec after_tokens :: "nat \<Rightarrow> racs_parser \<Rightarrow> racs_parser" where
  "after_tokens 0 p = p"
| "after_tokens (Suc n) p = after_tokens n (snd (racs_parser_next_token p))"

definition nth_token :: "nat \<Rightarrow> racs_parser \<Rightarrow> racs_token" where
  "nth_token n p = fst (racs_parser_next_token (after_tokens n p))"

definition final :: "racs_token \<Rightarrow> bool" where
  "final tok \<longleftrightarrow> (case tok of Tok_eof \<Rightarrow> True | Tok_error _ \<Rightarrow> True | _ \<Rightarrow> False)"

lemma final_token: "\<not> final tok \<longleftrightarrow> tok \<noteq> Tok_eof \<and> (\<forall>m. tok \<noteq> Tok_error m)"
  by (cases tok) (auto simp: final_def)

lemma tokens_end:
  "\<exists>n\<le>length (ps_ptr p). final (nth_token n p) \<and> (\<forall>m<n. \<not> final (nth_token m p) \<and>
     (\<exists>k>0. moved (after_tokens m p) (after_tokens (Suc m) p) k))"
proof (induction "length (ps_ptr p)" arbitrary: p rule: less_induct)
  case less
  obtain tok p' where t: "racs_parser_next_token p = (tok, p')" by fastforce
  show ?case
  proof (cases "final tok")
    case True
    then show ?thesis using t by (intro exI [of _ 0]) (simp add: nth_token_def)
  next
    case False
    then obtain k where k: "0 < k" "moved p p' k" using next_token_progress [OF t] by (auto simp: final_token)
    then have len: "length (ps_ptr p') < length (ps_ptr p)" by (auto simp: moved_def)
    from less [OF len] obtain n where n: "n \<le> length (ps_ptr p')" "final (nth_token n p')"
      "\<forall>m<n. \<not> final (nth_token m p') \<and> (\<exists>k>0. moved (after_tokens m p') (after_tokens (Suc m) p') k)" by blast
    have step: "nth_token (Suc m) p = nth_token m p'" "after_tokens (Suc m) p = after_tokens m p'" for m
      using t by (simp_all add: nth_token_def)
    have "\<not> final (nth_token m p) \<and> (\<exists>k>0. moved (after_tokens m p) (after_tokens (Suc m) p) k)" if "m < Suc n" for m
    proof (cases m)
      case 0
      then show ?thesis using False k t by (auto simp: nth_token_def)
    next
      case (Suc j)
      then show ?thesis using n(3) that t by (simp add: step)
    qed
    then show ?thesis using n(1,2) len by (intro exI [of _ "Suc n"]) (simp add: step)
  qed
qed

text \<open>
  C14: Lexing ends: from every source, after at most as many tokens as it has characters, the lexer
  returns the end-of-input token or an error, and every token before that moves the read position by at
  least one character and never past the terminator.
\<close>

theorem lexer_terminates:
  "\<exists>n\<le>length source. final (nth_token n (racs_parser_init source)) \<and>
     (\<forall>m<n. \<not> final (nth_token m (racs_parser_init source)) \<and>
       (\<exists>k>0. moved (after_tokens m (racs_parser_init source)) (after_tokens (Suc m) (racs_parser_init source)) k))"
  using tokens_end [of "racs_parser_init source"] by (simp add: racs_parser_init_def)

theorem lexer_terminates_witness: "\<exists>n\<le>6. final (nth_token n (racs_parser_init ''LIST |''))"
  using lexer_terminates [of "''LIST |''"] by (auto simp: numeral_eq_Suc)

section \<open>Reading printed tokens\<close>

text \<open>Words of a command line: names, plain strings, the pipe, integers, and decimal fractions.\<close>

datatype word_form = W_id string | W_str string | W_pipe | W_int int | W_float bool string string

definition int_text :: "int \<Rightarrow> string" where
  "int_text i = (if i < 0 then CHR ''-'' # nat_str (nat (- i)) else nat_str (nat i))"

fun word_text :: "word_form \<Rightarrow> string" where
  "word_text (W_id w) = w"
| "word_text (W_str s) = quote # s @ [quote]"
| "word_text W_pipe = ''|>''"
| "word_text (W_int i) = int_text i"
| "word_text (W_float neg ds fs) = (if neg then ''-'' else []) @ ds @ CHR ''.'' # fs"

definition id_char :: "char \<Rightarrow> bool" where
  "id_char c \<longleftrightarrow> is_alpha c \<or> is_digit c \<or> c = CHR ''_''"

fun word_ok :: "word_form \<Rightarrow> bool" where
  "word_ok (W_id w) = (w \<noteq> [] \<and> \<not> is_digit (hd w) \<and> list_all id_char w)"
| "word_ok (W_str s) = list_all (\<lambda>c. c \<noteq> quote \<and> c \<noteq> backslash) s"
| "word_ok W_pipe = True"
| "word_ok (W_int i) = (- (2 ^ 63) \<le> i \<and> i < 2 ^ 63)"
| "word_ok (W_float neg ds fs) = (list_all is_digit ds \<and> list_all is_digit fs \<and> ds \<noteq> [] \<and> fs \<noteq> [])"

fun word_token :: "word_form \<Rightarrow> racs_token" where
  "word_token (W_id w) = Tok_id w"
| "word_token (W_str s) = Tok_str s"
| "word_token W_pipe = Tok_pipe"
| "word_token (W_int i) = Tok_int (word_of_int i)"
| "word_token (W_float neg ds fs) =
     Tok_float (double ((if neg then - 1 else 1) * (of_nat (str_val (ds @ fs)) / 10 ^ length fs)))"

text \<open>A pattern whose words have a character that the text lacks is refused there.\<close>

lemma longest_lacks:
  assumes "drawn_from P r" "requires Q r" "\<forall>c\<in>set w. \<not> Q c" "u = [] \<or> \<not> P (hd u)"
  shows "longest r (w @ u) = None"
proof (rule longest_refused)
  fix v assume v: "prefix v (w @ u)"
  show "\<not> matches r v"
  proof
    assume m: "matches r v"
    have all: "\<forall>c\<in>set v. P c" by (rule drawn_from_matches [OF m assms(1)])
    have "prefix v w"
    proof (rule ccontr)
      assume "\<not> prefix v w"
      with v obtain x where x: "v = w @ x" "prefix x u" "x \<noteq> []" by (auto simp: prefix_append)
      then obtain y ys where "x = y # ys" "u \<noteq> []" "hd u = y" by (cases x) (auto simp: prefix_def)
      with x all assms(4) show False by auto
    qed
    then have "set v \<subseteq> set w" by (rule set_mono_prefix)
    with requires_matches [OF m assms(2)] assms(3) show False by auto
  qed
qed

lemma longest_within:
  assumes "matches r w" "drawn_from P r" "u = [] \<or> \<not> P (hd u)"
  shows "longest r (w @ u) = Some (length w)"
proof (rule longest_stop [OF assms(1)])
  show "u = [] \<or> (\<forall>v. \<not> matches r (w @ hd u # v))"
    using assms(3) drawn_from_matches [OF _ assms(2)] by (metis in_set_conv_decomp)
qed

definition number_char :: "char \<Rightarrow> bool" where
  "number_char c \<longleftrightarrow> is_digit c \<or> c \<in> set ''+-.:TZ''"

definition blank :: "string \<Rightarrow> bool" where
  "blank u \<longleftrightarrow> u = [] \<or> is_space (hd u)"

lemma space_class: "is_space c \<Longrightarrow> \<not> number_char c \<and> \<not> id_char c"
  by (auto simp: is_space_def number_char_def id_char_def is_digit_def is_alpha_def char_code_def)

lemma patterns_within:
  "drawn_from number_char (snd RACS_REGEX_TIME)" "drawn_from number_char (snd RACS_REGEX_FLOAT)"
  "drawn_from number_char (snd RACS_REGEX_INT)" "drawn_from id_char (snd RACS_REGEX_ID)"
  by (auto simp: RACS_REGEX_TIME_def RACS_REGEX_FLOAT_def RACS_REGEX_INT_def RACS_REGEX_ID_def number_char_def id_char_def
      numeral_eq_Suc)

lemma patterns_require:
  "requires (\<lambda>c. c = CHR ''T'') (snd RACS_REGEX_TIME)" "requires (\<lambda>c. c = CHR ''.'') (snd RACS_REGEX_FLOAT)"
  by (auto simp: RACS_REGEX_TIME_def RACS_REGEX_FLOAT_def numeral_eq_Suc)

lemma refused:
  assumes "blank u"
  shows "CHR ''T'' \<notin> set w \<Longrightarrow> racs_match_token (w @ u) RACS_REGEX_TIME = None"
    and "CHR ''.'' \<notin> set w \<Longrightarrow> racs_match_token (w @ u) RACS_REGEX_FLOAT = None"
proof -
  have u: "u = [] \<or> \<not> number_char (hd u)" using assms space_class by (auto simp: blank_def)
  have fst: "fst RACS_REGEX_TIME" "fst RACS_REGEX_FLOAT" by (simp_all add: RACS_REGEX_TIME_def RACS_REGEX_FLOAT_def)
  show "CHR ''T'' \<notin> set w \<Longrightarrow> racs_match_token (w @ u) RACS_REGEX_TIME = None"
    using longest_lacks [OF patterns_within(1) patterns_require(1) _ u, of w] fst by (auto simp: racs_match_token_def)
  show "CHR ''.'' \<notin> set w \<Longrightarrow> racs_match_token (w @ u) RACS_REGEX_FLOAT = None"
    using longest_lacks [OF patterns_within(2) patterns_require(2) _ u, of w] fst by (auto simp: racs_match_token_def)
qed

lemma accepted:
  assumes "blank u"
  shows "matches (snd RACS_REGEX_INT) w \<Longrightarrow> racs_match_token (w @ u) RACS_REGEX_INT = Some (0, length w)"
    and "matches (snd RACS_REGEX_FLOAT) w \<Longrightarrow> racs_match_token (w @ u) RACS_REGEX_FLOAT = Some (0, length w)"
    and "matches (snd RACS_REGEX_ID) w \<Longrightarrow> racs_match_token (w @ u) RACS_REGEX_ID = Some (0, length w)"
proof -
  have u: "u = [] \<or> \<not> number_char (hd u)" "u = [] \<or> \<not> id_char (hd u)" using assms space_class by (auto simp: blank_def)
  have fst: "fst RACS_REGEX_INT" "fst RACS_REGEX_FLOAT" "fst RACS_REGEX_ID"
    by (simp_all add: RACS_REGEX_INT_def RACS_REGEX_FLOAT_def RACS_REGEX_ID_def)
  show "matches (snd RACS_REGEX_INT) w \<Longrightarrow> racs_match_token (w @ u) RACS_REGEX_INT = Some (0, length w)"
    using longest_within [OF _ patterns_within(3) u(1), of w] fst by (simp add: racs_match_token_def)
  show "matches (snd RACS_REGEX_FLOAT) w \<Longrightarrow> racs_match_token (w @ u) RACS_REGEX_FLOAT = Some (0, length w)"
    using longest_within [OF _ patterns_within(2) u(1), of w] fst by (simp add: racs_match_token_def)
  show "matches (snd RACS_REGEX_ID) w \<Longrightarrow> racs_match_token (w @ u) RACS_REGEX_ID = Some (0, length w)"
    using longest_within [OF _ patterns_within(4) u(2), of w] fst by (simp add: racs_match_token_def)
qed

lemma match_sign: "matches r w \<Longrightarrow> matches (Seq sign r) (CHR ''-'' # w)"
  using m_Seq [of sign "''-''" r w] by simp

lemma match_digits: "w \<noteq> [] \<Longrightarrow> list_all is_digit w \<Longrightarrow> matches (Seq sign (plus digit)) w"
  using m_Seq [of sign "[]" "plus digit" w] matches_plus_Cls [of is_digit w] by (simp add: list_all_iff)

lemma match_fraction:
  assumes "ds \<noteq> []" "fs \<noteq> []" "list_all is_digit ds" "list_all is_digit fs"
  shows "matches (snd RACS_REGEX_FLOAT) ((if neg then ''-'' else []) @ ds @ CHR ''.'' # fs)"
proof -
  have "matches (Seq (Star digit) (Seq (chr CHR ''.'') (plus digit))) (ds @ [CHR ''.''] @ fs)"
    using assms by (intro m_Seq) (simp_all add: matches_Star_Cls matches_plus_Cls list_all_iff)
  then have "matches (Alt (Seq (Star digit) (Seq (chr CHR ''.'') (plus digit)))
      (Seq (plus digit) (Seq (chr CHR ''.'') (Star digit)))) (ds @ CHR ''.'' # fs)" by simp
  moreover have "matches sign (if neg then ''-'' else [])" by simp
  ultimately show ?thesis unfolding RACS_REGEX_FLOAT_def snd_conv by (rule m_Seq [rotated])
qed

text \<open>A plain string ends at the next quote.\<close>

lemma match_quoted:
  assumes "list_all (\<lambda>c. c \<noteq> quote \<and> c \<noteq> backslash) s"
  shows "matches (snd RACS_REGEX_STR) (quote # s @ [quote])"
    "\<not> matches (snd RACS_REGEX_STR) ((quote # s @ [quote]) @ c # v)"
proof -
  let ?esc = "Seq (chr backslash) (Seq (chr quote) (Star plain))"
  have "matches (Seq (Star plain) (Star ?esc)) (s @ [])"
    using assms by (intro m_Seq m_Nil) (simp add: matches_Star_Cls list_all_iff)
  then have "matches (Seq (Seq (Star plain) (Star ?esc)) (chr quote)) (s @ [quote])"
    using m_Seq [of "Seq (Star plain) (Star ?esc)" s "chr quote" "[quote]"] by simp
  then have "matches (snd RACS_REGEX_STR) ([quote] @ (s @ [quote]))"
    unfolding RACS_REGEX_STR_def snd_conv by (rule m_Seq [rotated]) simp
  then show "matches (snd RACS_REGEX_STR) (quote # s @ [quote])" by simp
  show "\<not> matches (snd RACS_REGEX_STR) ((quote # s @ [quote]) @ c # v)"
  proof
    assume "matches (snd RACS_REGEX_STR) ((quote # s @ [quote]) @ c # v)"
    then obtain t where t: "matches (Seq (Star plain) (Star ?esc)) t" "s @ quote # c # v = t @ [quote]"
      unfolding RACS_REGEX_STR_def snd_conv by (auto simp: matches_Seq [of "chr _"] matches_Seq [of "Seq _ _" "chr _"])
    then obtain t1 t2 where t12: "t = t1 @ t2" "\<forall>c\<in>set t1. c \<noteq> quote \<and> c \<noteq> backslash" "matches (Star ?esc) t2"
      by (auto simp: matches_Seq [of "Star _"] matches_Star_Cls)
    have drop: "dropWhile (\<lambda>c. c \<noteq> quote \<and> c \<noteq> backslash) (s @ quote # c # v) = quote # c # v"
      using assms by (simp add: dropWhile_append2 list_all_iff)
    show False
    proof (cases t2)
      case Nil
      then have "dropWhile (\<lambda>c. c \<noteq> quote \<and> c \<noteq> backslash) (t @ [quote]) = [quote]"
        using t12 by (simp add: dropWhile_append2)
      with drop t(2) show False by simp
    next
      case (Cons x xs)
      with t12(3) have "x = backslash" by (auto simp: matches_Star_Cons matches_Seq_Cons)
      then have "dropWhile (\<lambda>c. c \<noteq> quote \<and> c \<noteq> backslash) (t @ [quote]) = backslash # xs @ [quote]"
        using t12 Cons by (simp add: dropWhile_append2)
      with drop t(2) show False by simp
    qed
  qed
qed

lemma leftmost_front: "longest r s = Some n \<Longrightarrow> leftmost r s 0 = Some (0, n)"
  by (simp add: leftmost.simps)

lemma accepted_str:
  assumes "list_all (\<lambda>c. c \<noteq> quote \<and> c \<noteq> backslash) s"
  shows "racs_match_token ((quote # s @ [quote]) @ u) RACS_REGEX_STR = Some (0, length s + 2)"
proof -
  have "longest (snd RACS_REGEX_STR) ((quote # s @ [quote]) @ u) = Some (length (quote # s @ [quote]))"
    using match_quoted [OF assms] by (intro longest_stop) auto
  from leftmost_front [OF this] show ?thesis by (simp add: racs_match_token_def RACS_REGEX_STR_def)
qed

lemma accepted_pipe: "racs_match_token (''|>'' @ u) RACS_REGEX_PIPE = Some (0, 2)"
proof -
  have "matches (snd RACS_REGEX_PIPE) (''|'' @ ''>'')" unfolding RACS_REGEX_PIPE_def snd_conv by (rule m_Seq) simp_all
  moreover have "\<not> matches (snd RACS_REGEX_PIPE) (''|>'' @ c # v)" for c v
    by (auto simp: RACS_REGEX_PIPE_def matches_Seq Cons_eq_append_conv)
  ultimately have "longest (snd RACS_REGEX_PIPE) (''|>'' @ u) = Some (length ''|>'')" by (intro longest_stop) auto
  from leftmost_front [OF this] show ?thesis by (simp add: racs_match_token_def RACS_REGEX_PIPE_def)
qed

lemma strtoull_minus:
  assumes "\<forall>c\<in>set ds. is_digit c" "ds \<noteq> []" "str_val ds < 2 ^ 64"
  shows "strtoull (CHR ''-'' # ds) = (- of_nat (str_val ds), [])"
proof -
  have d: "takeWhile is_digit ds = ds" "dropWhile is_digit ds = []" "\<not> is_space CHR ''-''"
    using assms(1) by (auto simp: is_space_def char_code_def)
  show ?thesis using assms(2,3) by (simp add: strtoull_def Let_def d)
qed

lemma not_digits: "\<not> is_digit CHR ''T''" "\<not> is_digit CHR ''.''"
  by (simp_all add: is_digit_def char_code_def)

lemma ps_upd_swap: "p\<lparr>ps_curr := n, ps_ptr := s\<rparr> = p\<lparr>ps_ptr := s, ps_curr := n\<rparr>"
  by simp

text \<open>One word, followed by the end of the source or a space.\<close>

lemma lex_word:
  assumes "word_ok w" "blank u"
  shows "lex_first (lex_rules (hd (word_text w))) (p\<lparr>ps_ptr := word_text w @ u\<rparr>) =
    (word_token w, p\<lparr>ps_ptr := u, ps_curr := ps_curr p + int (length (word_text w))\<rparr>)"
proof (cases w)
  case (W_id x)
  then obtain c cs where x: "x = c # cs" "id_char c" "\<not> is_digit c" "list_all id_char cs" using assms(1) by (cases x) auto
  have al: "is_alpha c \<or> c = CHR ''_''" using x(2,3) by (simp add: id_char_def)
  then have nc: "c \<noteq> CHR ''+''" "c \<noteq> CHR ''-''" "c \<noteq> CHR ''.''" "c \<noteq> quote" "c \<noteq> CHR ''|''"
    by (auto simp: is_alpha_def char_code_def)
  have "matches (snd RACS_REGEX_ID) ([c] @ cs)"
    unfolding RACS_REGEX_ID_def snd_conv using al x(4)
    by (intro m_Seq) (auto simp: matches_Star_Cls list_all_iff id_char_def)
  then have "racs_match_token (x @ u) RACS_REGEX_ID = Some (0, length x)" using accepted(3) [OF assms(2), of x] x(1) by simp
  then show ?thesis
    using al nc x(1,3) W_id by (simp add: lex_rules_def racs_parser_lex_token_id_def racs_parser_advance_def)
next
  case (W_str s)
  then have "racs_match_token (word_text w @ u) RACS_REGEX_STR = Some (0, length s + 2)"
    using accepted_str [of s u] assms(1) by simp
  then show ?thesis
    using W_str
    by (simp add: lex_rules_def is_digit_def char_code_def racs_parser_lex_token_str_def racs_parser_advance_def Let_def)
next
  case W_pipe
  then show ?thesis
    using accepted_pipe [of u]
    by (simp add: lex_rules_def is_digit_def char_code_def racs_parser_lex_token_pipe_def racs_parser_advance_def)
next
  case (W_int i)
  let ?ds = "nat_str (nat \<bar>i\<bar>)"
  have ds: "list_all is_digit ?ds" "?ds \<noteq> []" using nat_str_digits by (auto simp: list_all_iff)
  have tx: "int_text i = (if i < 0 then CHR ''-'' # ?ds else ?ds)" by (simp add: int_text_def)
  have lacks: "CHR ''T'' \<notin> set (int_text i)" "CHR ''.'' \<notin> set (int_text i)"
    using ds not_digits by (auto simp: tx list_all_iff)
  have pos: "matches (Seq sign (plus digit)) ?ds" by (rule match_digits [OF ds(2,1)])
  have "matches (plus digit) ?ds" unfolding matches_plus_Cls using ds by (simp add: list_all_iff)
  then have neg: "matches (Seq sign (plus digit)) (CHR ''-'' # ?ds)" by (rule match_sign)
  have "matches (snd RACS_REGEX_INT) (int_text i)"
    unfolding tx RACS_REGEX_INT_def snd_conv by (cases "i < 0") (simp_all only: if_True if_False pos neg)
  then have m: "racs_match_token (int_text i @ u) RACS_REGEX_INT = Some (0, length (int_text i))"
    by (rule accepted(1) [OF assms(2)])
  have m': "racs_match_token (int_text i @ u) RACS_REGEX_TIME = None" "racs_match_token (int_text i @ u) RACS_REGEX_FLOAT = None"
    using refused [OF assms(2)] lacks by auto
  have abs: "nat \<bar>i\<bar> \<le> 2 ^ 63" "\<not> 2 ^ 64 \<le> nat \<bar>i\<bar>" using assms(1) W_int by auto
  have dg: "is_digit (hd ?ds)" "hd ?ds \<noteq> CHR ''+''" "hd ?ds \<noteq> CHR ''-''" using ds digit_not_sign by (cases ?ds; auto)+
  have val: "fst (strtoull (int_text i)) = word_of_int i"
  proof (cases "i < 0")
    case True
    have "fst (strtoull (CHR ''-'' # ?ds)) = - of_nat (nat \<bar>i\<bar>)"
      using strtoull_minus [of ?ds] ds abs by (simp add: list_all_iff)
    also have "\<dots> = word_of_int i" using True by (simp add: of_nat_nat)
    finally show ?thesis using True by (simp only: tx if_True)
  next
    case False
    have "fst (strtoull (?ds @ [])) = of_nat (nat \<bar>i\<bar>)"
      using strtoull_digits [of ?ds "[]"] ds abs by (simp add: list_all_iff)
    also have "\<dots> = word_of_int i" using False by (simp add: of_nat_nat)
    finally show ?thesis using False by (simp only: tx if_False append_Nil2)
  qed
  have hd: "hd (int_text i) = (if i < 0 then CHR ''-'' else hd ?ds)" using ds(2) by (simp add: tx)
  have wt: "word_text w = int_text i" "word_token w = Tok_int (fst (strtoull (int_text i)))" using W_int val by simp_all
  show ?thesis
    unfolding wt hd using dg
    by (cases "i < 0") (simp_all add: lex_rules_def racs_parser_lex_token_int64_def racs_parser_advance_def Let_def m m')
next
  case (W_float neg ds fs)
  let ?t = "(if neg then ''-'' else []) @ ds @ CHR ''.'' # fs"
  have d: "list_all is_digit ds" "list_all is_digit fs" "ds \<noteq> []" "fs \<noteq> []" using assms(1) W_float by auto
  have lacks: "CHR ''T'' \<notin> set ?t" using d by (auto simp: list_all_iff is_digit_def char_code_def)
  note m = accepted(2) [OF assms(2) match_fraction [OF d(3,4,1,2), of neg]] refused(1) [OF assms(2) lacks]
  have dg: "is_digit (hd ds)" "hd ds \<noteq> CHR ''+''" "hd ds \<noteq> CHR ''-''" using d digit_not_sign by (cases ds; auto)+
  have dot: "\<not> is_digit CHR ''.''" by (simp add: is_digit_def char_code_def)
  have tw: "takeWhile is_digit (ds @ CHR ''.'' # fs) = ds" "dropWhile is_digit (ds @ CHR ''.'' # fs) = CHR ''.'' # fs"
    "takeWhile is_digit fs = fs"
    using d(1,2) dot by (auto simp: list_all_iff takeWhile_append2 dropWhile_append2)
  have val: "atof ?t = double ((if neg then - 1 else 1) * (of_nat (str_val (ds @ fs)) / 10 ^ length fs))"
    using dg d(3) by (simp add: atof_def Let_def tw)
  have hd: "hd ?t = (if neg then CHR ''-'' else hd ds)" using d(3) by simp
  have tx: "word_text w = ?t" using W_float by simp
  have tok: "word_token w = Tok_float (atof ?t)" using W_float val by simp
  show ?thesis
    unfolding tx tok hd using m dg
    by (cases neg) (simp_all add: lex_rules_def racs_parser_lex_token_float64_def racs_parser_advance_def Let_def)
qed

lemma word_head:
  assumes "word_ok w"
  obtains c cs where "word_text w = c # cs" "\<not> is_space c"
proof (cases w)
  case (W_id x)
  then show ?thesis using assms that space_class by (cases x) auto
next
  case (W_int i)
  obtain c cs where "nat_str (nat i) = c # cs" by (cases "nat_str (nat i)") auto
  moreover from this have "\<not> is_space c" using nat_str_digits [of c "nat i"] digit_not_space by simp
  moreover have "\<not> is_space CHR ''-''" by (simp add: is_space_def char_code_def)
  ultimately show ?thesis using that W_int by (cases "i < 0") (auto simp: int_text_def)
next
  case (W_float neg ds fs)
  then show ?thesis
    using assms that digit_not_space by (cases ds; cases neg) (auto simp: is_space_def char_code_def)
qed (use that in \<open>auto simp: is_space_def char_code_def\<close>)

text \<open>Words with spaces between them.\<close>

fun line_text :: "word_form list \<Rightarrow> string" where
  "line_text [] = []"
| "line_text [w] = word_text w"
| "line_text (w # ws) = word_text w @ CHR '' '' # line_text ws"

lemma next_token_word:
  assumes "word_ok w" "ps_ptr p = line_text (w # ws) \<or> ps_ptr p = CHR '' '' # line_text (w # ws)"
  shows "\<exists>p'. racs_parser_next_token p = (word_token w, p') \<and> ps_error p' = ps_error p \<and>
    ps_ptr p' = (if ws = [] then [] else CHR '' '' # line_text ws)"
proof -
  let ?u = "if ws = [] then [] else CHR '' '' # line_text ws"
  have u: "blank ?u" by (simp add: blank_def is_space_def char_code_def)
  have line: "line_text (w # ws) = word_text w @ ?u" by (cases ws) simp_all
  obtain c cs where c: "word_text w = c # cs" "\<not> is_space c" using word_head [OF assms(1)] .
  have sp: "is_space CHR '' ''" by (simp add: is_space_def char_code_def)
  have "skip_space (ps_ptr p) (ps_curr p) = (word_text w @ ?u, ps_curr p + (if ps_ptr p = line_text (w # ws) then 0 else 1))"
    using assms(2) c sp by (auto simp: line)
  then obtain n where sk: "skip_space (ps_ptr p) (ps_curr p) = (word_text w @ ?u, n)" by simp
  let ?q = "p\<lparr>ps_ptr := ?u, ps_curr := n + int (length (word_text w))\<rparr>"
  have "racs_parser_next_token p = lex_first (lex_rules c) (p\<lparr>ps_ptr := word_text w @ ?u, ps_curr := n\<rparr>)"
    unfolding racs_parser_next_token_def sk Let_def prod.case c(1) append_Cons list.case ..
  also have "\<dots> = (word_token w, ?q)"
    using lex_word [OF assms(1) u, of "p\<lparr>ps_curr := n\<rparr>"] unfolding c(1) list.sel(1) ps_upd_swap
    by (simp del: if_split)
  finally have "racs_parser_next_token p = (word_token w, ?q)" .
  then show ?thesis by simp
qed

lemma next_token_end: "ps_ptr p = [] \<Longrightarrow> racs_parser_next_token p = (Tok_eof, p)"
  by (simp add: racs_parser_next_token_def Let_def)

end
