(* ===== verification/Bytes.thy ===== *)
theory Bytes
  imports Racs_Prelude
begin

text \<open>
  The byte-level accessors of \<^verbatim>\<open>src/src/bytes.h\<close>. A buffer is a list of bytes; \<open>memcpy\<close> into or
  out of it is undefined (\<open>None\<close>) when it leaves the buffer. The locale \<open>scalar_codec\<close> states what
  the serialisers above rely on (a fixed width and a two-sided inverse) and is interpreted on the
  16-, 32- and 64-bit accessors.
\<close>

section \<open>Little-endian representation\<close>

definition le_bytes :: "nat \<Rightarrow> 'a::len word \<Rightarrow> bytes" where
  "le_bytes n w = map (\<lambda>i. ucast (drop_bit (8 * i) w)) [0..<n]"

fun of_le_bytes :: "bytes \<Rightarrow> 'a::len word" where
  "of_le_bytes [] = 0"
| "of_le_bytes (b # bs) = ucast b OR push_bit 8 (of_le_bytes bs)"

section \<open>Accessors\<close>

definition racs_write_bin :: "bytes \<Rightarrow> bytes \<Rightarrow> int \<Rightarrow> nat \<Rightarrow> (bytes \<times> nat) option" where
  "racs_write_bin buf data sz offset =
     (if 0 \<le> sz \<and> nat sz \<le> length data \<and> offset + nat sz \<le> length buf
      then Some (patch offset (take (nat sz) data) buf, offset + nat sz)
      else None)"

definition racs_write_uint64 :: "bytes \<Rightarrow> racs_uint64 \<Rightarrow> nat \<Rightarrow> (bytes \<times> nat) option" where
  "racs_write_uint64 buf d offset = racs_write_bin buf (le_bytes 8 d) 8 offset"

definition racs_write_uint32 :: "bytes \<Rightarrow> racs_uint32 \<Rightarrow> nat \<Rightarrow> (bytes \<times> nat) option" where
  "racs_write_uint32 buf d offset = racs_write_bin buf (le_bytes 4 d) 4 offset"

definition racs_write_uint16 :: "bytes \<Rightarrow> racs_uint16 \<Rightarrow> nat \<Rightarrow> (bytes \<times> nat) option" where
  "racs_write_uint16 buf d offset = racs_write_bin buf (le_bytes 2 d) 2 offset"

definition racs_read_uint64 :: "bytes \<Rightarrow> nat \<Rightarrow> (racs_uint64 \<times> nat) option" where
  "racs_read_uint64 buf offset =
     (if offset + 8 \<le> length buf then Some (of_le_bytes (slice offset 8 buf), offset + 8) else None)"

definition racs_read_uint32 :: "bytes \<Rightarrow> nat \<Rightarrow> (racs_uint32 \<times> nat) option" where
  "racs_read_uint32 buf offset =
     (if offset + 4 \<le> length buf then Some (of_le_bytes (slice offset 4 buf), offset + 4) else None)"

definition racs_read_uint16 :: "bytes \<Rightarrow> nat \<Rightarrow> (racs_uint16 \<times> nat) option" where
  "racs_read_uint16 buf offset =
     (if offset + 2 \<le> length buf then Some (of_le_bytes (slice offset 2 buf), offset + 2) else None)"

text \<open>\<open>buf[offset]\<close> and \<open>memcpy (dst, buf + offset, n)\<close>, the two other accesses the sources use.\<close>

definition read_byte :: "bytes \<Rightarrow> nat \<Rightarrow> racs_uint8 option" where
  "read_byte buf offset = (if offset < length buf then Some (buf ! offset) else None)"

definition read_bin :: "bytes \<Rightarrow> nat \<Rightarrow> nat \<Rightarrow> bytes option" where
  "read_bin buf offset n = (if offset + n \<le> length buf then Some (slice offset n buf) else None)"

section \<open>Round trips of the representation\<close>

lemma length_le_bytes [simp]: "length (le_bytes n w) = n"
  by (simp add: le_bytes_def)

lemma bit_of_le_bytes:
  "bit (of_le_bytes bs :: 'a::len word) i \<longleftrightarrow>
     i < LENGTH('a) \<and> i div 8 < length bs \<and> bit (bs ! (i div 8)) (i mod 8)"
proof (induction bs arbitrary: i)
  case Nil
  then show ?case by simp
next
  case (Cons b bs)
  show ?case
  proof (cases "i < 8")
    case True
    then show ?thesis
      by (auto simp: bit_or_iff bit_push_bit_iff bit_ucast_iff)
  next
    case False
    then have "i div 8 = Suc ((i - 8) div 8)" "i mod 8 = (i - 8) mod 8"
      by (simp_all add: le_div_geq le_mod_geq)
    with False Cons.IH [of "i - 8"] show ?thesis
      by (auto simp: bit_or_iff bit_push_bit_iff bit_ucast_iff dest: bit_imp_le_length)
  qed
qed

lemma of_le_bytes_le_bytes [simp]:
  assumes "LENGTH('a) = 8 * n"
  shows "of_le_bytes (le_bytes n (w :: 'a::len word)) = w"
proof (rule bit_eqI)
  fix i
  assume "possible_bit TYPE('a word) i"
  then have i: "i < LENGTH('a)" by simp
  then have "i div 8 < n" using assms by auto
  with i show "bit (of_le_bytes (le_bytes n w) :: 'a word) i = bit w i"
    by (simp add: bit_of_le_bytes le_bytes_def bit_ucast_iff bit_drop_bit_eq)
qed

lemma le_bytes_of_le_bytes [simp]:
  assumes "LENGTH('a) = 8 * n" "length bs = n"
  shows "le_bytes n (of_le_bytes bs :: 'a::len word) = bs"
proof (rule nth_equalityI)
  show "length (le_bytes n (of_le_bytes bs :: 'a word)) = length bs"
    using assms by simp
next
  fix i
  assume "i < length (le_bytes n (of_le_bytes bs :: 'a word))"
  then have i: "i < n" by simp
  show "le_bytes n (of_le_bytes bs :: 'a word) ! i = bs ! i"
  proof (rule bit_eqI)
    fix j
    assume "possible_bit TYPE(8 word) j"
    then have "j < 8" by simp
    with i assms show "bit (le_bytes n (of_le_bytes bs :: 'a word) ! i) j = bit (bs ! i) j"
      by (auto simp: le_bytes_def bit_ucast_iff bit_drop_bit_eq bit_of_le_bytes)
  qed
qed

section \<open>The accessor interface\<close>

locale scalar_codec =
  fixes enc :: "'w \<Rightarrow> bytes"
    and dec :: "bytes \<Rightarrow> 'w"
    and width :: nat
    and wr :: "bytes \<Rightarrow> 'w \<Rightarrow> nat \<Rightarrow> (bytes \<times> nat) option"
    and rd :: "bytes \<Rightarrow> nat \<Rightarrow> ('w \<times> nat) option"
  assumes enc_length: "length (enc w) = width"
    and dec_enc: "dec (enc w) = w"
    and enc_dec: "length bs = width \<Longrightarrow> enc (dec bs) = bs"
    and write_eq: "wr buf w off =
      (if off + width \<le> length buf then Some (patch off (enc w) buf, off + width) else None)"
    and read_eq: "rd buf off =
      (if off + width \<le> length buf then Some (dec (slice off width buf), off + width) else None)"
begin

lemma write_Some:
  "off + width \<le> length buf \<Longrightarrow> wr buf w off = Some (patch off (enc w) buf, off + width)"
  by (simp add: write_eq)

lemma read_append: "off = length p \<Longrightarrow> rd (p @ enc w @ q) off = Some (w, off + width)"
  by (simp add: read_eq enc_length dec_enc)

lemma read_append_last: "off = length p \<Longrightarrow> rd (p @ enc w) off = Some (w, off + width)"
  by (simp add: read_eq enc_length dec_enc)

lemma read_front: "rd (enc w @ q) 0 = Some (w, width)"
  using read_append [of 0 "[]"] by simp

lemma read_write_same:
  "wr buf w off = Some (buf', off') \<Longrightarrow> rd buf' off = Some (w, off')"
  by (auto simp: write_eq read_eq enc_length dec_enc split: if_splits)

lemma read_write_disjoint:
  "wr buf w off = Some (buf', off') \<Longrightarrow> o' + width \<le> off \<or> off' \<le> o' \<Longrightarrow>
   rd buf' o' = rd buf o'"
  by (auto simp: write_eq read_eq enc_length slice_patch_disjoint split: if_splits)

lemma write_read_id:
  "rd buf off = Some (w, off') \<Longrightarrow> wr buf w off = Some (buf, off')"
  by (auto simp: write_eq read_eq enc_dec patch_def slice_def split: if_splits)
     (metis add.commute append_take_drop_id drop_drop)

end

lemma racs_write_bin_full:
  "racs_write_bin buf d (int (length d)) off =
     (if off + length d \<le> length buf then Some (patch off d buf, off + length d) else None)"
  by (simp add: racs_write_bin_def)

interpretation u64: scalar_codec "le_bytes 8" of_le_bytes 8 racs_write_uint64 racs_read_uint64
  by unfold_locales
     (simp_all add: racs_write_uint64_def racs_read_uint64_def racs_write_bin_def)

interpretation u32: scalar_codec "le_bytes 4" of_le_bytes 4 racs_write_uint32 racs_read_uint32
  by unfold_locales
     (simp_all add: racs_write_uint32_def racs_read_uint32_def racs_write_bin_def)

interpretation u16: scalar_codec "le_bytes 2" of_le_bytes 2 racs_write_uint16 racs_read_uint16
  by unfold_locales
     (simp_all add: racs_write_uint16_def racs_read_uint16_def racs_write_bin_def)

lemmas scalar_reads [codec_simps] =
  u64.read_append u64.read_append_last u64.read_front
  u32.read_append u32.read_append_last u32.read_front
  u16.read_append u16.read_append_last u16.read_front

lemmas scalar_writes [codec_simps] = u64.write_Some u32.write_Some u16.write_Some

lemma read_bin_append [codec_simps]:
  "off = length p \<Longrightarrow> n = length d \<Longrightarrow> read_bin (p @ d @ q) off n = Some d"
  by (simp add: read_bin_def)

lemma read_bin_append_last [codec_simps]:
  "off = length p \<Longrightarrow> n = length d \<Longrightarrow> read_bin (p @ d) off n = Some d"
  by (simp add: read_bin_def)

lemma read_byte_append [codec_simps]:
  "off = length p \<Longrightarrow> read_byte (p @ b # q) off = Some b"
  by (simp add: read_byte_def)


section \<open>Sequential writing\<close>

text \<open>
  A buffer of which \<open>p\<close> has been written and \<open>r\<close> is left. Unlike \<open>p @ r\<close> it does not lose the boundary
  when the simplifier reassociates, so a chain of writes evaluates by simplification.
\<close>

definition filled :: "bytes \<Rightarrow> bytes \<Rightarrow> bytes" where
  "filled p r = p @ r"

lemma filled_start: "buf = filled [] buf"
  by (simp add: filled_def)

lemma filled_write [codec_simps]:
  assumes "off = length p"
  shows "8 \<le> length r \<Longrightarrow> racs_write_uint64 (filled p r) w8 off = Some (filled (p @ le_bytes 8 w8) (drop 8 r), off + 8)"
    and "4 \<le> length r \<Longrightarrow> racs_write_uint32 (filled p r) w4 off = Some (filled (p @ le_bytes 4 w4) (drop 4 r), off + 4)"
    and "2 \<le> length r \<Longrightarrow> racs_write_uint16 (filled p r) w2 off = Some (filled (p @ le_bytes 2 w2) (drop 2 r), off + 2)"
    and "n = int (length d) \<Longrightarrow> length d \<le> length r \<Longrightarrow>
      racs_write_bin (filled p r) d n off = Some (filled (p @ d) (drop (length d) r), off + length d)"
  using assms
  by (simp_all add: u64.write_eq u32.write_eq u16.write_eq racs_write_bin_full patch_def filled_def)

end
