(* ===== verification/Crc32c.thy ===== *)
theory Crc32c
  imports Bytes
begin

text \<open>
  CRC-32C as computed by \<^verbatim>\<open>src/src/crc32c.c\<close>: the table-driven software routine for a
  little-endian machine and the routine that drives the SSE 4.2 \<open>crc32\<close> instruction on three
  interleaved blocks. The reference is the bit-serial definition of the code (\<open>crc_bytes\<close>); both
  routines are shown to compute it for every starting address of the buffer, so the checksum that
  a frame carries does not depend on where the frame lies in memory nor on the processor.
\<close>

section \<open>The bit-serial reference\<close>

definition POLY :: racs_uint32 where "POLY = 0x82f63b78"

text \<open>One bit of the division: \<open>crc & 1 ? (crc >> 1) ^ POLY : crc >> 1\<close>.\<close>

definition crc_bit :: "racs_uint32 \<Rightarrow> racs_uint32" where
  "crc_bit crc = (if bit crc 0 then drop_bit 1 crc XOR POLY else drop_bit 1 crc)"

definition zero_bytes :: "nat \<Rightarrow> racs_uint32 \<Rightarrow> racs_uint32" where
  "zero_bytes n = crc_bit ^^ (8 * n)"

definition crc_byte :: "racs_uint32 \<Rightarrow> racs_uint8 \<Rightarrow> racs_uint32" where
  "crc_byte crc b = zero_bytes 1 (crc XOR ucast b)"

definition crc_bytes :: "racs_uint32 \<Rightarrow> bytes \<Rightarrow> racs_uint32" where
  "crc_bytes = foldl crc_byte"

section \<open>The software routine\<close>

definition crc32c_table0 :: "racs_uint32 list" where
  "crc32c_table0 = map (\<lambda>n. (crc_bit ^^ 8) (of_nat n)) [0..<256]"

text \<open>Row \<open>k\<close> of the table at column \<open>n\<close>, as the second loop of the initialiser computes it.\<close>

primrec crc32c_table_col :: "nat \<Rightarrow> nat \<Rightarrow> racs_uint32" where
  "crc32c_table_col n 0 = crc32c_table0 ! n"
| "crc32c_table_col n (Suc k) =
     (let crc = crc32c_table_col n k
      in crc32c_table0 ! unat (crc AND 0xff) XOR drop_bit 8 crc)"

definition crc32c_table_little :: "racs_uint32 list list" where
  "crc32c_table_little = map (\<lambda>k. map (\<lambda>n. crc32c_table_col n k) [0..<256]) [0..<8]"

definition sw_byte :: "racs_uint32 \<Rightarrow> racs_uint8 \<Rightarrow> racs_uint32" where
  "sw_byte crc b =
     crc32c_table_little ! 0 ! unat ((crc XOR ucast b) AND 0xff) XOR drop_bit 8 crc"

text \<open>The column index \<open>(crcw >> 8 * i) & 0xff\<close> of the sliced step.\<close>

definition crcw_index :: "racs_uint64 \<Rightarrow> nat \<Rightarrow> nat" where
  "crcw_index crcw i = unat (drop_bit (8 * i) crcw AND 0xff)"

definition sw_word :: "racs_uint64 \<Rightarrow> bytes \<Rightarrow> racs_uint64" where
  "sw_word crcw bs =
     (let crcw = crcw XOR of_le_bytes bs in
      ucast (crc32c_table_little ! 7 ! crcw_index crcw 0 XOR
             crc32c_table_little ! 6 ! crcw_index crcw 1 XOR
             crc32c_table_little ! 5 ! crcw_index crcw 2 XOR
             crc32c_table_little ! 4 ! crcw_index crcw 3 XOR
             crc32c_table_little ! 3 ! crcw_index crcw 4 XOR
             crc32c_table_little ! 2 ! crcw_index crcw 5 XOR
             crc32c_table_little ! 1 ! crcw_index crcw 6 XOR
             crc32c_table_little ! 0 ! unat (drop_bit 56 crcw)))"

text \<open>
  The loop over the unaligned leading bytes, common to both routines: \<open>addr\<close> is the address that
  the buffer pointer holds.
\<close>

fun leading :: "('c \<Rightarrow> racs_uint8 \<Rightarrow> 'c) \<Rightarrow> 'c \<Rightarrow> nat \<Rightarrow> bytes \<Rightarrow> 'c \<times> bytes" where
  "leading step c addr [] = (c, [])"
| "leading step c addr (b # bs) =
     (if addr mod 8 \<noteq> 0 then leading step (step c b) (Suc addr) bs else (c, b # bs))"

function sw_words :: "racs_uint64 \<Rightarrow> bytes \<Rightarrow> racs_uint64 \<times> bytes" where
  "sw_words crcw bs =
     (if 8 \<le> length bs then sw_words (sw_word crcw (take 8 bs)) (drop 8 bs) else (crcw, bs))"
  by pat_completeness auto
termination
  by (relation "measure (\<lambda>(c, bs). length bs)") auto

declare sw_words.simps [simp del]

definition crc32c_sw_little :: "racs_uint32 \<Rightarrow> nat \<Rightarrow> bytes \<Rightarrow> racs_uint32" where
  "crc32c_sw_little crc addr buf =
     (let (crc, next) = leading sw_byte (NOT crc) addr buf;
          (crc, next) = (if 8 \<le> length next
             then (let (crcw, rest) = sw_words (ucast crc) next in (ucast crcw, rest))
             else (crc, next))
      in NOT (foldl sw_byte crc next))"

section \<open>The hardware routine\<close>

text \<open>
  The two forms of the \<open>crc32\<close> instruction that the routine uses: on a byte and on a quadword,
  with a 64-bit destination register whose upper half the instruction clears.
\<close>

definition crc32b :: "racs_uint64 \<Rightarrow> racs_uint8 \<Rightarrow> racs_uint64" where
  "crc32b crc b = ucast (crc_byte (ucast crc) b)"

definition crc32q :: "racs_uint64 \<Rightarrow> bytes \<Rightarrow> racs_uint64" where
  "crc32q crc q = ucast (crc_bytes (ucast crc) q)"

text \<open>
  A matrix over GF(2) is the list of its 32 rows; a 32-bit vector has no bit left when the rows
  are used up.
\<close>

fun gf2_loop :: "racs_uint32 list \<Rightarrow> racs_uint32 \<Rightarrow> racs_uint32 \<Rightarrow> racs_uint32" where
  "gf2_loop [] vec acc = acc"
| "gf2_loop (row # mat) vec acc =
     (if vec = 0 then acc
      else gf2_loop mat (drop_bit 1 vec) (if bit vec 0 then acc XOR row else acc))"

definition gf2_matrix_times :: "racs_uint32 list \<Rightarrow> racs_uint32 \<Rightarrow> racs_uint32" where
  "gf2_matrix_times mat vec = gf2_loop mat vec 0"

definition gf2_matrix_square :: "racs_uint32 list \<Rightarrow> racs_uint32 list" where
  "gf2_matrix_square mat = map (\<lambda>n. gf2_matrix_times mat (mat ! n)) [0..<32]"

function zeros_loop :: "racs_uint32 list \<Rightarrow> nat \<Rightarrow> racs_uint32 list" where
  "zeros_loop odds len =
     (let evens = gf2_matrix_square odds; len1 = len div 2 in
      if len1 = 0 then evens
      else let odds = gf2_matrix_square evens; len2 = len1 div 2 in
           if len2 = 0 then odds else zeros_loop odds len2)"
  by pat_completeness auto
termination
  by (relation "measure (\<lambda>(odds, len). len)") (auto simp: div_less_dividend)

declare zeros_loop.simps [simp del]

definition one_zero_bit :: "racs_uint32 list" where
  "one_zero_bit = POLY # map (\<lambda>n. push_bit n 1) [0..<31]"

definition crc32c_zeros_op :: "nat \<Rightarrow> racs_uint32 list" where
  "crc32c_zeros_op len = zeros_loop (gf2_matrix_square (gf2_matrix_square one_zero_bit)) len"

definition crc32c_zeros :: "nat \<Rightarrow> racs_uint32 list list" where
  "crc32c_zeros len =
     (let op = crc32c_zeros_op len in
      map (\<lambda>j. map (\<lambda>n. gf2_matrix_times op (push_bit (8 * j) (of_nat n))) [0..<256]) [0..<4])"

definition crc32c_shift :: "racs_uint32 list list \<Rightarrow> racs_uint32 \<Rightarrow> racs_uint32" where
  "crc32c_shift zeros crc =
     zeros ! 0 ! unat (crc AND 0xff) XOR zeros ! 1 ! unat (drop_bit 8 crc AND 0xff) XOR
     zeros ! 2 ! unat (drop_bit 16 crc AND 0xff) XOR zeros ! 3 ! unat (drop_bit 24 crc)"

definition LONG :: nat where "LONG = 8192"
definition SHORT :: nat where "SHORT = 256"

text \<open>The three interleaved instruction streams, \<open>n\<close> quadwords each, \<open>stride\<close> bytes apart.\<close>

fun hw_triple :: "nat \<Rightarrow> nat \<Rightarrow> bytes \<Rightarrow> racs_uint64 \<times> racs_uint64 \<times> racs_uint64
    \<Rightarrow> racs_uint64 \<times> racs_uint64 \<times> racs_uint64" where
  "hw_triple 0 stride next c = c"
| "hw_triple (Suc n) stride next (crc0, crc1, crc2) =
     hw_triple n stride (drop 8 next)
       (crc32q crc0 (take 8 next), crc32q crc1 (take 8 (drop stride next)),
        crc32q crc2 (take 8 (drop (2 * stride) next)))"

function hw_blocks :: "nat \<Rightarrow> racs_uint64 \<Rightarrow> bytes \<Rightarrow> racs_uint64 \<times> bytes" where
  "hw_blocks stride crc0 next =
     (if 0 < stride \<and> stride * 3 \<le> length next then
        let (crc0, crc1, crc2) = hw_triple (stride div 8) stride next (crc0, 0, 0);
            crc0 = ucast (crc32c_shift (crc32c_zeros stride) (ucast crc0)) XOR crc1;
            crc0 = ucast (crc32c_shift (crc32c_zeros stride) (ucast crc0)) XOR crc2
        in hw_blocks stride crc0 (drop (stride * 3) next)
      else (crc0, next))"
  by pat_completeness auto
termination
  by (relation "measure (\<lambda>(stride, c, bs). length bs)") auto

declare hw_blocks.simps [simp del]

function hw_words :: "racs_uint64 \<Rightarrow> bytes \<Rightarrow> racs_uint64 \<times> bytes" where
  "hw_words crc0 next =
     (if 8 \<le> length next then hw_words (crc32q crc0 (take 8 next)) (drop 8 next) else (crc0, next))"
  by pat_completeness auto
termination
  by (relation "measure (\<lambda>(c, bs). length bs)") auto

declare hw_words.simps [simp del]

definition crc32c_hw :: "racs_uint32 \<Rightarrow> nat \<Rightarrow> bytes \<Rightarrow> racs_uint32" where
  "crc32c_hw crc addr buf =
     (let (crc0, next) = leading crc32b (ucast (NOT crc)) addr buf;
          (crc0, next) = hw_blocks LONG crc0 next;
          (crc0, next) = hw_blocks SHORT crc0 next;
          (crc0, next) = hw_words crc0 next
      in ucast (NOT (foldl crc32b crc0 next)))"

text \<open>
  The exported function: \<open>sse42\<close> is what \<open>cpuid\<close> reports and \<open>addr\<close> the address of the buffer.
\<close>

definition crc32c :: "bool \<Rightarrow> nat \<Rightarrow> racs_uint32 \<Rightarrow> bytes \<Rightarrow> racs_uint32" where
  "crc32c sse42 addr crc buf =
     (if sse42 then crc32c_hw crc addr buf else crc32c_sw_little crc addr buf)"

section \<open>Linearity of the bit step\<close>

lemma crc_bit_xor: "crc_bit (a XOR b) = crc_bit a XOR crc_bit b"
  by (rule bit_eqI) (auto simp: crc_bit_def bit_xor_iff bit_drop_bit_eq)

lemma crc_bit_zero [simp]: "crc_bit 0 = 0"
  by (simp add: crc_bit_def)

lemma crc_bit_funpow_xor: "(crc_bit ^^ n) (a XOR b) = (crc_bit ^^ n) a XOR (crc_bit ^^ n) b"
  by (induction n) (simp_all add: crc_bit_xor)

lemma crc_bit_funpow_zero [simp]: "(crc_bit ^^ n) 0 = 0"
  by (induction n) simp_all

lemma zero_bytes_xor: "zero_bytes n (a XOR b) = zero_bytes n a XOR zero_bytes n b"
  by (simp add: zero_bytes_def crc_bit_funpow_xor)

lemma zero_bytes_zero [simp]: "zero_bytes n 0 = 0"
  by (simp add: zero_bytes_def)

lemma zero_bytes_0 [simp]: "zero_bytes 0 a = a"
  by (simp add: zero_bytes_def)

lemma zero_bytes_add: "zero_bytes (m + n) a = zero_bytes m (zero_bytes n a)"
  by (simp add: zero_bytes_def distrib_left funpow_add)

lemma crc_bit_even: "\<not> bit a 0 \<Longrightarrow> crc_bit a = drop_bit 1 a"
  by (simp add: crc_bit_def)

lemma crc_bit_funpow_low_clear:
  "(\<And>i. i < n \<Longrightarrow> \<not> bit a i) \<Longrightarrow> (crc_bit ^^ n) a = drop_bit n a"
proof (induction n)
  case 0
  then show ?case by simp
next
  case (Suc n)
  then have "(crc_bit ^^ n) a = drop_bit n a" by simp
  moreover have "\<not> bit (drop_bit n a) 0"
    using Suc.prems [of n] by (simp add: bit_drop_bit_eq)
  ultimately show ?case by (simp add: crc_bit_even)
qed

lemma and_0xff: "(x :: 'a::len word) AND 0xff = take_bit 8 x"
  by (simp add: take_bit_eq_mask mask_eq_exp_minus_1)

lemma split_low_byte: "take_bit 8 x XOR push_bit 8 (drop_bit 8 x) = (x :: 32 word)"
  by (rule bit_eqI) (auto simp: bit_xor_iff bit_take_bit_iff bit_push_bit_iff bit_drop_bit_eq)

lemma zero_byte_shifted: "zero_bytes (Suc 0) (push_bit 8 (drop_bit 8 x)) = drop_bit 8 x"
proof -
  have "drop_bit 8 (push_bit 8 (drop_bit 8 x)) = drop_bit 8 x"
    by (rule bit_eqI) (auto simp: bit_push_bit_iff bit_drop_bit_eq dest: bit_imp_le_length)
  then show ?thesis
    using crc_bit_funpow_low_clear [of 8 "push_bit 8 (drop_bit 8 x)"]
    by (simp add: zero_bytes_def bit_push_bit_iff)
qed

lemma unat_low_byte: "unat ((x :: 'a::len word) AND 0xff) < 256"
proof -
  have "unat (take_bit 8 x) = take_bit 8 (unat x)"
    by (rule unsigned_take_bit_eq)
  then show ?thesis
    using take_bit_nat_less_exp [of 8 "unat x"] by (simp add: and_0xff)
qed

lemma table0_nth: "n < 256 \<Longrightarrow> crc32c_table0 ! n = zero_bytes (Suc 0) (of_nat n)"
  by (simp add: crc32c_table0_def zero_bytes_def)

lemma table_step:
  "crc32c_table0 ! unat (x AND 0xff) XOR drop_bit 8 x = zero_bytes (Suc 0) x"
proof -
  have "zero_bytes (Suc 0) x =
      zero_bytes (Suc 0) (take_bit 8 x) XOR zero_bytes (Suc 0) (push_bit 8 (drop_bit 8 x))"
    by (metis split_low_byte zero_bytes_xor)
  moreover have "crc32c_table0 ! unat (x AND 0xff) = zero_bytes (Suc 0) (x AND 0xff)"
    by (simp only: table0_nth [OF unat_low_byte]) simp
  ultimately show ?thesis
    by (simp add: zero_byte_shifted and_0xff)
qed

lemma table_col_eq: "n < 256 \<Longrightarrow> crc32c_table_col n k = zero_bytes (Suc k) (of_nat n)"
proof (induction k)
  case 0
  then show ?case by (simp add: table0_nth)
next
  case (Suc k)
  then show ?case
    using zero_bytes_add [of 1 "Suc k" "of_nat n"] by (simp add: Let_def table_step)
qed

lemma table_little_nth:
  "k < 8 \<Longrightarrow> n < 256 \<Longrightarrow> crc32c_table_little ! k ! n = zero_bytes (Suc k) (of_nat n)"
  by (simp add: crc32c_table_little_def table_col_eq)

lemma table_little_row0: "n < 256 \<Longrightarrow> crc32c_table_little ! 0 ! n = crc32c_table0 ! n"
  by (simp add: table_little_nth table0_nth)

lemma sw_byte_eq: "sw_byte crc b = crc_byte crc b"
proof -
  have "drop_bit 8 (crc XOR ucast b) = drop_bit 8 crc"
    by (rule bit_eqI) (auto simp: bit_drop_bit_eq bit_xor_iff bit_ucast_iff dest: bit_imp_le_length)
  then show ?thesis
    unfolding sw_byte_def crc_byte_def table_little_row0 [OF unat_low_byte]
    using table_step [of "crc XOR ucast b"] by simp
qed

section \<open>Sequences of bytes\<close>

lemma crc_bytes_Nil [simp]: "crc_bytes c [] = c"
  and crc_bytes_Cons [simp]: "crc_bytes c (b # bs) = crc_bytes (crc_byte c b) bs"
  and crc_bytes_append [simp]: "crc_bytes c (xs @ ys) = crc_bytes (crc_bytes c xs) ys"
  by (simp_all add: crc_bytes_def)

lemma crc_bytes_xor:
  "crc_bytes (a XOR c) bs = zero_bytes (length bs) a XOR crc_bytes c bs"
proof (induction bs arbitrary: a c)
  case Nil
  then show ?case by simp
next
  case (Cons b bs)
  have "crc_byte (a XOR c) b = zero_bytes (Suc 0) a XOR crc_byte c b"
    by (simp add: crc_byte_def zero_bytes_xor xor.assoc)
  with Cons show ?case
    using zero_bytes_add [of "length bs" "Suc 0" a] by simp
qed

lemma crc_bytes_split: "crc_bytes c bs = zero_bytes (length bs) c XOR crc_bytes 0 bs"
  using crc_bytes_xor [of c 0 bs] by simp

lemma crc_bytes_0_Cons:
  "crc_bytes 0 (b # bs) = zero_bytes (Suc (length bs)) (ucast b) XOR crc_bytes 0 bs"
  using crc_bytes_split [of "crc_byte 0 b" bs] zero_bytes_add [of "length bs" "Suc 0" "ucast b"]
  by (simp add: crc_byte_def)

lemma ucast_xor_byte: "ucast ((a :: 8 word) XOR b) = (ucast a XOR ucast b :: 32 word)"
  by (rule bit_eqI) (auto simp: bit_ucast_iff bit_xor_iff)

lemma crc_bytes_0_map2:
  "length xs = length ys \<Longrightarrow>
   crc_bytes 0 (map2 (XOR) xs ys) = crc_bytes 0 xs XOR crc_bytes 0 ys"
proof (induction xs ys rule: list_induct2)
  case Nil
  then show ?case by simp
next
  case (Cons x xs y ys)
  then show ?case
    unfolding zip_Cons_Cons list.map prod.case crc_bytes_0_Cons
    by (simp add: ucast_xor_byte zero_bytes_xor xor.assoc xor.left_commute)
qed

lemma crc_bytes_0_replicate [simp]: "crc_bytes c (replicate n 0) = zero_bytes n c"
proof (induction n arbitrary: c)
  case 0
  then show ?case by simp
next
  case (Suc n)
  then show ?case
    using zero_bytes_add [of n "Suc 0" c] by (simp add: crc_byte_def)
qed

lemma crc_byte_self: "crc_byte x (ucast x) = drop_bit 8 x"
proof -
  have "x XOR ucast (ucast x :: 8 word) = push_bit 8 (drop_bit 8 x)"
    by (rule bit_eqI) (auto simp: bit_xor_iff bit_ucast_iff bit_push_bit_iff bit_drop_bit_eq)
  then show ?thesis by (simp add: crc_byte_def zero_byte_shifted)
qed

lemma xor_eq_0D: "a XOR b = 0 \<Longrightarrow> b = (a :: 'a::len word)"
proof -
  assume "a XOR b = 0"
  then have "a XOR (a XOR b) = a" by simp
  then show "b = a" by (simp add: xor.assoc [symmetric])
qed

lemma upt_4: "[0..<4] = [0, 1, 2, 3 :: nat]" and upt_8: "[0..<8] = [0, 1, 2, 3, 4, 5, 6, 7 :: nat]"
  by (simp_all add: upt_rec)

lemma crc_bytes_0_le_bytes: "crc_bytes 0 (le_bytes 4 c) = zero_bytes 4 c"
proof -
  have "crc_bytes c (le_bytes 4 c) = drop_bit 32 c"
    using crc_byte_self [of c] crc_byte_self [of "drop_bit 8 c"]
      crc_byte_self [of "drop_bit 16 c"] crc_byte_self [of "drop_bit 24 c"]
    by (simp add: le_bytes_def upt_4)
  moreover have "drop_bit 32 c = 0"
    by (rule bit_eqI) (auto simp: bit_drop_bit_eq dest: bit_imp_le_length)
  ultimately have "zero_bytes 4 c XOR crc_bytes 0 (le_bytes 4 c) = 0"
    using crc_bytes_split [of c "le_bytes 4 c"] by simp
  then show ?thesis by (rule xor_eq_0D)
qed

lemma ucast_32_64 [simp]: "ucast (ucast (c :: 32 word) :: 64 word) = c"
  by (rule bit_eqI) (auto simp: bit_ucast_iff)

section \<open>The sliced step\<close>

lemma le_bytes_ucast_64: "le_bytes 8 (ucast (c :: 32 word) :: 64 word) = le_bytes 4 c @ replicate 4 0"
proof (rule nth_equalityI)
  fix i
  assume "i < length (le_bytes 8 (ucast c :: 64 word))"
  then have i: "i < 8" by simp
  show "le_bytes 8 (ucast c :: 64 word) ! i = (le_bytes 4 c @ replicate 4 0) ! i"
  proof (rule bit_eqI)
    fix j
    assume "possible_bit TYPE(8 word) j"
    then have "j < 8" by simp
    with i show "bit (le_bytes 8 (ucast c :: 64 word) ! i) j
        = bit ((le_bytes 4 c @ replicate 4 0) ! i) j"
      by (auto simp: le_bytes_def nth_append bit_ucast_iff bit_drop_bit_eq dest: bit_imp_le_length)
  qed
qed simp

lemma le_bytes_xor:
  "le_bytes n (v XOR w) = map2 (XOR) (le_bytes n v) (le_bytes n (w :: 'a::len word))"
  by (rule nth_equalityI) (auto simp: le_bytes_def bit_ucast_iff bit_xor_iff intro: bit_eqI)

lemma crc_bytes_of_xor:
  assumes "length bs = 8"
  shows "crc_bytes 0 (le_bytes 8 (ucast c XOR of_le_bytes bs :: 64 word)) = crc_bytes c bs"
proof -
  have "crc_bytes 0 (le_bytes 8 (ucast c XOR of_le_bytes bs :: 64 word)) =
      crc_bytes 0 (le_bytes 4 c @ replicate 4 0) XOR crc_bytes 0 bs"
    using assms by (simp add: le_bytes_xor le_bytes_ucast_64 crc_bytes_0_map2)
  also have "crc_bytes 0 (le_bytes 4 c @ replicate 4 0) = zero_bytes 8 c"
    using zero_bytes_add [of 4 4 c] by (simp add: crc_bytes_0_le_bytes)
  finally show ?thesis
    using assms crc_bytes_split [of c bs] by simp
qed

lemma table_little_index:
  assumes "k < 8"
  shows "crc32c_table_little ! k ! crcw_index w i
      = zero_bytes (Suc k) (ucast (ucast (drop_bit (8 * i) w) :: 8 word))"
proof -
  have "of_nat (unat (drop_bit (8 * i) w AND 0xff)) = (ucast (ucast (drop_bit (8 * i) w) :: 8 word) :: 32 word)"
    by (rule bit_eqI) (auto simp: bit_ucast_iff and_0xff bit_take_bit_iff)
  then show ?thesis
    using assms unat_low_byte [of "drop_bit (8 * i) w"]
    by (simp add: crcw_index_def table_little_nth)
qed

lemma crcw_index_7: "unat (drop_bit 56 w) = crcw_index w 7"
proof -
  have "drop_bit 56 w AND 0xff = drop_bit 56 w"
    by (rule bit_eqI) (auto simp: and_0xff bit_take_bit_iff bit_drop_bit_eq dest: bit_imp_le_length)
  then show ?thesis by (simp add: crcw_index_def)
qed

lemma sw_word_eq:
  assumes "length bs = 8"
  shows "sw_word (ucast c) bs = ucast (crc_bytes c bs)"
proof -
  define w :: racs_uint64 where "w = ucast c XOR of_le_bytes bs"
  have "sw_word (ucast c) bs = ucast (crc_bytes 0 (le_bytes 8 w))"
    unfolding sw_word_def Let_def w_def [symmetric] le_bytes_def upt_8 list.map crcw_index_7
      crc_bytes_0_Cons
    by (simp add: table_little_index xor.assoc numeral_eq_Suc)
  then show ?thesis
    using crc_bytes_of_xor [OF assms, of c] by (simp add: w_def)
qed

lemma sw_words_eq:
  assumes "sw_words (ucast c) bs = (w, rest)"
  shows "\<exists>c'. w = ucast c' \<and> crc_bytes c' rest = crc_bytes c bs"
  using assms
proof (induction "length bs" arbitrary: c bs rule: less_induct)
  case less
  show ?case
  proof (cases "8 \<le> length bs")
    case True
    with less.prems have "sw_words (ucast (crc_bytes c (take 8 bs))) (drop 8 bs) = (w, rest)"
      by (simp add: sw_words.simps [of _ bs] sw_word_eq)
    with less.hyps [of "drop 8 bs"] True obtain c' where "w = ucast c'"
      "crc_bytes c' rest = crc_bytes (crc_bytes c (take 8 bs)) (drop 8 bs)" by force
    then show ?thesis
      by (metis append_take_drop_id crc_bytes_append)
  next
    case False
    with less.prems show ?thesis
      by (auto simp: sw_words.simps [of _ bs])
  qed
qed

lemma leading_eq:
  "leading step c addr bs = (c', rest) \<Longrightarrow> foldl step c' rest = foldl step c bs"
  by (induction step c addr bs rule: leading.induct) (auto split: if_splits)

lemma sw_byte_fun: "sw_byte = crc_byte"
  by (intro ext) (rule sw_byte_eq)

theorem crc32c_sw_little_eq:
  "crc32c_sw_little crc addr buf = NOT (crc_bytes (NOT crc) buf)"
proof -
  obtain c1 r1 where l: "leading sw_byte (NOT crc) addr buf = (c1, r1)"
    by fastforce
  then have eq1: "crc_bytes c1 r1 = crc_bytes (NOT crc) buf"
    using leading_eq [OF l] by (simp add: crc_bytes_def sw_byte_fun)
  obtain w r2 where s: "sw_words (ucast c1) r1 = (w, r2)"
    by fastforce
  then obtain c2 where "w = ucast c2" "crc_bytes c2 r2 = crc_bytes c1 r1"
    using sw_words_eq by blast
  then show ?thesis
    using eq1 l by (simp add: crc32c_sw_little_def s sw_byte_fun crc_bytes_def)
qed

section \<open>Matrices represent powers of the bit step\<close>

definition linear :: "(racs_uint32 \<Rightarrow> racs_uint32) \<Rightarrow> bool" where
  "linear L \<longleftrightarrow> (\<forall>a b. L (a XOR b) = L a XOR L b)"

definition represents :: "racs_uint32 list \<Rightarrow> (racs_uint32 \<Rightarrow> racs_uint32) \<Rightarrow> bool" where
  "represents mat L \<longleftrightarrow> linear L \<and> length mat = 32 \<and> (\<forall>i<32. mat ! i = L (push_bit i 1))"

lemma linear_zero: "linear L \<Longrightarrow> L 0 = 0"
  unfolding linear_def by (metis xor_self_eq)

lemma split_low_bit:
  "(v :: racs_uint32) = (if bit v 0 then 1 else 0) XOR push_bit 1 (drop_bit 1 v)"
proof (rule bit_eqI)
  fix n
  show "bit v n = bit ((if bit v 0 then 1 else 0) XOR push_bit 1 (drop_bit 1 v)) n"
    by (cases n) (auto simp: bit_xor_iff bit_push_bit_iff bit_drop_bit_eq bit_1_iff
        plus_1_eq_Suc
        simp del: bit_0 push_bit_Suc One_nat_def dest: bit_imp_le_length)
qed

lemma gf2_loop_linear:
  "\<lbrakk>linear L; \<forall>i<length mat. mat ! i = L (push_bit i 1); \<forall>i. bit v i \<longrightarrow> i < length mat\<rbrakk>
   \<Longrightarrow> gf2_loop mat v s = s XOR L v"
proof (induction mat arbitrary: L v s)
  case Nil
  then have "v = 0" by (auto intro: bit_eqI)
  with Nil show ?case by (simp add: linear_zero)
next
  case (Cons row mat)
  let ?L = "\<lambda>x. L (push_bit 1 x)"
  have "linear ?L" using Cons.prems(1) unfolding linear_def push_bit_xor by blast
  moreover have "\<forall>i<length mat. mat ! i = ?L (push_bit i 1)"
  proof (intro allI impI)
    fix i
    assume "i < length mat"
    then have "mat ! i = L (push_bit (Suc i) 1)"
      using Cons.prems(2) by (metis length_Cons not_less_eq nth_Cons_Suc)
    then show "mat ! i = ?L (push_bit i 1)" by (simp add: mult.commute)
  qed
  moreover have "\<forall>i. bit (drop_bit 1 v) i \<longrightarrow> i < length mat"
    using Cons.prems(3) by (auto simp: bit_drop_bit_eq)
  ultimately have IH: "gf2_loop mat (drop_bit 1 v) s' = s' XOR ?L (drop_bit 1 v)" for s'
    by (rule Cons.IH)
  have row: "row = L 1" using Cons.prems(2) by force
  have "L v = L (if bit v 0 then 1 else 0) XOR ?L (drop_bit 1 v)"
    using Cons.prems(1) split_low_bit [of v] unfolding linear_def by metis
  then show ?case
    using IH row Cons.prems(1) by (auto simp: linear_zero xor.assoc)
qed

lemma represents_times: "represents mat L \<Longrightarrow> gf2_matrix_times mat v = L v"
  unfolding gf2_matrix_times_def represents_def
  using gf2_loop_linear [of L mat v 0] bit_imp_le_length [of v] by force

lemma represents_square: "represents mat L \<Longrightarrow> represents (gf2_matrix_square mat) (L \<circ> L)"
  using represents_times [of mat L]
  by (auto simp: represents_def gf2_matrix_square_def linear_def)

lemma represents_crc_bit: "represents one_zero_bit crc_bit"
proof -
  have "one_zero_bit ! i = crc_bit (push_bit i 1)" if "i < 32" for i
  proof (cases i)
    case 0
    then show ?thesis by (simp add: one_zero_bit_def crc_bit_def)
  next
    case (Suc j)
    have "drop_bit 1 (push_bit (Suc j) 1 :: racs_uint32) = push_bit j 1"
      using that Suc
      by (intro bit_eqI) (auto simp: bit_drop_bit_eq bit_push_bit_iff bit_1_iff
          simp del: push_bit_of_1 push_bit_Suc)
    moreover have "\<not> bit (push_bit (Suc j) 1 :: racs_uint32) 0"
      by (simp add: bit_push_bit_iff del: push_bit_of_1 push_bit_Suc)
    ultimately have "crc_bit (push_bit (Suc j) 1) = push_bit j 1"
      by (metis crc_bit_even)
    with Suc that show ?thesis
      by (simp add: one_zero_bit_def)
  qed
  then show ?thesis
    by (simp add: represents_def linear_def crc_bit_xor) (simp add: one_zero_bit_def)
qed

lemma represents_funpow_square:
  "represents mat (crc_bit ^^ n) \<Longrightarrow> represents (gf2_matrix_square mat) (crc_bit ^^ (2 * n))"
  using represents_square [of mat "crc_bit ^^ n"] by (simp add: funpow_add mult_2)

lemma zeros_loop_represents:
  "represents odds (crc_bit ^^ n) \<Longrightarrow>
   represents (zeros_loop odds (2 ^ k)) (crc_bit ^^ (n * 2 ^ Suc k))"
proof (induction k arbitrary: odds n rule: less_induct)
  case (less k)
  let ?even = "gf2_matrix_square odds" and ?odd = "gf2_matrix_square (gf2_matrix_square odds)"
  have even: "represents ?even (crc_bit ^^ (2 * n))"
    using less.prems by (rule represents_funpow_square)
  then have odd: "represents ?odd (crc_bit ^^ (2 * (2 * n)))"
    by (rule represents_funpow_square)
  consider "k = 0" | "k = 1" | j where "k = Suc (Suc j)"
    by (metis One_nat_def not0_implies_Suc)
  then show ?case
  proof cases
    case 1
    with even show ?thesis by (simp add: zeros_loop.simps mult.commute)
  next
    case 2
    with odd show ?thesis by (simp add: zeros_loop.simps mult.commute Let_def)
  next
    case 3
    with odd less.IH [of j ?odd "2 * (2 * n)"] show ?thesis
      by (simp add: zeros_loop.simps [of odds] Let_def algebra_simps)
  qed
qed

lemma zeros_op_represents: "represents (crc32c_zeros_op (2 ^ k)) (zero_bytes (2 ^ k))"
proof -
  have "represents (gf2_matrix_square (gf2_matrix_square one_zero_bit)) (crc_bit ^^ 4)"
    using represents_funpow_square [OF represents_funpow_square [of one_zero_bit 1]]
      represents_crc_bit by simp
  from zeros_loop_represents [OF this, of k] show ?thesis
    by (simp add: crc32c_zeros_op_def zero_bytes_def mult.commute)
qed

lemma word_32_bytes:
  "(c :: racs_uint32) = (c AND 0xff) XOR push_bit 8 (drop_bit 8 c AND 0xff) XOR
     push_bit 16 (drop_bit 16 c AND 0xff) XOR push_bit 24 (drop_bit 24 c)"
  by (rule bit_eqI)
     (auto simp: and_0xff bit_xor_iff bit_take_bit_iff bit_push_bit_iff bit_drop_bit_eq)

lemma crc32c_zeros_nth:
  "j < 4 \<Longrightarrow> n < 256 \<Longrightarrow>
   crc32c_zeros (2 ^ k) ! j ! n = zero_bytes (2 ^ k) (push_bit (8 * j) (of_nat n))"
  by (simp add: crc32c_zeros_def Let_def represents_times [OF zeros_op_represents])

lemma drop_24_less: "unat (drop_bit 24 (c :: racs_uint32)) < 256"
proof -
  have "drop_bit 24 c AND 0xff = drop_bit 24 c"
    by (rule bit_eqI) (auto simp: and_0xff bit_take_bit_iff bit_drop_bit_eq dest: bit_imp_le_length)
  then show ?thesis using unat_low_byte [of "drop_bit 24 c"] by simp
qed

lemma crc32c_shift_eq: "crc32c_shift (crc32c_zeros (2 ^ k)) c = zero_bytes (2 ^ k) c"
proof -
  let ?z = "zero_bytes (2 ^ k)"
  have "crc32c_shift (crc32c_zeros (2 ^ k)) c =
      ?z (c AND 0xff) XOR ?z (push_bit 8 (drop_bit 8 c AND 0xff)) XOR
      ?z (push_bit 16 (drop_bit 16 c AND 0xff)) XOR ?z (push_bit 24 (drop_bit 24 c))"
    by (simp only: crc32c_shift_def crc32c_zeros_nth unat_low_byte drop_24_less) simp
  also have "\<dots> = ?z c"
    by (metis word_32_bytes zero_bytes_xor)
  finally show ?thesis .
qed

section \<open>The interleaved blocks\<close>

lemma crc32q_ucast [simp]: "crc32q (ucast c) q = ucast (crc_bytes c q)"
  by (simp add: crc32q_def)

lemma crc32b_fold: "foldl crc32b (ucast c) bs = ucast (crc_bytes c bs)"
  by (induction bs arbitrary: c) (simp_all add: crc32b_def)

lemma take_add_8: "take (8 * Suc n) xs = take 8 xs @ take (8 * n) (drop 8 xs)"
  using take_add [of 8 "8 * n" xs] by simp

lemma hw_triple_eq:
  "hw_triple n stride next (ucast a, ucast b, ucast c) =
     (ucast (crc_bytes a (take (8 * n) next)),
      ucast (crc_bytes b (take (8 * n) (drop stride next))),
      ucast (crc_bytes c (take (8 * n) (drop (2 * stride) next))))"
proof (induction n arbitrary: a b c "next")
  case 0
  then show ?case by simp
next
  case (Suc n)
  show ?case
    unfolding hw_triple.simps crc32q_ucast Suc.IH take_add_8 crc_bytes_append
    by (simp add: add.commute)
qed

lemma crc_bytes_three:
  "crc_bytes c (xs @ ys @ zs) =
     zero_bytes (length zs) (zero_bytes (length ys) (crc_bytes c xs) XOR crc_bytes 0 ys)
     XOR crc_bytes 0 zs"
  by (metis crc_bytes_append crc_bytes_split)

lemma hw_blocks_eq:
  assumes "stride = 2 ^ k" "8 dvd stride" "hw_blocks stride (ucast c) bs = (w, rest)"
  shows "\<exists>c'. w = ucast c' \<and> crc_bytes c' rest = crc_bytes c bs"
  using assms(3)
proof (induction "length bs" arbitrary: c bs rule: less_induct)
  case less
  show ?case
  proof (cases "stride * 3 \<le> length bs")
    case True
    let ?x = "take stride bs" and ?y = "take stride (drop stride bs)"
      and ?z = "take stride (drop (2 * stride) bs)"
    let ?c = "zero_bytes stride (zero_bytes stride (crc_bytes c ?x) XOR crc_bytes 0 ?y)
      XOR crc_bytes 0 ?z"
    have stride: "8 * (stride div 8) = stride" "0 < stride"
      using assms by auto
    have t: "hw_triple (stride div 8) stride bs (ucast c, 0, 0) =
        (ucast (crc_bytes c ?x), ucast (crc_bytes 0 ?y), ucast (crc_bytes 0 ?z))"
      using hw_triple_eq [of "stride div 8" stride bs c 0 0] stride by simp
    have xor: "ucast a XOR ucast b = (ucast (a XOR b) :: racs_uint64)" for a b :: racs_uint32
      by (rule bit_eqI) (auto simp: bit_ucast_iff bit_xor_iff)
    have "hw_blocks stride (ucast c) bs = hw_blocks stride (ucast ?c) (drop (stride * 3) bs)"
      using True stride(2)
      by (subst hw_blocks.simps) (simp add: t xor crc32c_shift_eq [of k, folded assms(1)])
    with less.prems have "hw_blocks stride (ucast ?c) (drop (stride * 3) bs) = (w, rest)"
      by simp
    with less.hyps [of "drop (stride * 3) bs"] True stride obtain c' where c': "w = ucast c'"
      "crc_bytes c' rest = crc_bytes ?c (drop (stride * 3) bs)"
      by fastforce
    have len: "length ?x = stride" "length ?y = stride" "length ?z = stride"
      using True by auto
    have "bs = (?x @ ?y @ ?z) @ drop (stride * 3) bs"
      by (metis (no_types) append.assoc append_take_drop_id drop_drop mult_2 mult.commute
          numeral_3_eq_3 mult_Suc add.commute numeral_2_eq_2)
    moreover have "crc_bytes c (?x @ ?y @ ?z) = ?c"
      using crc_bytes_three [of c ?x ?y ?z] len by simp
    ultimately have "crc_bytes c bs = crc_bytes ?c (drop (stride * 3) bs)"
      by (metis crc_bytes_append)
    with c' show ?thesis by auto
  next
    case False
    with less.prems show ?thesis
      by (auto simp: hw_blocks.simps [of stride _ bs])
  qed
qed

lemma hw_words_eq:
  "hw_words (ucast c) bs = (w, rest) \<Longrightarrow> \<exists>c'. w = ucast c' \<and> crc_bytes c' rest = crc_bytes c bs"
proof (induction "length bs" arbitrary: c bs rule: less_induct)
  case less
  show ?case
  proof (cases "8 \<le> length bs")
    case True
    with less.prems have "hw_words (ucast (crc_bytes c (take 8 bs))) (drop 8 bs) = (w, rest)"
      by (simp add: hw_words.simps [of _ bs])
    with less.hyps [of "drop 8 bs"] True obtain c' where "w = ucast c'"
      "crc_bytes c' rest = crc_bytes (crc_bytes c (take 8 bs)) (drop 8 bs)" by force
    then show ?thesis
      by (metis append_take_drop_id crc_bytes_append)
  next
    case False
    with less.prems show ?thesis by (auto simp: hw_words.simps [of _ bs])
  qed
qed

lemma hw_leading_eq:
  "leading crc32b (ucast c) addr bs = (w, rest) \<Longrightarrow>
   \<exists>c'. w = ucast c' \<and> crc_bytes c' rest = crc_bytes c bs"
proof (induction bs arbitrary: c addr)
  case Nil
  then show ?case by auto
next
  case (Cons b bs)
  show ?case
  proof (cases "addr mod 8 = 0")
    case True
    with Cons.prems show ?thesis by auto
  next
    case False
    moreover have "crc32b (ucast c) b = ucast (crc_byte c b)" by (simp add: crc32b_def)
    ultimately have "leading crc32b (ucast (crc_byte c b)) (Suc addr) bs = (w, rest)"
      using Cons.prems by simp
    from Cons.IH [OF this] show ?thesis by simp
  qed
qed

lemma crc32c_hw_eq: "crc32c_hw crc addr buf = NOT (crc_bytes (NOT crc) buf)"
proof -
  obtain w1 r1 where 1: "leading crc32b (ucast (NOT crc)) addr buf = (w1, r1)" by fastforce
  then obtain c1 where c1: "w1 = ucast c1" "crc_bytes c1 r1 = crc_bytes (NOT crc) buf"
    using hw_leading_eq by blast
  obtain w2 r2 where 2: "hw_blocks LONG (ucast c1) r1 = (w2, r2)" by fastforce
  then obtain c2 where c2: "w2 = ucast c2" "crc_bytes c2 r2 = crc_bytes c1 r1"
    using hw_blocks_eq [of LONG 13 c1 r1 w2 r2] by (auto simp: LONG_def)
  obtain w3 r3 where 3: "hw_blocks SHORT (ucast c2) r2 = (w3, r3)" by fastforce
  then obtain c3 where c3: "w3 = ucast c3" "crc_bytes c3 r3 = crc_bytes c2 r2"
    using hw_blocks_eq [of SHORT 8 c2 r2 w3 r3] by (auto simp: SHORT_def)
  obtain w4 r4 where 4: "hw_words (ucast c3) r3 = (w4, r4)" by fastforce
  then obtain c4 where c4: "w4 = ucast c4" "crc_bytes c4 r4 = crc_bytes c3 r3"
    using hw_words_eq by blast
  have not: "ucast (NOT (ucast c :: racs_uint64)) = NOT c" for c :: racs_uint32
    by (rule bit_eqI) (auto simp: bit_ucast_iff bit_not_iff)
  show ?thesis
    using 1 2 3 4 c1 c2 c3 c4 by (simp add: crc32c_hw_def crc32b_fold not)
qed

text \<open>
  The value that the rest of the system sees: the checksum of a byte sequence, with the arguments
  fixed that \<open>crc32c_checksum_eq\<close> shows to be irrelevant.
\<close>

definition crc32c_of :: "bytes \<Rightarrow> racs_uint32" where
  "crc32c_of buf = crc32c False 0 0 buf"

lemma crc32c_eq_bytes: "crc32c sse42 addr crc buf = NOT (crc_bytes (NOT crc) buf)"
  by (simp add: crc32c_def crc32c_hw_eq crc32c_sw_little_eq)

lemma crc32c_of_code [code]: "crc32c_of buf = NOT (crc_bytes (NOT 0) buf)"
  by (simp only: crc32c_of_def crc32c_eq_bytes)

section \<open>What the checksum detects\<close>

lemma crc_bit_eq_0: "crc_bit a = 0 \<Longrightarrow> a = 0"
proof -
  assume 0: "crc_bit a = 0"
  have "\<not> bit a 0"
  proof
    assume "bit a 0"
    with 0 have "drop_bit 1 a = POLY"
      by (simp add: crc_bit_def) (metis xor_eq_0D)
    moreover have "\<not> bit (drop_bit 1 a) 31"
      by (auto simp: bit_drop_bit_eq dest: bit_imp_le_length)
    moreover have "bit POLY 31" by (simp add: POLY_def)
    ultimately show False by simp
  qed
  with 0 show "a = 0"
    using split_low_bit [of a] by (simp add: crc_bit_even)
qed

lemma zero_bytes_eq_0: "zero_bytes n a = 0 \<Longrightarrow> a = 0"
proof -
  have "(crc_bit ^^ m) a = 0 \<Longrightarrow> a = 0" for m
    by (induction m) (auto dest: crc_bit_eq_0)
  then show "zero_bytes n a = 0 \<Longrightarrow> a = 0" by (simp add: zero_bytes_def)
qed

lemma zero_bytes_inject: "zero_bytes n a = zero_bytes n b \<Longrightarrow> a = b"
proof -
  assume "zero_bytes n a = zero_bytes n b"
  then have "zero_bytes n (a XOR b) = 0" by (simp add: zero_bytes_xor)
  then have "a XOR b = 0" by (rule zero_bytes_eq_0)
  then show "a = b" by (metis xor_eq_0D)
qed

lemma xor_right_inject: "a XOR c = b XOR c \<longleftrightarrow> a = (b :: 'a::len word)"
proof
  assume "a XOR c = b XOR c"
  then have "(a XOR c) XOR c = (b XOR c) XOR c" by simp
  then show "a = b" by (simp add: xor.assoc)
qed simp

lemma xor_left_inject: "c XOR a = c XOR b \<longleftrightarrow> a = (b :: 'a::len word)"
  using xor_right_inject [of a c b] by (simp add: xor.commute)

lemma crc_bytes_inject_state: "crc_bytes a bs = crc_bytes b bs \<Longrightarrow> a = b"
  unfolding crc_bytes_split [of a bs] crc_bytes_split [of b bs] xor_right_inject
  by (rule zero_bytes_inject)

lemma crc_bytes_4_inject:
  assumes "crc_bytes c u = crc_bytes c v" "length u = 4" "length v = 4"
  shows "u = v"
proof -
  have len: "LENGTH(32) = 8 * 4" by simp
  from assms(1) have "crc_bytes 0 u = crc_bytes 0 v"
    unfolding crc_bytes_split [of c u] crc_bytes_split [of c v] by (simp add: assms xor_left_inject)
  moreover have "u = le_bytes 4 (of_le_bytes u :: racs_uint32)"
    "v = le_bytes 4 (of_le_bytes v :: racs_uint32)"
    using le_bytes_of_le_bytes [OF len] assms by simp_all
  ultimately have "zero_bytes 4 (of_le_bytes u) = zero_bytes 4 (of_le_bytes v)"
    by (metis crc_bytes_0_le_bytes)
  then have "(of_le_bytes u :: racs_uint32) = of_le_bytes v" by (rule zero_bytes_inject)
  then show ?thesis
    using \<open>u = le_bytes 4 _\<close> \<open>v = le_bytes 4 _\<close> by metis
qed

lemma crc32c_of_burst:
  assumes "length u = 4" "length v = 4" "u \<noteq> v"
  shows "crc32c_of (p @ u @ q) \<noteq> crc32c_of (p @ v @ q)"
proof
  assume "crc32c_of (p @ u @ q) = crc32c_of (p @ v @ q)"
  then have "NOT (crc_bytes (NOT 0) (p @ u @ q)) = NOT (crc_bytes (NOT 0) (p @ v @ q))"
    by (simp only: crc32c_of_def crc32c_eq_bytes)
  then have "crc_bytes (NOT 0) (p @ u @ q) = crc_bytes (NOT 0) (p @ v @ q)"
    by (metis bit.double_compl)
  then have "crc_bytes (crc_bytes (NOT 0) p) u = crc_bytes (crc_bytes (NOT 0) p) v"
    by (auto dest: crc_bytes_inject_state)
  with assms show False by (auto dest: crc_bytes_4_inject)
qed

text \<open>
  C21: Whatever the processor reports (\<open>sse42\<close>), whatever the alignment of the buffer and whatever
  its length, \<open>crc32c\<close> returns the CRC-32C of the bytes: the three-way interleaved hardware loops
  with their GF(2) shift tables and the eight-way sliced software loop both compute the
  bit-serial division.
\<close>

theorem crc32c_reference: "crc32c sse42 addr crc buf = NOT (crc_bytes (NOT crc) buf)"
  by (rule crc32c_eq_bytes)

text \<open>
  The checksum can be computed a chunk at a time, on different code paths and at different
  addresses: continuing from the checksum of a first chunk gives the checksum of the whole.
\<close>

theorem crc32c_chunks:
  "crc32c sse42 addr (crc32c sse42' addr' crc xs) ys = crc32c sse42'' addr'' crc (xs @ ys)"
  by (simp add: crc32c_eq_bytes)

text \<open>
  Damage confined to four consecutive bytes of a block is always detected: the checksum of the
  damaged block differs from that of the block.
\<close>

theorem crc32c_detects_burst:
  assumes "length u = 4" "length v = 4" "u \<noteq> v"
  shows "crc32c sse42 addr 0 (p @ u @ q) \<noteq> crc32c sse42' addr' 0 (p @ v @ q)"
  using crc32c_of_burst [OF assms, of p q] by (simp add: crc32c_of_def crc32c_eq_bytes)

theorem crc32c_detects_burst_witness:
  "crc32c True 5 0 ([1, 2] @ [3, 4, 5, 6] @ [7]) \<noteq> crc32c False 0 0 ([1, 2] @ [3, 4, 5, 134] @ [7])"
  by (rule crc32c_detects_burst) simp_all

end
