(* ===== verification/Sstable.thy ===== *)
theory Sstable
  imports Crc32c Timepath
begin

text \<open>
  Entries of the in-memory tables and the segment files made from them, the second half of
  \<^verbatim>\<open>src/src/memtable.c\<close>. A segment is a header, the entries, an index of their keys and positions,
  and a trailer with their number. The writer fills a buffer of a size computed from the number of
  entries; the theorems show that it never leaves the buffer and that the reader gets back every entry
  through the index, and only entries whose checksum matches.
\<close>

section \<open>Data\<close>

definition RACS_MAX_BLOCK_SIZE :: nat where "RACS_MAX_BLOCK_SIZE = 65536"
definition RACS_INDEX_ENTRY_SIZE :: nat where "RACS_INDEX_ENTRY_SIZE = 24"
definition RACS_HEADER_SIZE :: nat where "RACS_HEADER_SIZE = 16"
definition RACS_MEMTABLE_ENTRY_METADATA_SIZE :: nat where "RACS_MEMTABLE_ENTRY_METADATA_SIZE = 31"
definition RACS_TRAILER_SIZE :: nat where "RACS_TRAILER_SIZE = 2"
definition RACS_VERSION :: racs_uint32 where "RACS_VERSION = 0 * 10000 + 1 * 100 + 0"

lemmas sst_sizes = RACS_MAX_BLOCK_SIZE_def RACS_INDEX_ENTRY_SIZE_def RACS_HEADER_SIZE_def
  RACS_MEMTABLE_ENTRY_METADATA_SIZE_def RACS_TRAILER_SIZE_def

text \<open>\<open>e_block\<close> is the written part of the block buffer.\<close>

record racs_memtable_entry =
  e_key :: racs_key
  e_lsn :: racs_uint64
  e_checksum :: racs_uint32
  e_block_size :: racs_uint16
  e_flags :: racs_uint8
  e_block :: bytes

record racs_sstable_index_entry =
  ix_key :: racs_key
  ix_offset :: racs_uint64

text \<open>
  A table in memory. \<open>sst_data = None\<close>: the pointer is not initialised. An entry of the index is \<open>None\<close>
  while it is not initialised.
\<close>

record racs_sstable =
  sst_size :: "nat option"
  sst_data :: "bytes option"
  sst_num_entries :: racs_uint16
  sst_index :: "racs_sstable_index_entry option list"

section \<open>Writing\<close>

definition racs_sstable_index_entry_update :: "racs_memtable_entry \<Rightarrow> nat \<Rightarrow> racs_sstable_index_entry" where
  "racs_sstable_index_entry_update mt_entry offset = \<lparr>ix_key = e_key mt_entry, ix_offset = of_nat offset\<rparr>"

definition racs_memtable_entry_write :: "bytes \<Rightarrow> racs_memtable_entry \<Rightarrow> nat \<Rightarrow> (bytes \<times> nat) option" where
  "racs_memtable_entry_write buf mt_entry offset =
     do { (buf, offset) \<leftarrow> racs_write_uint64 buf (fst (e_key mt_entry)) offset;
          (buf, offset) \<leftarrow> racs_write_uint64 buf (snd (e_key mt_entry)) offset;
          (buf, offset) \<leftarrow> racs_write_uint64 buf (e_lsn mt_entry) offset;
          (buf, offset) \<leftarrow> racs_write_uint32 buf (e_checksum mt_entry) offset;
          (buf, offset) \<leftarrow> racs_write_uint16 buf (e_block_size mt_entry) offset;
          (buf, offset) \<leftarrow> racs_write_bin buf [e_flags mt_entry] 1 offset;
          racs_write_bin buf (e_block mt_entry) (int (unat (e_block_size mt_entry))) offset }"

text \<open>The loop of \<open>racs_memtable_to_sstable\<close>: the buffer, the index entries and the offset behind the last entry.\<close>

fun memtable_entries_write :: "bytes \<Rightarrow> racs_memtable_entry list \<Rightarrow> nat
    \<Rightarrow> (bytes \<times> racs_sstable_index_entry list \<times> nat) option" where
  "memtable_entries_write buf [] offset = Some (buf, [], offset)"
| "memtable_entries_write buf (e # es) offset =
     do { let ix = racs_sstable_index_entry_update e offset;
          (buf, offset) \<leftarrow> racs_memtable_entry_write buf e offset;
          (buf, ixs, offset) \<leftarrow> memtable_entries_write buf es offset;
          Some (buf, ix # ixs, offset) }"

definition racs_memtable_to_sstable :: "bytes \<Rightarrow> racs_memtable_entry list
    \<Rightarrow> (bytes \<times> racs_sstable_index_entry list \<times> nat) option" where
  "racs_memtable_to_sstable buf es = memtable_entries_write buf es RACS_HEADER_SIZE"

definition racs_write_index_entry :: "bytes \<Rightarrow> racs_sstable_index_entry \<Rightarrow> nat \<Rightarrow> (bytes \<times> nat) option" where
  "racs_write_index_entry buf ix offset =
     do { (buf, offset) \<leftarrow> racs_write_uint64 buf (fst (ix_key ix)) offset;
          (buf, offset) \<leftarrow> racs_write_uint64 buf (snd (ix_key ix)) offset;
          racs_write_uint64 buf (ix_offset ix) offset }"

fun index_entries_loop :: "bytes \<Rightarrow> racs_sstable_index_entry list \<Rightarrow> nat \<Rightarrow> (bytes \<times> nat) option" where
  "index_entries_loop buf [] offset = Some (buf, offset)"
| "index_entries_loop buf (ix # ixs) offset =
     do { (buf, offset) \<leftarrow> racs_write_index_entry buf ix offset; index_entries_loop buf ixs offset }"

definition racs_sstable_index_entries_write :: "bytes \<Rightarrow> racs_sstable_index_entry list \<Rightarrow> nat
    \<Rightarrow> (bytes \<times> nat) option" where
  "racs_sstable_index_entries_write buf ixs offset =
     do { (buf, offset) \<leftarrow> index_entries_loop buf ixs offset;
          racs_write_uint16 buf (of_nat (length ixs)) offset }"

text \<open>The bytes that \<open>racs_sstable_write\<close> writes to the file.\<close>

definition racs_sstable_write :: "bytes \<Rightarrow> nat \<Rightarrow> bytes option" where
  "racs_sstable_write buf offset =
     do { (buf, _) \<leftarrow> racs_write_uint64 buf (of_nat offset) 0;
          (buf, _) \<leftarrow> racs_write_uint32 buf RACS_VERSION 8;
          (buf, _) \<leftarrow> racs_write_uint32 buf 0 12;
          read_bin buf 0 offset }"

text \<open>
  The size of the buffer that \<open>racs_memtable_write\<close> allocates, computed in \<open>int\<close> (a signed overflow is
  undefined), and the file contents it produces for the entries of a table. The buffer is not
  initialised: its first contents are a parameter.
\<close>

definition memtable_buffer_size :: "nat \<Rightarrow> nat option" where
  "memtable_buffer_size n =
     (let sz = RACS_HEADER_SIZE +
            n * (RACS_MAX_BLOCK_SIZE + RACS_MEMTABLE_ENTRY_METADATA_SIZE + RACS_INDEX_ENTRY_SIZE) +
            RACS_TRAILER_SIZE
      in if sz < 2 ^ 31 then Some sz else None)"

definition memtable_file :: "bytes \<Rightarrow> racs_memtable_entry list \<Rightarrow> bytes option" where
  "memtable_file buf es =
     do { (buf, ixs, offset) \<leftarrow> racs_memtable_to_sstable buf es;
          (buf, offset) \<leftarrow> racs_sstable_index_entries_write buf ixs offset;
          racs_sstable_write buf offset }"

section \<open>Reading\<close>

definition racs_sstable_create :: "nat \<Rightarrow> racs_sstable" where
  "racs_sstable_create num_entries =
     \<lparr>sst_size = None, sst_data = None, sst_num_entries = 0, sst_index = replicate num_entries None\<rparr>"

text \<open>
  \<open>racs_sstable_read\<close> on the contents of the file (\<open>None\<close>: it cannot be opened). The index is read from
  the end of the file, where \<open>lseek\<close> left the descriptor, so it stays uninitialised.
\<close>

definition racs_sstable_read :: "bytes option \<Rightarrow> racs_sstable option" where
  "racs_sstable_read file =
     (case file of
        None \<Rightarrow> None
      | Some d \<Rightarrow>
          if length d < RACS_TRAILER_SIZE then None
          else let entry_count = (of_le_bytes (drop (length d - RACS_TRAILER_SIZE) d) :: racs_uint16)
               in Some ((racs_sstable_create (unat entry_count))
                    \<lparr>sst_num_entries := entry_count, sst_size := Some (length d), sst_data := Some d\<rparr>))"

fun index_entries_read :: "bytes \<Rightarrow> nat \<Rightarrow> nat \<Rightarrow> racs_sstable_index_entry list option" where
  "index_entries_read buf 0 offset = Some []"
| "index_entries_read buf (Suc n) offset =
     do { (k0, offset) \<leftarrow> racs_read_uint64 buf offset;
          (k1, offset) \<leftarrow> racs_read_uint64 buf offset;
          (off, offset) \<leftarrow> racs_read_uint64 buf offset;
          rest \<leftarrow> index_entries_read buf n offset;
          Some (\<lparr>ix_key = (k0, k1), ix_offset = off\<rparr> # rest) }"

definition racs_sstable_read_in_memory :: "bytes \<Rightarrow> nat \<Rightarrow> racs_sstable option" where
  "racs_sstable_read_in_memory data sz =
     do { tr \<leftarrow> (if RACS_TRAILER_SIZE \<le> sz then read_bin data (sz - RACS_TRAILER_SIZE) 2 else None);
          let num_entries = (of_le_bytes tr :: racs_uint16);
          let index_size = unat num_entries * RACS_INDEX_ENTRY_SIZE;
          ixs \<leftarrow> (if index_size + RACS_TRAILER_SIZE \<le> sz
                  then index_entries_read data (unat num_entries) (sz - index_size - RACS_TRAILER_SIZE)
                  else None);
          Some ((racs_sstable_create (unat num_entries))
             \<lparr>sst_num_entries := num_entries, sst_index := map Some ixs\<rparr>) }"

text \<open>The outer option is undefined behaviour; the inner one is the null result for a corrupted entry.\<close>

definition racs_memtable_entry_read :: "bytes \<Rightarrow> nat \<Rightarrow> racs_memtable_entry option option" where
  "racs_memtable_entry_read buf offset =
     do { (k0, offset) \<leftarrow> racs_read_uint64 buf offset;
          (k1, offset) \<leftarrow> racs_read_uint64 buf offset;
          (lsn, offset) \<leftarrow> racs_read_uint64 buf offset;
          (chk, offset) \<leftarrow> racs_read_uint32 buf offset;
          (bsz, offset) \<leftarrow> racs_read_uint16 buf offset;
          fl \<leftarrow> read_byte buf offset;
          blk \<leftarrow> read_bin buf (offset + 1) (unat bsz);
          Some (if crc32c_of blk \<noteq> chk then None
                else Some \<lparr>e_key = (k0, k1), e_lsn = lsn, e_checksum = chk, e_block_size = bsz,
                           e_flags = fl, e_block = blk\<rparr>) }"

section \<open>The layout\<close>

definition entry_bytes :: "racs_memtable_entry \<Rightarrow> bytes" where
  "entry_bytes e = le_bytes 8 (fst (e_key e)) @ le_bytes 8 (snd (e_key e)) @ le_bytes 8 (e_lsn e) @
     le_bytes 4 (e_checksum e) @ le_bytes 2 (e_block_size e) @ [e_flags e] @ e_block e"

definition index_bytes :: "racs_sstable_index_entry \<Rightarrow> bytes" where
  "index_bytes ix = le_bytes 8 (fst (ix_key ix)) @ le_bytes 8 (snd (ix_key ix)) @ le_bytes 8 (ix_offset ix)"

definition entry_wf :: "racs_memtable_entry \<Rightarrow> bool" where
  "entry_wf e \<longleftrightarrow> length (e_block e) = unat (e_block_size e)"

fun index_from :: "nat \<Rightarrow> racs_memtable_entry list \<Rightarrow> racs_sstable_index_entry list" where
  "index_from off [] = []"
| "index_from off (e # es) = racs_sstable_index_entry_update e off # index_from (off + length (entry_bytes e)) es"

definition body_bytes :: "racs_memtable_entry list \<Rightarrow> bytes" where
  "body_bytes es = concat (map entry_bytes es)"

definition table_index_bytes :: "racs_memtable_entry list \<Rightarrow> bytes" where
  "table_index_bytes es = concat (map index_bytes (index_from RACS_HEADER_SIZE es))"

definition file_size :: "racs_memtable_entry list \<Rightarrow> nat" where
  "file_size es = RACS_HEADER_SIZE + length (body_bytes es) + RACS_INDEX_ENTRY_SIZE * length es + RACS_TRAILER_SIZE"

text \<open>The segment file of a list of entries.\<close>

definition sst_bytes :: "racs_memtable_entry list \<Rightarrow> bytes" where
  "sst_bytes es =
     le_bytes 8 (of_nat (file_size es) :: racs_uint64) @ le_bytes 4 RACS_VERSION @ le_bytes 4 (0 :: racs_uint32) @
     body_bytes es @ table_index_bytes es @ le_bytes 2 (of_nat (length es) :: racs_uint16)"

lemma length_index_from [simp]: "length (index_from off es) = length es"
  by (induction es arbitrary: off) auto

lemma length_index_bytes [simp]: "length (index_bytes ix) = 24"
  by (simp add: index_bytes_def)

lemma length_concat_index: "length (concat (map index_bytes ixs)) = 24 * length ixs"
  by (induction ixs) auto

lemma length_entry_bytes: "length (entry_bytes e) = 31 + length (e_block e)"
  by (simp add: entry_bytes_def)

lemma body_bytes_simps [simp]:
  "body_bytes [] = []" "body_bytes (e # es) = entry_bytes e @ body_bytes es"
  by (simp_all add: body_bytes_def)

lemma length_sst_bytes: "length (sst_bytes es) = file_size es"
  by (simp add: sst_bytes_def file_size_def table_index_bytes_def length_concat_index sst_sizes)

section \<open>Writing fills the buffer from the front\<close>

lemma patch_at: "off = length p \<Longrightarrow> patch off d (p @ r) = (p @ d) @ drop (length d) r"
  by (simp add: patch_def)

lemma write_at:
  assumes "off = length p"
  shows "8 \<le> length r \<Longrightarrow> racs_write_uint64 (p @ r) w8 off = Some ((p @ le_bytes 8 w8) @ drop 8 r, off + 8)"
    and "4 \<le> length r \<Longrightarrow> racs_write_uint32 (p @ r) w4 off = Some ((p @ le_bytes 4 w4) @ drop 4 r, off + 4)"
    and "2 \<le> length r \<Longrightarrow> racs_write_uint16 (p @ r) w2 off = Some ((p @ le_bytes 2 w2) @ drop 2 r, off + 2)"
    and "n = int (length d) \<Longrightarrow> length d \<le> length r \<Longrightarrow>
      racs_write_bin (p @ r) d n off = Some ((p @ d) @ drop (length d) r, off + length d)"
  using assms
  by (simp_all add: u64.write_eq u32.write_eq u16.write_eq racs_write_bin_full patch_at del: append_assoc)

lemma entry_write_at:
  assumes "entry_wf e" "off = length p" "length (entry_bytes e) \<le> length r"
  shows "racs_memtable_entry_write (p @ r) e off =
    Some ((p @ entry_bytes e) @ drop (length (entry_bytes e)) r, off + length (entry_bytes e))"
proof -
  let ?k0 = "le_bytes 8 (fst (e_key e))" and ?k1 = "le_bytes 8 (snd (e_key e))" and ?l = "le_bytes 8 (e_lsn e)"
    and ?c = "le_bytes 4 (e_checksum e)" and ?s = "le_bytes 2 (e_block_size e)"
  have len: "31 + length (e_block e) \<le> length r" using assms(3) by (simp add: length_entry_bytes)
  have 1: "racs_write_uint64 (p @ r) (fst (e_key e)) off = Some ((p @ ?k0) @ drop 8 r, off + 8)"
    using assms len by (intro write_at) auto
  have 2: "racs_write_uint64 ((p @ ?k0) @ drop 8 r) (snd (e_key e)) (off + 8) =
      Some (((p @ ?k0) @ ?k1) @ drop 8 (drop 8 r), off + 8 + 8)"
    using assms len by (intro write_at) auto
  have 3: "racs_write_uint64 (((p @ ?k0) @ ?k1) @ drop 8 (drop 8 r)) (e_lsn e) (off + 8 + 8) =
      Some ((((p @ ?k0) @ ?k1) @ ?l) @ drop 8 (drop 8 (drop 8 r)), off + 8 + 8 + 8)"
    using assms len by (intro write_at) auto
  have 4: "racs_write_uint32 ((((p @ ?k0) @ ?k1) @ ?l) @ drop 8 (drop 8 (drop 8 r))) (e_checksum e) (off + 8 + 8 + 8) =
      Some (((((p @ ?k0) @ ?k1) @ ?l) @ ?c) @ drop 4 (drop 8 (drop 8 (drop 8 r))), off + 8 + 8 + 8 + 4)"
    using assms len by (intro write_at) auto
  have 5: "racs_write_uint16 (((((p @ ?k0) @ ?k1) @ ?l) @ ?c) @ drop 4 (drop 8 (drop 8 (drop 8 r))))
      (e_block_size e) (off + 8 + 8 + 8 + 4) =
      Some ((((((p @ ?k0) @ ?k1) @ ?l) @ ?c) @ ?s) @ drop 2 (drop 4 (drop 8 (drop 8 (drop 8 r)))),
        off + 8 + 8 + 8 + 4 + 2)"
    using assms len by (intro write_at) auto
  have 6: "racs_write_bin ((((((p @ ?k0) @ ?k1) @ ?l) @ ?c) @ ?s) @ drop 2 (drop 4 (drop 8 (drop 8 (drop 8 r)))))
      [e_flags e] 1 (off + 8 + 8 + 8 + 4 + 2) =
      Some (((((((p @ ?k0) @ ?k1) @ ?l) @ ?c) @ ?s) @ [e_flags e]) @
        drop (length [e_flags e]) (drop 2 (drop 4 (drop 8 (drop 8 (drop 8 r))))), off + 8 + 8 + 8 + 4 + 2 + length [e_flags e])"
    using assms len by (intro write_at) auto
  have 7: "racs_write_bin (((((((p @ ?k0) @ ?k1) @ ?l) @ ?c) @ ?s) @ [e_flags e]) @
        drop (length [e_flags e]) (drop 2 (drop 4 (drop 8 (drop 8 (drop 8 r))))))
      (e_block e) (int (unat (e_block_size e))) (off + 8 + 8 + 8 + 4 + 2 + length [e_flags e]) =
      Some ((((((((p @ ?k0) @ ?k1) @ ?l) @ ?c) @ ?s) @ [e_flags e]) @ e_block e) @
        drop (length (e_block e)) (drop (length [e_flags e]) (drop 2 (drop 4 (drop 8 (drop 8 (drop 8 r)))))),
        off + 8 + 8 + 8 + 4 + 2 + length [e_flags e] + length (e_block e))"
    using assms(1,2) len by (intro write_at) (auto simp: entry_wf_def)
  show ?thesis
    unfolding racs_memtable_entry_write_def 1 bind.simps prod.case 2 3 4 5 6 7
    by (simp add: entry_bytes_def add.commute add.left_commute)
qed

lemma index_entry_write_at:
  assumes "off = length p" "24 \<le> length r"
  shows "racs_write_index_entry (p @ r) ix off = Some ((p @ index_bytes ix) @ drop 24 r, off + 24)"
proof -
  let ?k0 = "le_bytes 8 (fst (ix_key ix))" and ?k1 = "le_bytes 8 (snd (ix_key ix))"
  have 1: "racs_write_uint64 (p @ r) (fst (ix_key ix)) off = Some ((p @ ?k0) @ drop 8 r, off + 8)"
    using assms by (intro write_at) auto
  have 2: "racs_write_uint64 ((p @ ?k0) @ drop 8 r) (snd (ix_key ix)) (off + 8) =
      Some (((p @ ?k0) @ ?k1) @ drop 8 (drop 8 r), off + 8 + 8)"
    using assms by (intro write_at) auto
  have 3: "racs_write_uint64 (((p @ ?k0) @ ?k1) @ drop 8 (drop 8 r)) (ix_offset ix) (off + 8 + 8) =
      Some ((((p @ ?k0) @ ?k1) @ le_bytes 8 (ix_offset ix)) @ drop 8 (drop 8 (drop 8 r)), off + 8 + 8 + 8)"
    using assms by (intro write_at) auto
  show ?thesis
    unfolding racs_write_index_entry_def 1 bind.simps prod.case 2 3 by (simp add: index_bytes_def)
qed

lemma entries_write_at:
  "\<forall>e\<in>set es. entry_wf e \<Longrightarrow> off = length p \<Longrightarrow> length (body_bytes es) \<le> length r \<Longrightarrow>
   memtable_entries_write (p @ r) es off =
     Some ((p @ body_bytes es) @ drop (length (body_bytes es)) r, index_from off es, off + length (body_bytes es))"
proof (induction es arbitrary: p r off)
  case Nil
  then show ?case by simp
next
  case (Cons e es)
  then have w: "racs_memtable_entry_write (p @ r) e off =
      Some ((p @ entry_bytes e) @ drop (length (entry_bytes e)) r, off + length (entry_bytes e))"
    by (intro entry_write_at) auto
  have IH: "memtable_entries_write ((p @ entry_bytes e) @ drop (length (entry_bytes e)) r) es (off + length (entry_bytes e)) =
      Some (((p @ entry_bytes e) @ body_bytes es) @ drop (length (body_bytes es)) (drop (length (entry_bytes e)) r),
        index_from (off + length (entry_bytes e)) es, off + length (entry_bytes e) + length (body_bytes es))"
    using Cons.prems by (intro Cons.IH) auto
  show ?case
    unfolding memtable_entries_write.simps Let_def w bind.simps prod.case IH
    by (simp add: add.commute add.left_commute)
qed

lemma index_write_at:
  "off = length p \<Longrightarrow> 24 * length ixs \<le> length r \<Longrightarrow>
   index_entries_loop (p @ r) ixs off =
     Some ((p @ concat (map index_bytes ixs)) @ drop (24 * length ixs) r, off + 24 * length ixs)"
proof (induction ixs arbitrary: p r off)
  case Nil
  then show ?case by simp
next
  case (Cons ix ixs)
  then have w: "racs_write_index_entry (p @ r) ix off = Some ((p @ index_bytes ix) @ drop 24 r, off + 24)"
    by (intro index_entry_write_at) auto
  have IH: "index_entries_loop ((p @ index_bytes ix) @ drop 24 r) ixs (off + 24) =
      Some (((p @ index_bytes ix) @ concat (map index_bytes ixs)) @ drop (24 * length ixs) (drop 24 r),
        off + 24 + 24 * length ixs)"
    using Cons.prems by (intro Cons.IH) auto
  show ?case
    unfolding index_entries_loop.simps w bind.simps prod.case IH by (simp add: add.commute)
qed

lemma memtable_file_eq:
  assumes wf: "\<forall>e\<in>set es. entry_wf e" and len: "file_size es \<le> length buf"
  shows "memtable_file buf es = Some (sst_bytes es)"
proof -
  define h r where "h = take 16 buf" and "r = drop 16 buf"
  have buf: "buf = h @ r" and h: "length h = 16" and r: "length r = length buf - 16"
    using len by (auto simp: h_def r_def file_size_def sst_sizes)
  let ?b = "body_bytes es" and ?i = "concat (map index_bytes (index_from 16 es))"
    and ?n = "of_nat (length es) :: racs_uint16"
  have room: "length ?b + 24 * length es + 2 \<le> length r" using len r by (simp add: file_size_def sst_sizes)
  let ?r1 = "drop (length ?b) r"
  let ?r2 = "drop (24 * length es) ?r1"
  have 1: "racs_memtable_to_sstable buf es = Some ((h @ ?b) @ ?r1, index_from 16 es, 16 + length ?b)"
    unfolding racs_memtable_to_sstable_def buf using entries_write_at [OF wf, of 16 h r] h room
    by (simp add: sst_sizes)
  have 2: "index_entries_loop ((h @ ?b) @ ?r1) (index_from 16 es) (16 + length ?b) =
      Some (((h @ ?b) @ ?i) @ ?r2, 16 + length ?b + 24 * length es)"
    using index_write_at [of "16 + length ?b" "h @ ?b" "index_from 16 es" ?r1] h room by simp
  have 3: "racs_write_uint16 (((h @ ?b) @ ?i) @ ?r2) ?n (16 + length ?b + 24 * length es) =
      Some ((((h @ ?b) @ ?i) @ le_bytes 2 ?n) @ drop 2 ?r2, 16 + length ?b + 24 * length es + 2)"
    using h room by (intro write_at) (auto simp: length_concat_index)
  define q where "q = ?b @ ?i @ le_bytes 2 ?n"
  have fs: "16 + length ?b + 24 * length es + 2 = file_size es" "length q = file_size es - 16"
    by (simp_all add: file_size_def sst_sizes q_def length_concat_index)
  have "racs_sstable_write (h @ q @ drop 2 ?r2) (file_size es) = Some (sst_bytes es)"
  proof -
    let ?z = "q @ drop 2 ?r2"
    let ?fs = "of_nat (file_size es) :: racs_uint64"
    have a: "racs_write_uint64 ([] @ h @ ?z) ?fs 0 =
        Some (([] @ le_bytes 8 ?fs) @ drop 8 (h @ ?z), 0 + 8)"
      using h by (intro write_at) auto
    have b: "racs_write_uint32 (([] @ le_bytes 8 ?fs) @ drop 8 (h @ ?z)) RACS_VERSION 8 =
        Some ((([] @ le_bytes 8 ?fs) @ le_bytes 4 RACS_VERSION) @ drop 4 (drop 8 (h @ ?z)), 8 + 4)"
      using h by (intro write_at) auto
    have c: "racs_write_uint32 ((([] @ le_bytes 8 ?fs) @ le_bytes 4 RACS_VERSION) @
          drop 4 (drop 8 (h @ ?z))) 0 12 =
        Some (((([] @ le_bytes 8 ?fs) @ le_bytes 4 RACS_VERSION) @ le_bytes 4 (0 :: racs_uint32)) @
          drop 4 (drop 4 (drop 8 (h @ ?z))), 12 + 4)"
      using h by (intro write_at) auto
    have "drop 4 (drop 4 (drop 8 (h @ ?z))) = ?z" using h by simp
    then have "sst_bytes es @ drop 2 ?r2 =
        ((([] @ le_bytes 8 (of_nat (file_size es) :: racs_uint64)) @ le_bytes 4 RACS_VERSION) @ le_bytes 4 (0 :: racs_uint32)) @
          drop 4 (drop 4 (drop 8 (h @ ?z)))"
      by (simp add: sst_bytes_def q_def table_index_bytes_def sst_sizes)
    then show ?thesis
      using a b c read_bin_append [of 0 "[]" "file_size es" "sst_bytes es" "drop 2 ?r2"]
      by (simp add: racs_sstable_write_def length_sst_bytes)
  qed
  then show ?thesis
    unfolding memtable_file_def racs_sstable_index_entries_write_def 1 bind.simps prod.case 2 length_index_from 3 fs(1)
    by (simp add: q_def)
qed

section \<open>Reading back\<close>

definition entry_ok :: "racs_memtable_entry \<Rightarrow> bool" where
  "entry_ok e \<longleftrightarrow> crc32c_of (e_block e) = e_checksum e"

lemma entry_read_at:
  assumes "entry_wf e" "off = length p"
  shows "racs_memtable_entry_read (p @ entry_bytes e @ q) off = Some (if entry_ok e then Some e else None)"
proof -
  let ?k0 = "le_bytes 8 (fst (e_key e))" and ?k1 = "le_bytes 8 (snd (e_key e))" and ?l = "le_bytes 8 (e_lsn e)"
    and ?c = "le_bytes 4 (e_checksum e)" and ?s = "le_bytes 2 (e_block_size e)" and ?b = "p @ entry_bytes e @ q"
  have 1: "racs_read_uint64 ?b off = Some (fst (e_key e), off + 8)"
    using assms u64.read_append [of off p] by (simp add: entry_bytes_def)
  have 2: "racs_read_uint64 ?b (off + 8) = Some (snd (e_key e), off + 8 + 8)"
    using assms u64.read_append [of "off + 8" "p @ ?k0"] by (simp add: entry_bytes_def)
  have 3: "racs_read_uint64 ?b (off + 8 + 8) = Some (e_lsn e, off + 8 + 8 + 8)"
    using assms u64.read_append [of "off + 8 + 8" "p @ ?k0 @ ?k1"] by (simp add: entry_bytes_def)
  have 4: "racs_read_uint32 ?b (off + 8 + 8 + 8) = Some (e_checksum e, off + 8 + 8 + 8 + 4)"
    using assms u32.read_append [of "off + 8 + 8 + 8" "p @ ?k0 @ ?k1 @ ?l"] by (simp add: entry_bytes_def)
  have 5: "racs_read_uint16 ?b (off + 8 + 8 + 8 + 4) = Some (e_block_size e, off + 8 + 8 + 8 + 4 + 2)"
    using assms u16.read_append [of "off + 8 + 8 + 8 + 4" "p @ ?k0 @ ?k1 @ ?l @ ?c"]
    by (simp add: entry_bytes_def)
  have 6: "read_byte ?b (off + 8 + 8 + 8 + 4 + 2) = Some (e_flags e)"
    using assms read_byte_append [of "off + 8 + 8 + 8 + 4 + 2" "p @ ?k0 @ ?k1 @ ?l @ ?c @ ?s"]
    by (simp add: entry_bytes_def)
  have 7: "read_bin ?b (off + 8 + 8 + 8 + 4 + 2 + 1) (unat (e_block_size e)) = Some (e_block e)"
    using assms read_bin_append [of "off + 8 + 8 + 8 + 4 + 2 + 1" "p @ ?k0 @ ?k1 @ ?l @ ?c @ ?s @ [e_flags e]"
        "unat (e_block_size e)" "e_block e" q]
    by (simp add: entry_bytes_def entry_wf_def)
  show ?thesis
    unfolding racs_memtable_entry_read_def 1 bind.simps prod.case 2 3 4 5 6 7
    by (simp add: entry_ok_def)
qed

lemma index_read_at:
  "off = length p \<Longrightarrow> n = length ixs \<Longrightarrow>
   index_entries_read (p @ concat (map index_bytes ixs) @ q) n off = Some ixs"
proof (induction ixs arbitrary: p off n)
  case Nil
  then show ?case by simp
next
  case (Cons ix ixs)
  let ?b = "p @ concat (map index_bytes (ix # ixs)) @ q"
  let ?k0 = "le_bytes 8 (fst (ix_key ix))" and ?k1 = "le_bytes 8 (snd (ix_key ix))"
  have 1: "racs_read_uint64 ?b off = Some (fst (ix_key ix), off + 8)"
    using Cons.prems u64.read_append [of off p] by (simp add: index_bytes_def)
  have 2: "racs_read_uint64 ?b (off + 8) = Some (snd (ix_key ix), off + 8 + 8)"
    using Cons.prems u64.read_append [of "off + 8" "p @ ?k0"] by (simp add: index_bytes_def)
  have 3: "racs_read_uint64 ?b (off + 8 + 8) = Some (ix_offset ix, off + 8 + 8 + 8)"
    using Cons.prems u64.read_append [of "off + 8 + 8" "p @ ?k0 @ ?k1"] by (simp add: index_bytes_def)
  have IH: "index_entries_read ?b (length ixs) (off + 8 + 8 + 8) = Some ixs"
    using Cons.IH [of "off + 8 + 8 + 8" "p @ index_bytes ix" "length ixs"] Cons.prems by simp
  obtain m where n: "n = Suc m" "m = length ixs" using Cons.prems by simp
  show ?case
    unfolding n index_entries_read.simps 1 bind.simps prod.case 2 3 IH by simp
qed

lemma block_length: "entry_wf e \<Longrightarrow> length (e_block e) \<le> 65535"
  using unsigned_less [of "e_block_size e", where 'a = nat] by (simp add: entry_wf_def)

lemma length_body_bound: "\<forall>e\<in>set es. entry_wf e \<Longrightarrow> length (body_bytes es) \<le> length es * 65566"
proof (induction es)
  case (Cons e es)
  then show ?case using block_length [of e] by (simp add: length_entry_bytes)
qed simp

lemma file_size_buffer:
  "\<forall>e\<in>set es. entry_wf e \<Longrightarrow> memtable_buffer_size (length es) = Some n \<Longrightarrow> file_size es \<le> n"
  using length_body_bound [of es]
  by (auto simp: file_size_def memtable_buffer_size_def sst_sizes Let_def split: if_splits)

lemma memtable_buffer_size_iff: "(\<exists>n. memtable_buffer_size k = Some n) \<longleftrightarrow> k \<le> 32740"
  by (auto simp: memtable_buffer_size_def sst_sizes Let_def)

lemma read_in_memory_sst:
  assumes "length es < 2 ^ 16"
  shows "racs_sstable_read_in_memory (sst_bytes es) (file_size es) =
    Some \<lparr>sst_size = None, sst_data = None, sst_num_entries = of_nat (length es),
      sst_index = map Some (index_from RACS_HEADER_SIZE es)\<rparr>"
proof -
  let ?n = "of_nat (length es) :: racs_uint16"
  let ?h = "le_bytes 8 (of_nat (file_size es) :: racs_uint64) @ le_bytes 4 RACS_VERSION @ le_bytes 4 (0 :: racs_uint32)"
  have n: "unat ?n = length es" using assms by (simp add: unsigned_of_nat take_bit_nat_eq_self)
  have fs: "file_size es = 16 + length (body_bytes es) + 24 * length es + 2" by (simp add: file_size_def sst_sizes)
  have "read_bin (sst_bytes es) (file_size es - 2) 2 = Some (le_bytes 2 ?n)"
    using read_bin_append_last [of "file_size es - 2" "?h @ body_bytes es @ table_index_bytes es" 2 "le_bytes 2 ?n"]
    by (simp add: sst_bytes_def fs table_index_bytes_def length_concat_index)
  moreover have "index_entries_read (sst_bytes es) (length es) (16 + length (body_bytes es)) =
      Some (index_from RACS_HEADER_SIZE es)"
    using index_read_at [of "16 + length (body_bytes es)" "?h @ body_bytes es" "length es"
        "index_from RACS_HEADER_SIZE es" "le_bytes 2 ?n"]
    by (simp add: sst_bytes_def table_index_bytes_def)
  moreover have "file_size es - length es * 24 - 2 = 16 + length (body_bytes es)" "length es * 24 + 2 \<le> file_size es"
      "2 \<le> file_size es" by (simp_all add: fs)
  ultimately show ?thesis
    using n by (simp add: racs_sstable_read_in_memory_def sst_sizes racs_sstable_create_def Let_def)
qed

lemma index_nth:
  "i < length es \<Longrightarrow> index_from off es ! i =
     racs_sstable_index_entry_update (es ! i) (off + length (body_bytes (take i es)))"
proof (induction es arbitrary: off i)
  case Nil
  then show ?case by simp
next
  case (Cons e es)
  then show ?case by (cases i) (auto simp: add.assoc)
qed

lemma body_split: "i < length es \<Longrightarrow>
   body_bytes es = body_bytes (take i es) @ entry_bytes (es ! i) @ body_bytes (drop (Suc i) es)"
  unfolding body_bytes_def
  by (subst id_take_nth_drop [of i es]) simp_all

lemma entry_read_indexed:
  assumes wf: "\<forall>e\<in>set es. entry_wf e" and n: "length es < 2 ^ 16" and i: "i < length es"
  shows "racs_memtable_entry_read (sst_bytes es) (unat (ix_offset (index_from RACS_HEADER_SIZE es ! i))) =
    Some (if entry_ok (es ! i) then Some (es ! i) else None)"
proof -
  let ?h = "le_bytes 8 (of_nat (file_size es) :: racs_uint64) @ le_bytes 4 RACS_VERSION @ le_bytes 4 (0 :: racs_uint32)"
  let ?p = "?h @ body_bytes (take i es)"
  have "length (body_bytes (take i es)) \<le> length (take i es) * 65566"
    using wf by (intro length_body_bound) (auto dest: in_set_takeD)
  also have "\<dots> \<le> 65535 * 65566" using n i by (intro mult_le_mono) auto
  finally have "RACS_HEADER_SIZE + length (body_bytes (take i es)) < 2 ^ 64" by (simp add: sst_sizes)
  then have "unat (of_nat (RACS_HEADER_SIZE + length (body_bytes (take i es))) :: racs_uint64) =
      RACS_HEADER_SIZE + length (body_bytes (take i es))"
    by (simp only: unsigned_of_nat len_num1 len_bit0 take_bit_nat_eq_self_iff)
       (simp add: take_bit_nat_eq_self)
  then have off: "unat (ix_offset (index_from RACS_HEADER_SIZE es ! i)) = length ?p"
    using i by (simp add: index_nth racs_sstable_index_entry_update_def sst_sizes)
  have "sst_bytes es = ?p @ entry_bytes (es ! i) @ body_bytes (drop (Suc i) es) @ table_index_bytes es @
      le_bytes 2 (of_nat (length es) :: racs_uint16)"
    using body_split [OF i] by (simp add: sst_bytes_def)
  with entry_read_at [of "es ! i" _ ?p] off wf i show ?thesis by simp
qed

text \<open>
  C26: Writing a table stays inside its buffer: the size computation of \<open>racs_memtable_write\<close> does not
  overflow for at most 32740 entries, and for every list of that many entries with 16-bit block sizes
  the buffer of the computed size is large enough for every store, whatever it held before; the file
  is exactly header, entries, index and trailer. From 32741 entries on the computation overflows.
\<close>

theorem memtable_file_in_bounds:
  assumes "\<forall>e\<in>set es. entry_wf e"
  shows "if length es \<le> 32740
    then \<exists>n. memtable_buffer_size (length es) = Some n \<and>
      (\<forall>buf. length buf = n \<longrightarrow> memtable_file buf es = Some (sst_bytes es))
    else memtable_buffer_size (length es) = None"
proof (cases "length es \<le> 32740")
  case True
  then obtain n where n: "memtable_buffer_size (length es) = Some n"
    using memtable_buffer_size_iff by blast
  then show ?thesis using True memtable_file_eq [OF assms] file_size_buffer [OF assms] by auto
next
  case False
  then show ?thesis using memtable_buffer_size_iff [of "length es"]
    by (cases "memtable_buffer_size (length es)") auto
qed

definition example_entry :: "racs_uint64 \<Rightarrow> bytes \<Rightarrow> racs_memtable_entry" where
  "example_entry t b = \<lparr>e_key = (7, t), e_lsn = t, e_checksum = crc32c_of b, e_block_size = of_nat (length b),
     e_flags = 0, e_block = b\<rparr>"

theorem memtable_file_in_bounds_witness:
  "\<exists>n. memtable_buffer_size 2 = Some n \<and>
    memtable_file (replicate n 255) [example_entry 1 [1, 2], example_entry 2 []] =
      Some (sst_bytes [example_entry 1 [1, 2], example_entry 2 []])"
proof -
  have "\<forall>e\<in>set [example_entry 1 [1, 2], example_entry 2 []]. entry_wf e"
    by (simp add: entry_wf_def example_entry_def)
  moreover have two: "length [example_entry 1 [1, 2], example_entry 2 []] = 2" by simp
  ultimately show ?thesis
    using memtable_file_in_bounds [of "[example_entry 1 [1, 2], example_entry 2 []]"] unfolding two by auto
qed

text \<open>
  C12: A segment file gives back the table it was written from: the size in its header is its length, the
  reader finds one index entry per table entry, and reading at the indexed positions returns every
  entry with all its fields, in order, except that an entry whose block does not match its checksum
  is reported as corrupted.
\<close>

theorem sstable_roundtrip:
  assumes "\<forall>e\<in>set es. entry_wf e" "memtable_buffer_size (length es) = Some (length buf)"
  shows "\<exists>f t. memtable_file buf es = Some f \<and>
    racs_read_uint64 f 0 = Some (of_nat (length f), 8) \<and>
    racs_sstable_read_in_memory f (length f) = Some t \<and>
    unat (sst_num_entries t) = length es \<and>
    map (\<lambda>ix. racs_memtable_entry_read f (unat (ix_offset (the ix)))) (sst_index t) =
      map (\<lambda>e. Some (if crc32c_of (e_block e) = e_checksum e then Some e else None)) es"
proof -
  have f: "memtable_file buf es = Some (sst_bytes es)"
    using memtable_file_eq [OF assms(1)] file_size_buffer [OF assms] by simp
  have len: "length es < 2 ^ 16" using memtable_buffer_size_iff [of "length es"] assms(2) by auto
  have hd: "racs_read_uint64 (sst_bytes es) 0 = Some (of_nat (length (sst_bytes es)), 8)"
    unfolding length_sst_bytes by (simp add: sst_bytes_def u64.read_front)
  have n: "unat (of_nat (length es) :: racs_uint16) = length es"
    using len by (simp add: unsigned_of_nat take_bit_nat_eq_self)
  have entries: "map (\<lambda>ix. racs_memtable_entry_read (sst_bytes es) (unat (ix_offset (the ix))))
      (map Some (index_from RACS_HEADER_SIZE es)) =
      map (\<lambda>e. Some (if crc32c_of (e_block e) = e_checksum e then Some e else None)) es"
    using entry_read_indexed [OF assms(1) len] by (intro nth_equalityI) (simp_all add: entry_ok_def)
  show ?thesis
    using f hd n entries read_in_memory_sst [OF len] by (simp add: length_sst_bytes)
qed

theorem sstable_roundtrip_witness:
  "\<exists>f t. memtable_file (replicate 131200 0) [example_entry 1 [1, 2], example_entry 2 []] = Some f \<and>
    racs_read_uint64 f 0 = Some (of_nat (length f), 8) \<and>
    racs_sstable_read_in_memory f (length f) = Some t \<and>
    unat (sst_num_entries t) = length [example_entry 1 [1, 2], example_entry 2 []] \<and>
    map (\<lambda>ix. racs_memtable_entry_read f (unat (ix_offset (the ix)))) (sst_index t) =
      map (\<lambda>e. Some (if crc32c_of (e_block e) = e_checksum e then Some e else None))
        [example_entry 1 [1, 2], example_entry 2 []]"
  by (rule sstable_roundtrip)
     (simp_all add: entry_wf_def example_entry_def memtable_buffer_size_def sst_sizes)

end
