(* ===== verification/Wal.thy ===== *)
theory Wal
  imports Crc32c Text "HOL-Library.AList"
begin

text \<open>
  The write-ahead log of \<^verbatim>\<open>src/src/wal.c\<close> and the segment reader of \<^verbatim>\<open>src/src/wal_replay.c\<close>. The
  log directory is an association list from file names to files in the order of \<open>readdir\<close>; a file has
  its contents and the length of the prefix that the last \<open>fsync\<close> made durable. Creating, appending
  to and removing files succeeds. An append is one step. In the code only its second half (from the rotation
  check on) holds the mutex, and the number that the record carries is read before it; the appends come from the one
  thread of the event loop, so no two are ever under way together. With a second appending thread two records
  could get the same number, which this model does not represent.
\<close>

section \<open>Files\<close>

record os_file =
  f_data :: bytes
  f_durable :: nat

type_synonym os_dir = "(string \<times> os_file) list"

definition file_data :: "os_dir \<Rightarrow> string \<Rightarrow> bytes" where
  "file_data dir name = (case map_of dir name of None \<Rightarrow> [] | Some f \<Rightarrow> f_data f)"

text \<open>\<open>open\<close> with \<open>O_CREAT | O_APPEND\<close>, \<open>write\<close> and \<open>fsync\<close> on an open file.\<close>

definition os_open_append :: "string \<Rightarrow> os_dir \<Rightarrow> os_dir" where
  "os_open_append name dir =
     (case map_of dir name of None \<Rightarrow> dir @ [(name, \<lparr>f_data = [], f_durable = 0\<rparr>)] | Some _ \<Rightarrow> dir)"

definition os_write :: "string \<Rightarrow> bytes \<Rightarrow> os_dir \<Rightarrow> os_dir" where
  "os_write name d dir =
     (case map_of dir name of None \<Rightarrow> dir | Some f \<Rightarrow> AList.update name (f\<lparr>f_data := f_data f @ d\<rparr>) dir)"

definition os_fsync :: "string \<Rightarrow> os_dir \<Rightarrow> os_dir" where
  "os_fsync name dir =
     (case map_of dir name of None \<Rightarrow> dir
      | Some f \<Rightarrow> AList.update name (f\<lparr>f_durable := length (f_data f)\<rparr>) dir)"

section \<open>The log\<close>

definition RACS_WAL_SIZE_64MB :: nat where
  "RACS_WAL_SIZE_64MB = 1024 * 1024 * 64"

definition RACS_OP_CODE_APPEND :: racs_uint32 where
  "RACS_OP_CODE_APPEND = 0"

record racs_wal =
  wal_fd :: string
  wal_lsn :: racs_uint64
  wal_size :: nat

definition racs_wal_filename :: "racs_uint64 \<Rightarrow> string" where
  "racs_wal_filename segno = fmt_u0 20 segno @ ''.log''"

text \<open>The segment number in a directory entry, if the entry is the name of a segment.\<close>

definition segno_of_name :: "string \<Rightarrow> racs_uint64 option" where
  "segno_of_name d_name =
     (if length d_name \<noteq> 24 then None
      else if strcmp (drop 20 d_name) ''.log'' \<noteq> 0 then None
      else let (seg, end) = strtoull (take 20 d_name) in if end \<noteq> [] then None else Some seg)"

fun segno_loop :: "string list \<Rightarrow> bool \<Rightarrow> racs_uint64 \<Rightarrow> bool \<times> racs_uint64" where
  "segno_loop [] found max_seg = (found, max_seg)"
| "segno_loop (d_name # ents) found max_seg =
     (case segno_of_name d_name of
        None \<Rightarrow> segno_loop ents found max_seg
      | Some seg \<Rightarrow> if \<not> found \<or> max_seg < seg then segno_loop ents True seg
                    else segno_loop ents found max_seg)"

definition racs_wal_segno :: "os_dir \<Rightarrow> racs_uint64" where
  "racs_wal_segno dir =
     (let (found, max_seg) = segno_loop (map fst dir) False (- 1) in if found then max_seg else 0)"

definition racs_wal_segment_max_lsn :: "bytes \<Rightarrow> racs_uint64" where
  "racs_wal_segment_max_lsn d = (if length d < 8 then 0 else of_le_bytes (drop (length d - 8) d))"

text \<open>\<open>racs_wal_open\<close> and \<open>racs_wal_create\<close>.\<close>

definition racs_wal_open :: "os_dir \<Rightarrow> racs_wal \<Rightarrow> racs_wal \<times> os_dir" where
  "racs_wal_open dir wal =
     (let segno = racs_wal_segno dir;
          path = racs_wal_filename segno;
          path = (case map_of dir path of
                    Some f \<Rightarrow> if RACS_WAL_SIZE_64MB \<le> length (f_data f)
                              then racs_wal_filename (segno + 1) else path
                  | None \<Rightarrow> path)
      in (wal\<lparr>wal_fd := path\<rparr>, os_open_append path dir))"

definition racs_wal_init_lsn :: "os_dir \<Rightarrow> racs_wal \<Rightarrow> racs_wal" where
  "racs_wal_init_lsn dir wal = wal\<lparr>wal_lsn := racs_wal_segment_max_lsn (file_data dir (wal_fd wal))\<rparr>"

definition racs_wal_create :: "os_dir \<Rightarrow> racs_wal \<times> os_dir" where
  "racs_wal_create dir =
     (let (wal, dir) = racs_wal_open dir \<lparr>wal_fd = [], wal_lsn = 0, wal_size = 0\<rparr>
      in (racs_wal_init_lsn dir wal, dir))"

definition racs_wal_rotate :: "racs_wal \<times> os_dir \<Rightarrow> racs_wal \<times> os_dir" where
  "racs_wal_rotate s =
     (let (wal, dir) = s;
          segno = racs_wal_segno dir;
          path = racs_wal_filename (segno + 1);
          dir = os_fsync (wal_fd wal) dir
      in (wal\<lparr>wal_size := 0, wal_fd := path\<rparr>, os_open_append path dir))"

text \<open>The first half of \<open>racs_wal_append_\<close>: the record, built before the mutex is taken.\<close>

definition wal_record_buf :: "racs_uint32 \<Rightarrow> nat \<Rightarrow> bytes \<Rightarrow> racs_uint64 \<Rightarrow> (bytes \<times> nat) option" where
  "wal_record_buf op_code sz op lsn =
     do { let buf = replicate (24 + sz) 0;
          body \<leftarrow> read_bin op 0 sz;
          (buf, offset) \<leftarrow> racs_write_uint32 buf op_code 0;
          (buf, offset) \<leftarrow> racs_write_uint32 buf (crc32c_of body) offset;
          (buf, offset) \<leftarrow> racs_write_uint64 buf (of_nat sz) offset;
          (buf, offset) \<leftarrow> racs_write_bin buf op (int sz) offset;
          racs_write_uint64 buf lsn offset }"

text \<open>The second half, under the mutex. A zero \<open>racs_wal_fsync\<close> divides by zero.\<close>

definition wal_commit :: "int \<Rightarrow> bytes \<Rightarrow> nat \<Rightarrow> racs_wal \<times> os_dir \<Rightarrow> (racs_wal \<times> os_dir) option" where
  "wal_commit racs_wal_fsync buf offset s =
     do { let (wal, dir) = (if RACS_WAL_SIZE_64MB \<le> wal_size (fst s) + offset then racs_wal_rotate s else s);
          let dir = os_write (wal_fd wal) (take offset buf) dir;
          let wal = wal\<lparr>wal_size := wal_size wal + offset\<rparr>;
          let every = (word_of_int racs_wal_fsync :: racs_uint64);
          dir \<leftarrow> (if every = 0 then None
                  else Some (if wal_lsn wal mod every = 0 then os_fsync (wal_fd wal) dir else dir));
          Some (wal\<lparr>wal_lsn := wal_lsn wal + 1\<rparr>, dir) }"

definition racs_wal_append :: "int \<Rightarrow> racs_uint32 \<Rightarrow> nat \<Rightarrow> bytes \<Rightarrow> racs_wal \<times> os_dir
    \<Rightarrow> (racs_wal \<times> os_dir) option" where
  "racs_wal_append racs_wal_fsync op_code sz op s =
     do { (buf, offset) \<leftarrow> wal_record_buf op_code sz op (wal_lsn (fst s));
          wal_commit racs_wal_fsync buf offset s }"

section \<open>Checkpoint and truncation\<close>

definition racs_wal_checkpoint_lsn :: "os_dir \<Rightarrow> racs_uint64" where
  "racs_wal_checkpoint_lsn dir =
     (case map_of dir ''manifest'' of
        None \<Rightarrow> 0
      | Some f \<Rightarrow> if length (f_data f) < 8 then 0 else of_le_bytes (take 8 (f_data f)))"

text \<open>\<open>racs_memtable_write_lsn\<close> of \<^verbatim>\<open>src/src/memtable.c\<close>, which writes the manifest.\<close>

definition racs_memtable_write_lsn :: "racs_uint64 \<Rightarrow> os_dir \<Rightarrow> os_dir" where
  "racs_memtable_write_lsn lsn dir =
     AList.update ''manifest'' \<lparr>f_data = le_bytes 8 lsn, f_durable = 8\<rparr> dir"

definition wal_doomed :: "string \<Rightarrow> racs_uint64 \<Rightarrow> string \<times> os_file \<Rightarrow> bool" where
  "wal_doomed active_wal checkpoint_lsn nf \<longleftrightarrow>
     strcmp (fst nf) active_wal \<noteq> 0 \<and> strcmp (fst nf) ''manifest'' \<noteq> 0 \<and>
     racs_wal_segment_max_lsn (f_data (snd nf)) < checkpoint_lsn"

definition racs_wal_truncate :: "os_dir \<Rightarrow> os_dir" where
  "racs_wal_truncate dir =
     (let segno = racs_wal_segno dir;
          checkpoint_lsn = racs_wal_checkpoint_lsn dir;
          active_wal = racs_wal_filename segno
      in filter (\<lambda>nf. \<not> wal_doomed active_wal checkpoint_lsn nf) dir)"

section \<open>Reading segments\<close>

record racs_wal_entry =
  we_op_code :: racs_uint32
  we_checksum :: racs_uint32
  we_size :: racs_uint64
  we_op :: bytes
  we_lsn :: racs_uint64

definition racs_wal_entry_read :: "bytes \<Rightarrow> nat \<Rightarrow> (racs_wal_entry \<times> nat) option" where
  "racs_wal_entry_read buf offset =
     do { (opc, offset) \<leftarrow> racs_read_uint32 buf offset;
          (chk, offset) \<leftarrow> racs_read_uint32 buf offset;
          (sz, offset) \<leftarrow> racs_read_uint64 buf offset;
          op \<leftarrow> read_bin buf offset (unat sz);
          let offset = offset + unat sz;
          (lsn, offset) \<leftarrow> racs_read_uint64 buf offset;
          Some (\<lparr>we_op_code = opc, we_checksum = chk, we_size = sz, we_op = op, we_lsn = lsn\<rparr>, offset) }"

lemma wal_entry_read_progress:
  "racs_wal_entry_read buf offset = Some (e, offset') \<Longrightarrow> offset < offset' \<and> offset' \<le> length buf"
  by (auto simp: racs_wal_entry_read_def racs_read_uint32_def racs_read_uint64_def read_bin_def Let_def
      split: if_splits elim!: bind_eq_SomeE)

text \<open>The entries that the replay loop reads from a segment, in order; each with the position behind it.\<close>

function wal_entries :: "bytes \<Rightarrow> nat \<Rightarrow> (racs_wal_entry \<times> nat) list option" where
  "wal_entries buf offset =
     (if offset < length buf
      then (case racs_wal_entry_read buf offset of
              None \<Rightarrow> None
            | Some (e, offset') \<Rightarrow>
                (case wal_entries buf offset' of None \<Rightarrow> None | Some es \<Rightarrow> Some ((e, offset') # es)))
      else Some [])"
  by pat_completeness auto
termination
  by (relation "measure (\<lambda>(buf, offset). length buf - offset)") (auto dest!: wal_entry_read_progress)

declare wal_entries.simps [simp del]

section \<open>Records\<close>

definition wal_record :: "racs_uint32 \<Rightarrow> bytes \<Rightarrow> racs_uint64 \<Rightarrow> bytes" where
  "wal_record op_code op lsn =
     le_bytes 4 op_code @ le_bytes 4 (crc32c_of op) @ le_bytes 8 (of_nat (length op) :: racs_uint64) @ op @
     le_bytes 8 lsn"

lemma length_wal_record [simp]: "length (wal_record op_code op lsn) = 24 + length op"
  by (simp add: wal_record_def)

text \<open>Writing to a buffer whose first bytes are already written extends the written prefix.\<close>

lemma write_prefix:
  "off + length d \<le> length buf \<Longrightarrow> take (off + length d) (patch off d buf) = take off buf @ d"
  by (simp add: patch_def)

lemma wal_record_buf_eq:
  assumes "length op = sz"
  shows "wal_record_buf op_code sz op lsn = Some (wal_record op_code op lsn, 24 + sz)"
proof -
  let ?b0 = "replicate (24 + sz) 0 :: bytes"
  let ?b1 = "patch 0 (le_bytes 4 op_code) ?b0"
  let ?b2 = "patch 4 (le_bytes 4 (crc32c_of op)) ?b1"
  let ?b3 = "patch 8 (le_bytes 8 (of_nat sz :: racs_uint64)) ?b2"
  let ?b4 = "patch 16 op ?b3"
  let ?b5 = "patch (16 + sz) (le_bytes 8 lsn) ?b4"
  have len: "length ?b1 = 24 + sz" "length ?b2 = 24 + sz" "length ?b3 = 24 + sz" "length ?b4 = 24 + sz"
    "length ?b5 = 24 + sz" using assms by simp_all
  have "take 4 ?b1 = le_bytes 4 op_code" using write_prefix [of 0 "le_bytes 4 op_code" ?b0] by simp
  then have "take 8 ?b2 = le_bytes 4 op_code @ le_bytes 4 (crc32c_of op)"
    using write_prefix [of 4 "le_bytes 4 (crc32c_of op)" ?b1] len by simp
  then have "take 16 ?b3 = le_bytes 4 op_code @ le_bytes 4 (crc32c_of op) @ le_bytes 8 (of_nat sz :: racs_uint64)"
    using write_prefix [of 8 "le_bytes 8 (of_nat sz :: racs_uint64)" ?b2] len by simp
  then have "take (16 + sz) ?b4 = le_bytes 4 op_code @ le_bytes 4 (crc32c_of op) @
      le_bytes 8 (of_nat sz :: racs_uint64) @ op"
    using write_prefix [of 16 op ?b3] len assms by simp
  then have "take (24 + sz) ?b5 = wal_record op_code op lsn"
    using write_prefix [of "16 + sz" "le_bytes 8 lsn" ?b4] len assms
    by (simp add: wal_record_def add.commute)
  then have "?b5 = wal_record op_code op lsn" using len by (simp add: take_all)
  moreover have "read_bin op 0 sz = Some op" using assms by (simp add: read_bin_def slice_def)
  moreover have "racs_write_bin ?b3 op (int sz) 16 = Some (?b4, 16 + sz)"
    using assms len racs_write_bin_full [of ?b3 op 16] by simp
  ultimately show ?thesis
    using len by (simp add: wal_record_buf_def u32.write_eq u64.write_eq)
qed

definition record_entry :: "racs_uint32 \<Rightarrow> bytes \<Rightarrow> racs_uint64 \<Rightarrow> racs_wal_entry" where
  "record_entry op_code op lsn =
     \<lparr>we_op_code = op_code, we_checksum = crc32c_of op, we_size = of_nat (length op), we_op = op, we_lsn = lsn\<rparr>"

lemma entry_read_record:
  assumes "length op < 2 ^ 64"
  shows "racs_wal_entry_read (p @ wal_record op_code op lsn @ q) (length p) =
    Some (record_entry op_code op lsn, length p + 24 + length op)"
proof -
  let ?sz = "of_nat (length op) :: racs_uint64"
  let ?b = "p @ wal_record op_code op lsn @ q"
  have sz: "unat ?sz = length op" using assms by (simp add: unsigned_of_nat take_bit_nat_eq_self)
  have "racs_read_uint32 ?b (length p) = Some (op_code, length p + 4)"
    by (simp add: wal_record_def u32.read_append)
  moreover have "racs_read_uint32 ?b (length p + 4) = Some (crc32c_of op, length p + 8)"
    using u32.read_append [of "length p + 4" "p @ le_bytes 4 op_code"] by (simp add: wal_record_def)
  moreover have "racs_read_uint64 ?b (length p + 8) = Some (?sz, length p + 16)"
    using u64.read_append [of "length p + 8" "p @ le_bytes 4 op_code @ le_bytes 4 (crc32c_of op)"]
    by (simp add: wal_record_def)
  moreover have "read_bin ?b (length p + 16) (length op) = Some op"
    using read_bin_append [of "length p + 16" "p @ le_bytes 4 op_code @ le_bytes 4 (crc32c_of op) @ le_bytes 8 ?sz"
        "length op" op "le_bytes 8 lsn @ q"] by (simp add: wal_record_def)
  moreover have "racs_read_uint64 ?b (length p + 16 + length op) = Some (lsn, length p + 24 + length op)"
    using u64.read_append [of "length p + 16 + length op"
        "p @ le_bytes 4 op_code @ le_bytes 4 (crc32c_of op) @ le_bytes 8 ?sz @ op" lsn q]
    by (simp add: wal_record_def)
  ultimately show ?thesis
    by (simp add: racs_wal_entry_read_def sz record_entry_def Let_def)
qed

text \<open>A log of records \<open>(op_code, op, lsn)\<close> and what reading it back gives.\<close>

type_synonym wal_rec = "racs_uint32 \<times> bytes \<times> racs_uint64"

definition log_bytes :: "wal_rec list \<Rightarrow> bytes" where
  "log_bytes rs = concat (map (\<lambda>(c, op, lsn). wal_record c op lsn) rs)"

definition recs_wf :: "wal_rec list \<Rightarrow> bool" where
  "recs_wf rs \<longleftrightarrow> (\<forall>(c, op, lsn)\<in>set rs. length op < 2 ^ 64)"

lemma log_bytes_simps [simp]:
  "log_bytes [] = []" "log_bytes ((c, op, lsn) # rs) = wal_record c op lsn @ log_bytes rs"
  "log_bytes (rs @ rs') = log_bytes rs @ log_bytes rs'"
  by (simp_all add: log_bytes_def)

lemma wal_entries_log:
  "recs_wf rs \<Longrightarrow> map_option (map fst) (wal_entries (p @ log_bytes rs) (length p)) =
     Some (map (\<lambda>(c, op, lsn). record_entry c op lsn) rs)"
proof (induction rs arbitrary: p)
  case Nil
  then show ?case by (simp add: wal_entries.simps)
next
  case (Cons r rs)
  obtain c op lsn where r: "r = (c, op, lsn)" by (cases r) auto
  then have op: "length op < 2 ^ 64" and wf: "recs_wf rs" using Cons.prems by (auto simp: recs_wf_def)
  have IH: "map_option (map fst) (wal_entries (p @ log_bytes (r # rs)) (length p + 24 + length op)) =
      Some (map (\<lambda>(c, op, lsn). record_entry c op lsn) rs)"
    using Cons.IH [OF wf, of "p @ wal_record c op lsn"] r by (simp add: add.assoc)
  then obtain es where es: "wal_entries (p @ log_bytes (r # rs)) (length p + 24 + length op) = Some es"
    "map fst es = map (\<lambda>(c, op, lsn). record_entry c op lsn) rs" by auto
  with entry_read_record [OF op, of p c lsn "log_bytes rs"] r show ?case
    by (subst wal_entries.simps) simp
qed

section \<open>Segment names\<close>

lemma unat_less_10_20: "unat (n :: racs_uint64) < 10 ^ 20"
proof -
  have "unat n < 2 ^ 64" using unsigned_less [of n] by simp
  then show ?thesis by simp
qed

lemma length_segname [simp]: "length (fmt_u0 20 n) = 20"
  using length_pad0_nat [OF unat_less_10_20, of n] by (simp add: fmt_u0_def)

lemma segno_of_filename [simp]: "segno_of_name (racs_wal_filename n) = Some n"
  by (simp add: segno_of_name_def racs_wal_filename_def strtoull_fmt_u0 strcmp_order)

lemma filename_inject [simp]: "racs_wal_filename a = racs_wal_filename b \<longleftrightarrow> a = b"
  by (metis option.inject segno_of_filename)

lemma filename_not_manifest [simp]: "racs_wal_filename n \<noteq> ''manifest''" "segno_of_name ''manifest'' = None"
proof -
  have "length (racs_wal_filename n) \<noteq> length ''manifest''" by (simp add: racs_wal_filename_def)
  then show "racs_wal_filename n \<noteq> ''manifest''" by metis
qed (simp add: segno_of_name_def)

lemma filename_less: "racs_wal_filename a < racs_wal_filename b \<longleftrightarrow> a < b"
proof (cases "a = b")
  case True
  then show ?thesis by simp
next
  case False
  then have "fmt_u0 20 a \<noteq> fmt_u0 20 b"
    using filename_inject [of a b] by (auto simp: racs_wal_filename_def)
  then show ?thesis
    by (simp add: racs_wal_filename_def append_less_front)
       (simp add: fmt_u0_def pad0_order [OF unat_less_10_20 unat_less_10_20] word_less_nat_alt)
qed

text \<open>
  The log segments sort by number: \<open>strcmp\<close> on the zero-padded names is the order of the 64-bit
  segment numbers, so the sorted directory listing visits the segments oldest first.
\<close>

theorem wal_filename_order:
  "strcmp (racs_wal_filename a) (racs_wal_filename b) < 0 \<longleftrightarrow> a < b"
  by (simp add: strcmp_order filename_less)

section \<open>The log as a sequence of records\<close>

text \<open>
  The abstract state of the directory: the segments, oldest first, each with its number, the records
  that are durable and the records written behind them. Only the last segment has pending records.
\<close>

type_synonym seg = "racs_uint64 \<times> wal_rec list \<times> wal_rec list"

definition seg_file :: "seg \<Rightarrow> string \<times> os_file" where
  "seg_file s = (case s of (n, rd, rp) \<Rightarrow>
     (racs_wal_filename n, \<lparr>f_data = log_bytes (rd @ rp), f_durable = length (log_bytes rd)\<rparr>))"

definition segs :: "os_dir \<Rightarrow> os_dir" where
  "segs dir = filter (\<lambda>nf. fst nf \<noteq> ''manifest'') dir"

definition wal_inv :: "seg list \<Rightarrow> racs_wal \<times> os_dir \<Rightarrow> bool" where
  "wal_inv ss s \<longleftrightarrow> ss \<noteq> [] \<and> segs (snd s) = map seg_file ss \<and> distinct (map fst (snd s)) \<and>
     sorted_wrt (<) (map fst ss) \<and> wal_fd (fst s) = racs_wal_filename (fst (last ss)) \<and>
     (\<forall>(n, rd, rp)\<in>set (butlast ss). rp = [])"

definition seg_records :: "seg list \<Rightarrow> wal_rec list" where
  "seg_records ss = concat (map (\<lambda>(n, rd, rp). rd @ rp) ss)"

lemma segno_loop_found:
  "sorted_wrt (<) (m # List.map_filter segno_of_name names) \<Longrightarrow>
   segno_loop names True m = (True, last (m # List.map_filter segno_of_name names))"
proof (induction names arbitrary: m)
  case Nil
  then show ?case by (simp add: map_filter_simps)
next
  case (Cons x names)
  then show ?case by (cases "segno_of_name x") (auto simp: map_filter_simps)
qed

lemma segno_loop_start:
  "sorted_wrt (<) (List.map_filter segno_of_name names) \<Longrightarrow> List.map_filter segno_of_name names \<noteq> [] \<Longrightarrow>
   segno_loop names False m = (True, last (List.map_filter segno_of_name names))"
proof (induction names)
  case Nil
  then show ?case by (simp add: map_filter_simps)
next
  case (Cons x names)
  then show ?case
    using segno_loop_found by (cases "segno_of_name x") (simp_all add: map_filter_simps)
qed

lemma map_filter_segs:
  "List.map_filter segno_of_name (map fst dir) = List.map_filter segno_of_name (map fst (segs dir))"
  by (induction dir) (auto simp: segs_def map_filter_simps split: option.split)

lemma map_filter_seg_file: "List.map_filter segno_of_name (map (fst \<circ> seg_file) ss) = map fst ss"
  by (induction ss) (auto simp: seg_file_def map_filter_simps)

lemma wal_segno_inv: "wal_inv ss s \<Longrightarrow> racs_wal_segno (snd s) = fst (last ss)"
  using segno_loop_start [of "map fst (snd s)" "- 1"]
  by (simp add: wal_inv_def racs_wal_segno_def map_filter_segs map_filter_seg_file last_map)

text \<open>File operations seen on the segments.\<close>

lemma segs_update:
  assumes "distinct (map fst dir)" "segs dir = xs @ [(name, f)]" "name \<noteq> ''manifest''" "name \<notin> fst ` set xs"
  shows "segs (AList.update name g dir) = xs @ [(name, g)]" "map_of dir name = Some f"
    "map fst (AList.update name g dir) = map fst dir"
proof -
  have "(name, f) \<in> set (segs dir)" using assms(2) by simp
  then have "(name, f) \<in> set dir" by (simp add: segs_def)
  then show m: "map_of dir name = Some f" using assms(1) by simp
  have upd: "AList.update name g dir = map (\<lambda>(n, h). (n, if n = name then g else h)) dir"
    using assms(1) m
  proof (induction dir)
    case (Cons a dir)
    then show ?case by (cases a) (auto intro!: map_idI [symmetric] dest: map_of_SomeD simp: rev_image_eqI)
  qed simp
  have "segs (AList.update name g dir) = map (\<lambda>(n, h). (n, if n = name then g else h)) (segs dir)"
    unfolding upd segs_def by (induction dir) auto
  also have "map (\<lambda>(n, h). (n, if n = name then g else h)) xs = xs"
    by (rule map_idI) (use assms(4) in force)
  then have "map (\<lambda>(n, h). (n, if n = name then g else h)) (segs dir) = xs @ [(name, g)]"
    using assms(2) by simp
  finally show "segs (AList.update name g dir) = xs @ [(name, g)]" .
  show "map fst (AList.update name g dir) = map fst dir" unfolding upd by (induction dir) auto
qed

text \<open>The four effects on the files that an append is made of.\<close>

lemma wal_inv_last:
  assumes "wal_inv ss (wal, dir)"
  obtains ss0 n rd rp where "ss = ss0 @ [(n, rd, rp)]" "segs dir = map seg_file ss0 @ [seg_file (n, rd, rp)]"
    "wal_fd wal = racs_wal_filename n" "racs_wal_filename n \<notin> fst ` set (map seg_file ss0)"
    "\<forall>(k, r, p)\<in>set ss0. p = []" "distinct (map fst dir)"
proof -
  obtain ss0 x where ss: "ss = ss0 @ [x]" using assms by (cases ss rule: rev_cases) (auto simp: wal_inv_def)
  obtain n rd rp where x: "x = (n, rd, rp)" by (cases x) auto
  have "n \<notin> fst ` set ss0"
    using assms ss x by (auto simp: wal_inv_def sorted_wrt_append)
  then have "racs_wal_filename n \<notin> fst ` set (map seg_file ss0)"
    by (force simp: seg_file_def)
  with that ss x assms show ?thesis by (auto simp: wal_inv_def)
qed

lemma wal_inv_fsync:
  assumes "wal_inv (ss0 @ [(n, rd, rp)]) (wal, dir)"
  shows "wal_inv (ss0 @ [(n, rd @ rp, [])]) (wal, os_fsync (wal_fd wal) dir)"
proof -
  obtain s0 where s: "segs dir = map seg_file ss0 @ [seg_file (n, rd, rp)]" "wal_fd wal = racs_wal_filename n"
    "racs_wal_filename n \<notin> fst ` set (map seg_file ss0)" "distinct (map fst dir)"
    using wal_inv_last [OF assms] by auto
  let ?f = "snd (seg_file (n, rd, rp))"
  note u = segs_update [OF s(4) _ filename_not_manifest(1) s(3), of ?f]
  have "os_fsync (wal_fd wal) dir =
      AList.update (racs_wal_filename n) (snd (seg_file (n, rd @ rp, []))) dir"
    using u(2) s by (simp add: os_fsync_def seg_file_def)
  then show ?thesis
    using u(1,3) s assms by (simp add: wal_inv_def seg_file_def)
qed

lemma wal_inv_write:
  assumes "wal_inv (ss0 @ [(n, rd, rp)]) (wal, dir)"
  shows "wal_inv (ss0 @ [(n, rd, rp @ [(c, op, lsn)])]) (wal, os_write (wal_fd wal) (wal_record c op lsn) dir)"
proof -
  obtain s0 where s: "segs dir = map seg_file ss0 @ [seg_file (n, rd, rp)]" "wal_fd wal = racs_wal_filename n"
    "racs_wal_filename n \<notin> fst ` set (map seg_file ss0)" "distinct (map fst dir)"
    using wal_inv_last [OF assms] by auto
  let ?f = "snd (seg_file (n, rd, rp))"
  note u = segs_update [OF s(4) _ filename_not_manifest(1) s(3), of ?f]
  have "os_write (wal_fd wal) (wal_record c op lsn) dir =
      AList.update (racs_wal_filename n) (snd (seg_file (n, rd, rp @ [(c, op, lsn)]))) dir"
    using u(2) s by (simp add: os_write_def seg_file_def)
  then show ?thesis
    using u(1,3) s assms by (simp add: wal_inv_def seg_file_def)
qed

lemma wal_inv_rotate:
  assumes inv: "wal_inv (ss0 @ [(n, rd, rp)]) (wal, dir)" and n: "n < n + 1"
  shows "wal_inv (ss0 @ [(n, rd @ rp, []), (n + 1, [], [])]) (racs_wal_rotate (wal, dir))"
    and "wal_lsn (fst (racs_wal_rotate (wal, dir))) = wal_lsn wal" "wal_size (fst (racs_wal_rotate (wal, dir))) = 0"
proof -
  let ?dir = "os_fsync (wal_fd wal) dir"
  note f = wal_inv_fsync [OF inv]
  have segno: "racs_wal_segno dir = n" using wal_segno_inv [OF inv] by simp
  have new: "n + 1 \<notin> fst ` set (ss0 @ [(n, rd @ rp, [])])"
    using f n by (auto simp: wal_inv_def sorted_wrt_append image_iff dest: order.strict_trans)
  have "racs_wal_filename (n + 1) \<notin> fst ` set ?dir"
  proof
    assume "racs_wal_filename (n + 1) \<in> fst ` set ?dir"
    then have "racs_wal_filename (n + 1) \<in> fst ` set (segs ?dir)" by (force simp: segs_def)
    with f new show False by (force simp: wal_inv_def seg_file_def)
  qed
  then have open': "os_open_append (racs_wal_filename (n + 1)) ?dir =
      ?dir @ [seg_file (n + 1, [], [])]"
    by (simp add: os_open_append_def map_of_eq_None_iff [THEN iffD2] seg_file_def)
  have rot: "racs_wal_rotate (wal, dir) =
      (wal\<lparr>wal_size := 0, wal_fd := racs_wal_filename (n + 1)\<rparr>, ?dir @ [seg_file (n + 1, [], [])])"
    by (simp add: racs_wal_rotate_def segno open' Let_def)
  have "segs (?dir @ [seg_file (n + 1, [], [])]) = segs ?dir @ [seg_file (n + 1, [], [])]"
    by (simp add: segs_def seg_file_def)
  then show "wal_inv (ss0 @ [(n, rd @ rp, []), (n + 1, [], [])]) (racs_wal_rotate (wal, dir))"
    using f n new \<open>racs_wal_filename (n + 1) \<notin> fst ` set ?dir\<close> unfolding rot
    by (auto simp: wal_inv_def sorted_wrt_append butlast_append seg_file_def dest: order.strict_trans)
  show "wal_lsn (fst (racs_wal_rotate (wal, dir))) = wal_lsn wal" "wal_size (fst (racs_wal_rotate (wal, dir))) = 0"
    by (simp_all add: racs_wal_rotate_def Let_def)
qed

section \<open>Appending\<close>

definition pending :: "seg list \<Rightarrow> wal_rec list" where
  "pending ss = snd (snd (last ss))"

text \<open>At most as many records are pending as were written since the last number that forces an \<open>fsync\<close>.\<close>

definition pending_bound :: "racs_uint64 \<Rightarrow> seg list \<Rightarrow> racs_wal \<Rightarrow> bool" where
  "pending_bound every ss wal \<longleftrightarrow> length (pending ss) \<le> unat ((wal_lsn wal - 1) mod every)"

lemma mod_pred_step:
  fixes L every :: racs_uint64
  assumes "every \<noteq> 0" "L mod every \<noteq> 0"
  shows "Suc (unat ((L - 1) mod every)) \<le> unat (L mod every)"
proof -
  have "L \<noteq> 0" using assms by auto
  then have u: "unat L = Suc (unat (L - 1))" by (simp add: unat_minus_one unat_gt_0)
  have e: "0 < unat every" using assms(1) by (simp add: unat_gt_0)
  have "Suc (unat (L - 1)) mod unat every \<noteq> 0"
    using assms(2) u by (metis unat_mod_distrib unsigned_0 unsigned_word_eqI)
  then have "Suc (unat (L - 1)) mod unat every = Suc (unat (L - 1) mod unat every)"
    using e by (metis mod_Suc)
  with u show ?thesis by (simp add: unat_mod_distrib)
qed

lemma wal_append_step:
  assumes inv: "wal_inv ss (wal, dir)" and op: "length op < 2 ^ 64"
    and every: "(word_of_int k :: racs_uint64) \<noteq> 0" and seg: "fst (last ss) < fst (last ss) + 1"
    and pend: "pending_bound (word_of_int k) ss wal"
  obtains wal' dir' ss' where
    "racs_wal_append k c (length op) op (wal, dir) = Some (wal', dir')" "wal_inv ss' (wal', dir')"
    "seg_records ss' = seg_records ss @ [(c, op, wal_lsn wal)]" "wal_lsn wal' = wal_lsn wal + 1"
    "unat (fst (last ss')) \<le> Suc (unat (fst (last ss)))" "pending_bound (word_of_int k) ss' wal'"
proof -
  let ?e = "word_of_int k :: racs_uint64"
  let ?r = "(c, op, wal_lsn wal)"
  obtain ss0 n rd rp where ss: "ss = ss0 @ [(n, rd, rp)]"
    using wal_inv_last [OF inv] by metis
  define s1 where "s1 = (if RACS_WAL_SIZE_64MB \<le> wal_size wal + (24 + length op)
      then racs_wal_rotate (wal, dir) else (wal, dir))"
  obtain ss1 m rd1 rp1 where s1: "wal_inv (ss1 @ [(m, rd1, rp1)]) s1" "wal_lsn (fst s1) = wal_lsn wal"
      "seg_records (ss1 @ [(m, rd1, rp1)]) = seg_records ss" "unat m \<le> Suc (unat n)"
      "length rp1 \<le> length rp"
  proof (cases "RACS_WAL_SIZE_64MB \<le> wal_size wal + (24 + length op)")
    case True
    have "unat (n + 1) \<le> Suc (unat n)" using seg ss by (simp add: unat_word_ariths)
    with True that [of "ss0 @ [(n, rd @ rp, [])]" "n + 1" "[]" "[]"] wal_inv_rotate [of ss0 n rd rp wal dir] inv ss seg
    show ?thesis by (simp add: s1_def seg_records_def)
  next
    case False
    with that [of ss0 n rd rp] inv ss show ?thesis by (simp add: s1_def)
  qed
  obtain w1 d1 where s1': "s1 = (w1, d1)" by fastforce
  let ?d2 = "os_write (wal_fd w1) (wal_record c op (wal_lsn wal)) d1"
  let ?w2 = "w1\<lparr>wal_size := wal_size w1 + (24 + length op), wal_lsn := wal_lsn w1 + 1\<rparr>"
  have w: "wal_inv (ss1 @ [(m, rd1, rp1 @ [?r])]) (w1, ?d2)"
    by (rule wal_inv_write) (use s1 s1' in simp)
  have lsn: "wal_lsn w1 = wal_lsn wal" using s1 s1' by simp
  have app: "racs_wal_append k c (length op) op (wal, dir) =
      Some (?w2, if wal_lsn wal mod ?e = 0 then os_fsync (wal_fd w1) ?d2 else ?d2)"
    using every lsn
    by (simp add: racs_wal_append_def wal_record_buf_eq wal_commit_def s1_def [symmetric] s1' Let_def)
  have inv_upd: "wal_inv zs (w1\<lparr>wal_size := x, wal_lsn := y\<rparr>, d) = wal_inv zs (w1, d)" for zs d x y
    by (simp add: wal_inv_def)
  show ?thesis
  proof (cases "wal_lsn wal mod ?e = 0")
    case True
    then show ?thesis
      using that [OF app, of "ss1 @ [(m, rd1 @ rp1 @ [?r], [])]"] wal_inv_fsync [OF w] s1(3,4) ss lsn
      by (simp add: inv_upd seg_records_def pending_bound_def pending_def)
  next
    case False
    have "length rp1 + 1 \<le> unat (wal_lsn wal mod ?e)"
      using mod_pred_step [OF every False] pend s1(5) ss by (simp add: pending_bound_def pending_def)
    with False show ?thesis
      using that [OF app, of "ss1 @ [(m, rd1, rp1 @ [?r])]"] w s1(3,4) ss lsn
      by (simp add: inv_upd seg_records_def pending_bound_def pending_def)
  qed
qed

text \<open>A run of the log: the operations appended one after the other.\<close>

fun wal_run :: "int \<Rightarrow> bytes list \<Rightarrow> racs_wal \<times> os_dir \<Rightarrow> (racs_wal \<times> os_dir) option" where
  "wal_run k [] s = Some s"
| "wal_run k (op # ops) s =
     do { s \<leftarrow> racs_wal_append k RACS_OP_CODE_APPEND (length op) op s; wal_run k ops s }"

fun number :: "racs_uint64 \<Rightarrow> bytes list \<Rightarrow> wal_rec list" where
  "number lsn [] = []"
| "number lsn (op # ops) = (RACS_OP_CODE_APPEND, op, lsn) # number (lsn + 1) ops"

lemma wal_run_inv:
  assumes "(word_of_int k :: racs_uint64) \<noteq> 0"
  shows "wal_inv ss (wal, dir) \<Longrightarrow> pending_bound (word_of_int k) ss wal \<Longrightarrow>
    \<forall>op\<in>set ops. length op < 2 ^ 64 \<Longrightarrow> unat (fst (last ss)) + length ops < 2 ^ 64 \<Longrightarrow>
    \<exists>wal' dir' ss'. wal_run k ops (wal, dir) = Some (wal', dir') \<and> wal_inv ss' (wal', dir') \<and>
      seg_records ss' = seg_records ss @ number (wal_lsn wal) ops \<and> pending_bound (word_of_int k) ss' wal'"
proof (induction ops arbitrary: ss wal dir)
  case Nil
  then show ?case by auto
next
  case (Cons op ops)
  have "fst (last ss) < fst (last ss) + 1"
    using Cons.prems(4) by (simp add: word_less_nat_alt unat_word_ariths)
  then obtain wal' dir' ss' where s: 
    "racs_wal_append k RACS_OP_CODE_APPEND (length op) op (wal, dir) = Some (wal', dir')" "wal_inv ss' (wal', dir')"
    "seg_records ss' = seg_records ss @ [(RACS_OP_CODE_APPEND, op, wal_lsn wal)]" "wal_lsn wal' = wal_lsn wal + 1"
    "unat (fst (last ss')) \<le> Suc (unat (fst (last ss)))" "pending_bound (word_of_int k) ss' wal'"
    using wal_append_step [OF Cons.prems(1) _ assms _ Cons.prems(2)] Cons.prems(3) by auto metis
  from Cons.IH [OF s(2,6)] Cons.prems(3,4) s show ?case by auto
qed

section \<open>Reading the whole log\<close>

text \<open>
  The outer loops of \<open>racs_wal_replay\<close>: the segments in the order of their names, the manifest and
  empty segments left out, and the entries of each.
\<close>

definition wal_segment_names :: "os_dir \<Rightarrow> string list" where
  "wal_segment_names dir = filter (\<lambda>n. strcmp n ''manifest'' \<noteq> 0) (sort (map fst dir))"

fun wal_read_segments :: "os_dir \<Rightarrow> string list \<Rightarrow> racs_wal_entry list option" where
  "wal_read_segments dir [] = Some []"
| "wal_read_segments dir (n # ns) =
     do { es \<leftarrow> (if file_data dir n = [] then Some [] else map_option (map fst) (wal_entries (file_data dir n) 0));
          rest \<leftarrow> wal_read_segments dir ns;
          Some (es @ rest) }"

definition wal_read_log :: "os_dir \<Rightarrow> racs_wal_entry list option" where
  "wal_read_log dir = wal_read_segments dir (wal_segment_names dir)"

text \<open>The entries that the reader makes of some bytes, from their start.\<close>

definition wal_read_bytes :: "bytes \<Rightarrow> racs_wal_entry list option" where
  "wal_read_bytes d = map_option (map fst) (wal_entries d 0)"

text \<open>
  What a crash of the machine leaves. Of a file, what has been synced is there if its directory entry is
  (\<open>keep\<close>), which \<open>fsync\<close> on the file does not ensure. Behind that, \<open>tails\<close> are what is found of the bytes
  that were pending: any bytes, as many at most, so that a record may be torn.
\<close>

definition os_crash :: "(string \<Rightarrow> bool) \<Rightarrow> (string \<Rightarrow> bytes) \<Rightarrow> os_dir \<Rightarrow> os_dir" where
  "os_crash keep tails dir =
     map (\<lambda>(n, f). (n, let d = take (f_durable f) (f_data f) @ tails n in \<lparr>f_data = d, f_durable = length d\<rparr>))
       (filter (\<lambda>(n, f). keep n) dir)"

definition crash_possible :: "(string \<Rightarrow> bytes) \<Rightarrow> os_dir \<Rightarrow> bool" where
  "crash_possible tails dir \<longleftrightarrow> (\<forall>(n, f)\<in>set (segs dir). f_durable f + length (tails n) \<le> length (f_data f))"

definition rec_entry :: "wal_rec \<Rightarrow> racs_wal_entry" where
  "rec_entry r = (case r of (c, op, lsn) \<Rightarrow> record_entry c op lsn)"

lemma rec_entry_eq: "rec_entry = (\<lambda>(c, op, lsn). record_entry c op lsn)"
  by (simp add: fun_eq_iff rec_entry_def)

lemma recs_wf_append [simp]: "recs_wf (a @ b) \<longleftrightarrow> recs_wf a \<and> recs_wf b"
  by (simp add: recs_wf_def ball_Un)

lemma wal_record_nonempty [simp]: "wal_record c op lsn \<noteq> []"
  using length_wal_record [of c op lsn] by force

lemma log_bytes_Nil_iff: "log_bytes rs = [] \<longleftrightarrow> rs = []"
  by (cases rs) auto

lemma filename_sorted:
  "sorted_wrt (<) ns \<Longrightarrow> sorted (map racs_wal_filename ns)"
  by (induction ns)
     (auto simp: less_imp_le filename_less)

lemma segment_names_inv:
  assumes "wal_inv ss (wal, dir)"
  shows "wal_segment_names dir = map (racs_wal_filename \<circ> fst) ss"
proof -
  have "wal_segment_names dir = sort (map fst (segs dir))"
    by (simp add: wal_segment_names_def strcmp_order filter_sort filter_map segs_def o_def)
  also have "map fst (segs dir) = map racs_wal_filename (map fst ss)"
    using assms by (auto simp: wal_inv_def seg_file_def)
  also have "sort \<dots> = \<dots>"
    using assms by (intro sorted_sort_id filename_sorted) (simp add: wal_inv_def)
  finally show ?thesis by simp
qed

lemma file_data_inv:
  assumes "wal_inv ss (wal, dir)" "(n, rd, rp) \<in> set ss"
  shows "map_of dir (racs_wal_filename n) =
    Some \<lparr>f_data = log_bytes (rd @ rp), f_durable = length (log_bytes rd)\<rparr>"
proof -
  have "seg_file (n, rd, rp) \<in> set (segs dir)" using assms by (auto simp: wal_inv_def)
  then show ?thesis using assms by (simp add: segs_def seg_file_def wal_inv_def)
qed

lemma read_segments_eq:
  "\<forall>(n, rs)\<in>set xs. file_data dir (racs_wal_filename n) = log_bytes rs \<and> recs_wf rs \<Longrightarrow>
   wal_read_segments dir (map (racs_wal_filename \<circ> fst) xs) =
     Some (concat (map (\<lambda>(n, rs). map rec_entry rs) xs))"
proof (induction xs)
  case Nil
  then show ?case by simp
next
  case (Cons x xs)
  obtain n rs where x: "x = (n, rs)" by fastforce
  with Cons.prems have f: "file_data dir (racs_wal_filename n) = log_bytes rs" "recs_wf rs" by auto
  have "(if log_bytes rs = [] then Some [] else map_option (map fst) (wal_entries (log_bytes rs) 0)) =
      Some (map rec_entry rs)"
    using wal_entries_log [OF f(2), of "[]"]
    by (cases "rs = []") (simp_all add: rec_entry_eq log_bytes_Nil_iff)
  with Cons x f show ?case by (auto simp: log_bytes_Nil_iff split: if_splits)
qed

lemma read_log_inv:
  assumes inv: "wal_inv ss (wal, dir)" and wf: "recs_wf (seg_records ss)"
  shows "wal_read_log dir = Some (map rec_entry (seg_records ss))"
proof -
  let ?all = "map (\<lambda>(n, rd, rp). (n, rd @ rp)) ss"
  have w: "recs_wf (rd @ rp)" if "(n, rd, rp) \<in> set ss" for n rd rp
    using wf that by (force simp: recs_wf_def seg_records_def)
  have all: "\<forall>(n, rs)\<in>set ?all. file_data dir (racs_wal_filename n) = log_bytes rs \<and> recs_wf rs"
    using file_data_inv [OF inv] w by (auto simp: file_data_def)
  have names: "map (racs_wal_filename \<circ> fst) ?all = map (racs_wal_filename \<circ> fst) ss" by auto
  show ?thesis
    using read_segments_eq [OF all] unfolding names wal_read_log_def segment_names_inv [OF inv]
    by (simp add: seg_records_def map_concat o_def case_prod_beta)
qed

section \<open>Reading the log after a crash\<close>

lemma entry_read_shift:
  "racs_wal_entry_read (p @ d) (length p + n) = map_option (map_prod id ((+) (length p))) (racs_wal_entry_read d n)"
proof -
  have sl: "slice (length p + i) k (p @ d) = slice i k d" for i k by (simp add: slice_def)
  have r4: "racs_read_uint32 (p @ d) (length p + i) = map_option (map_prod id ((+) (length p))) (racs_read_uint32 d i)" for i
    by (simp add: racs_read_uint32_def sl)
  have r8: "racs_read_uint64 (p @ d) (length p + i) = map_option (map_prod id ((+) (length p))) (racs_read_uint64 d i)" for i
    by (simp add: racs_read_uint64_def sl)
  have rb: "read_bin (p @ d) (length p + i) k = read_bin d i k" for i k by (simp add: read_bin_def sl)
  show ?thesis
    by (auto simp: racs_wal_entry_read_def r4 r8 rb Let_def add.assoc map_option_case split: option.splits Option.bind_splits)
qed

lemma entries_shift:
  "map_option (map fst) (wal_entries (p @ d) (length p + n)) = map_option (map fst) (wal_entries d n)"
proof (induction d n rule: wal_entries.induct)
  case (1 d n)
  show ?case
  proof (cases "n < length d")
    case True
    show ?thesis
    proof (cases "racs_wal_entry_read d n")
      case None
      then show ?thesis using True by (simp add: wal_entries.simps [of _ n] wal_entries.simps [of _ "length p + n"] entry_read_shift)
    next
      case (Some r)
      obtain e m where r: "r = (e, m)" by fastforce
      have "map_option (map fst) (wal_entries (p @ d) (length p + m)) = map_option (map fst) (wal_entries d m)"
        using "1.IH" [OF True] Some r by simp
      then show ?thesis
        using True Some r
        by (cases "wal_entries d m"; cases "wal_entries (p @ d) (length p + m)")
          (simp_all add: wal_entries.simps [of _ n] wal_entries.simps [of _ "length p + n"] entry_read_shift)
    qed
  qed (simp add: wal_entries.simps [of _ n] wal_entries.simps [of _ "length p + n"])
qed

lemma read_bytes_log:
  "recs_wf rs \<Longrightarrow> wal_read_bytes (log_bytes rs @ d) = map_option ((@) (map rec_entry rs)) (wal_read_bytes d)"
proof (induction rs)
  case Nil
  then show ?case by (simp add: option.map_ident_strong)
next
  case (Cons r rs)
  obtain c op lsn where r: "r = (c, op, lsn)" by (cases r)
  have len: "length op < 2 ^ 64" and wf: "recs_wf rs" using Cons.prems r by (auto simp: recs_wf_def)
  let ?w = "wal_record c op lsn" and ?d = "log_bytes rs @ d"
  have rd: "racs_wal_entry_read (?w @ ?d) 0 = Some (record_entry c op lsn, length ?w + 0)"
    using entry_read_record [OF len, of "[]" c lsn ?d] by simp
  have "map_option (map fst) (wal_entries (?w @ ?d) (length ?w)) = wal_read_bytes ?d"
    using entries_shift [of ?w ?d 0] by (simp add: wal_read_bytes_def)
  moreover have "wal_read_bytes (?w @ ?d) =
      map_option ((#) (record_entry c op lsn)) (map_option (map fst) (wal_entries (?w @ ?d) (length ?w)))"
    using rd unfolding wal_read_bytes_def wal_entries.simps [of "?w @ ?d" 0]
    by (cases "wal_entries (?w @ ?d) (length ?w)") simp_all
  ultimately have "wal_read_bytes (?w @ ?d) = map_option ((#) (record_entry c op lsn)) (wal_read_bytes ?d)" by simp
  then show ?case using Cons.IH [OF wf] by (simp add: r rec_entry_def option.map_comp o_def)
qed

lemma read_segments_append:
  "wal_read_segments dir (ns @ [n]) =
     (case wal_read_segments dir ns of None \<Rightarrow> None | Some es \<Rightarrow> map_option ((@) es) (wal_read_bytes (file_data dir n)))"
proof (induction ns)
  case Nil
  show ?case by (auto simp: wal_read_bytes_def wal_entries.simps [of "[]"] option.map_ident_strong split: option.splits)
next
  case (Cons m ns)
  then show ?case
    by (cases "if file_data dir m = [] then Some [] else map_option (map fst) (wal_entries (file_data dir m) 0)")
      (auto split: option.splits Option.bind_splits simp: map_option_case)
qed

lemma crash_lookup:
  "map_of (os_crash keep tails dir) n = (if keep n
     then map_option (\<lambda>f. let d = take (f_durable f) (f_data f) @ tails n in \<lparr>f_data = d, f_durable = length d\<rparr>) (map_of dir n)
     else None)"
  by (induction dir) (auto simp: os_crash_def)

lemma crash_names: "wal_segment_names (os_crash keep tails dir) = filter keep (wal_segment_names dir)"
proof -
  have "map fst (os_crash keep tails dir) = filter keep (map fst dir)"
    by (induction dir) (auto simp: os_crash_def)
  then show ?thesis by (simp add: wal_segment_names_def filter_sort conj_commute)
qed

text \<open>The synced records of each segment, by file name.\<close>

definition synced :: "seg list \<Rightarrow> (string \<times> wal_rec list) list" where
  "synced ss = map (\<lambda>(n, rd, rp). (racs_wal_filename n, rd)) ss"

lemma read_log_crash:
  assumes inv: "wal_inv ss (wal, dir)" and wf: "recs_wf (seg_records ss)" and pos: "crash_possible tails dir"
  shows "wal_read_log (os_crash keep tails dir) =
    map_option ((@) (map rec_entry (concat (map snd (filter (\<lambda>(n, rs). keep n) (synced ss))))))
      (if keep (wal_fd wal) then wal_read_bytes (tails (wal_fd wal)) else Some [])"
proof -
  obtain ss0 n rd rp where ss: "ss = ss0 @ [(n, rd, rp)]" "wal_fd wal = racs_wal_filename n" "\<forall>(k, r, p)\<in>set ss0. p = []"
    using wal_inv_last [OF inv] by metis
  have w: "recs_wf (r @ p)" if "(k, r, p) \<in> set ss" for k r p
    using wf that by (force simp: recs_wf_def seg_records_def)
  let ?dir = "os_crash keep tails dir"
  let ?xs = "map (\<lambda>(k, r, p). (k, r)) (filter (\<lambda>(k, r, p). keep (racs_wal_filename k)) ss0)"
  have data: "file_data ?dir (racs_wal_filename k) = log_bytes r @ tails (racs_wal_filename k)"
    if "(k, r, p) \<in> set ss" "keep (racs_wal_filename k)" for k r p
    using file_data_inv [OF inv that(1)] that(2) by (simp add: file_data_def crash_lookup)
  have no_tail: "tails (racs_wal_filename k) = []" if "(k, r, p) \<in> set ss0" for k r p
  proof -
    have "p = []" "(k, r, p) \<in> set ss" using that ss by auto
    then have "(racs_wal_filename k, \<lparr>f_data = log_bytes r, f_durable = length (log_bytes r)\<rparr>) \<in> set (segs dir)"
      using inv by (force simp: wal_inv_def seg_file_def)
    then show ?thesis using pos by (fastforce simp: crash_possible_def)
  qed
  have all: "\<forall>(k, rs)\<in>set ?xs. file_data ?dir (racs_wal_filename k) = log_bytes rs \<and> recs_wf rs"
    using data no_tail w ss(1) by fastforce
  have names: "filter keep (map (racs_wal_filename \<circ> fst) ss0) = map (racs_wal_filename \<circ> fst) ?xs"
    by (induction ss0) auto
  have sync: "concat (map snd (filter (\<lambda>(n, rs). keep n) (synced ss0))) = concat (map snd ?xs)"
    by (induction ss0) (auto simp: synced_def)
  have rd0: "wal_read_segments ?dir (map (racs_wal_filename \<circ> fst) ?xs) = Some (map rec_entry (concat (map snd ?xs)))"
    using read_segments_eq [OF all] by (simp add: map_concat o_def case_prod_beta)
  have wfn: "recs_wf rd" using w [of n rd rp] ss(1) by simp
  have seg: "wal_segment_names ?dir = map (racs_wal_filename \<circ> fst) ?xs @ (if keep (racs_wal_filename n) then [racs_wal_filename n] else [])"
    unfolding crash_names segment_names_inv [OF inv] ss(1) names [symmetric] by simp
  have all_rs: "concat (map snd (filter (\<lambda>(n, rs). keep n) (synced ss))) =
      concat (map snd ?xs) @ (if keep (racs_wal_filename n) then rd else [])"
    unfolding sync [symmetric] by (simp add: ss(1) synced_def)
  show ?thesis
  proof (cases "keep (racs_wal_filename n)")
    case True
    have "file_data ?dir (racs_wal_filename n) = log_bytes rd @ tails (racs_wal_filename n)"
      using data [of n rd rp] True ss(1) by simp
    then show ?thesis
      unfolding wal_read_log_def seg if_P [OF True] read_segments_append rd0 all_rs ss(2) option.case
      by (simp only: \<open>file_data ?dir _ = _\<close> read_bytes_log [OF wfn])
        (cases "wal_read_bytes (tails (racs_wal_filename n))", simp_all only: option.map map_append append.assoc)
  next
    case False
    then show ?thesis
      unfolding wal_read_log_def seg all_rs ss(2) if_not_P [OF False] append_Nil2 rd0 by simp
  qed
qed

text \<open>A record of which the end is missing makes the reader leave the buffer.\<close>

lemma entry_read_extend:
  assumes "racs_wal_entry_read d n = Some (e, m)"
  shows "racs_wal_entry_read (d @ q) n = Some (e, m)"
proof -
  have sl: "slice i k (d @ q) = slice i k d" if "i + k \<le> length d" for i k using that by (simp add: slice_def)
  show ?thesis
    using assms
    by (auto simp: racs_wal_entry_read_def racs_read_uint32_def racs_read_uint64_def read_bin_def Let_def sl
        split: if_splits elim!: bind_eq_SomeE)
qed

lemma read_torn_record:
  assumes "length op < 2 ^ 64" "0 < j" "j < 24 + length op"
  shows "wal_read_bytes (take j (wal_record c op lsn)) = None"
proof -
  let ?d = "take j (wal_record c op lsn)"
  have len: "length ?d = j" using assms(3) by simp
  have "racs_wal_entry_read ?d 0 = None"
  proof (rule ccontr)
    assume "racs_wal_entry_read ?d 0 \<noteq> None"
    then obtain e m where r: "racs_wal_entry_read ?d 0 = Some (e, m)" by auto
    have "wal_record c op lsn = ?d @ drop j (wal_record c op lsn)" by simp
    then have "racs_wal_entry_read (wal_record c op lsn) 0 = Some (e, m)" using entry_read_extend [OF r] by metis
    then have "m = 24 + length op" using entry_read_record [OF assms(1), of "[]" c lsn "[]"] by simp
    then show False using wal_entry_read_progress [OF r] assms(3) len by simp
  qed
  then show ?thesis using assms(2) len by (simp add: wal_read_bytes_def wal_entries.simps [of _ 0])
qed

lemma wal_create_empty:
  "wal_inv [(0, [], [])] (racs_wal_create [])" "wal_lsn (fst (racs_wal_create [])) = 0"
  "pending_bound e [(0, [], [])] (fst (racs_wal_create []))"
  by (simp_all add: racs_wal_create_def racs_wal_open_def racs_wal_segno_def os_open_append_def wal_inv_def
      segs_def seg_file_def racs_wal_init_lsn_def file_data_def racs_wal_segment_max_lsn_def Let_def
      pending_bound_def pending_def)

lemma recs_wf_number: "\<forall>op\<in>set ops. length op < 2 ^ 64 \<Longrightarrow> recs_wf (number lsn ops)"
  by (induction ops arbitrary: lsn) (auto simp: recs_wf_def)

lemma length_number [simp]: "length (number lsn ops) = length ops"
  by (induction ops arbitrary: lsn) auto

lemma wal_run_create:
  assumes "(word_of_int k :: racs_uint64) \<noteq> 0" "\<forall>op\<in>set ops. length op < 2 ^ 64" "length ops < 2 ^ 64"
  obtains wal dir ss where "wal_run k ops (racs_wal_create []) = Some (wal, dir)" "wal_inv ss (wal, dir)"
    "seg_records ss = number 0 ops" "pending_bound (word_of_int k) ss wal"
proof -
  obtain wal0 dir0 where w: "racs_wal_create [] = (wal0, dir0)" by fastforce
  from wal_run_inv [OF assms(1), of "[(0, [], [])]" wal0 dir0 ops] wal_create_empty assms(2,3) that show ?thesis
    by (simp add: w seg_records_def) blast
qed

text \<open>
  C8: Every operation appended to the log is read back: after any sequence of appends to a new log, across
  all rotations of the segment files, reading the segments in directory order returns all the
  operations in the order they were appended, with consecutive sequence numbers from 0.
\<close>

theorem wal_run_read_back:
  assumes "(word_of_int k :: racs_uint64) \<noteq> 0" "\<forall>op\<in>set ops. length op < 2 ^ 64" "length ops < 2 ^ 64"
  shows "\<exists>wal dir. wal_run k ops (racs_wal_create []) = Some (wal, dir) \<and>
    wal_read_log dir = Some (map rec_entry (number 0 ops))"
proof -
  obtain wal dir ss where s: "wal_run k ops (racs_wal_create []) = Some (wal, dir)" "wal_inv ss (wal, dir)"
    "seg_records ss = number 0 ops" "pending_bound (word_of_int k) ss wal"
    by (rule wal_run_create [OF assms])
  with read_log_inv [OF s(2)] recs_wf_number [OF assms(2)] show ?thesis by metis
qed

theorem wal_run_read_back_witness:
  "\<exists>wal dir. wal_run 2 [[1, 2], [], [3]] (racs_wal_create []) = Some (wal, dir) \<and>
    wal_read_log dir = Some (map rec_entry [(0, [1, 2], 0), (0, [], 1), (0, [3], 2)])"
  using wal_run_read_back [of 2 "[[1, 2], [], [3]]"] by (simp add: RACS_OP_CODE_APPEND_def)

text \<open>
  C15: What a crash leaves of the log: after any sequence of appends to a new log, all operations but fewer than
  the configured \<open>fsync\<close> interval, the last ones, are synced, each in one segment file. Whatever directory
  entries a crash loses and whatever it leaves of the pending bytes, the log has after it, in their order, exactly
  the synced records of the segments whose directory entry is there, and behind them what the reader makes of the
  bytes left behind the synced ones of the active segment.
\<close>

theorem wal_crash_survivors:
  assumes "0 < k" "k < 2 ^ 31" "\<forall>op\<in>set ops. length op < 2 ^ 64" "length ops < 2 ^ 64"
  shows "\<exists>wal dir segs pending. wal_run k ops (racs_wal_create []) = Some (wal, dir) \<and>
    map fst segs = wal_segment_names dir \<and> fst (last segs) = wal_fd wal \<and>
    concat (map snd segs) @ pending = number 0 ops \<and> length pending < nat k \<and> crash_possible (\<lambda>_. []) dir \<and>
    (\<forall>keep tails. crash_possible tails dir \<longrightarrow>
      wal_read_log (os_crash keep tails dir) =
        map_option ((@) (map rec_entry (concat (map snd (filter (\<lambda>(n, rs). keep n) segs)))))
          (if keep (wal_fd wal) then wal_read_bytes (tails (wal_fd wal)) else Some []))"
proof -
  have k: "(word_of_int k :: racs_uint64) \<noteq> 0" "unat (word_of_int k :: racs_uint64) = nat k"
    using assms(1,2) by (simp_all add: word_of_int_eq_0_iff unsigned_of_int take_bit_int_eq_self zdvd_not_zless)
  obtain wal dir ss where s: "wal_run k ops (racs_wal_create []) = Some (wal, dir)" "wal_inv ss (wal, dir)"
    "seg_records ss = number 0 ops" "pending_bound (word_of_int k) ss wal"
    by (rule wal_run_create [OF k(1) assms(3,4)])
  obtain ss0 n rd rp where ss: "ss = ss0 @ [(n, rd, rp)]" "wal_fd wal = racs_wal_filename n" "\<forall>(k, r, p)\<in>set ss0. p = []"
    using wal_inv_last [OF s(2)] by metis
  have "concat (map snd (synced ss0)) = seg_records ss0"
    using ss(3) by (induction ss0) (auto simp: synced_def seg_records_def)
  then have split: "concat (map snd (synced ss)) @ rp = number 0 ops"
    using s(3) ss(1) by (simp add: synced_def seg_records_def)
  have "unat ((wal_lsn wal - 1) mod word_of_int k) < nat k"
    using assms(1) k by (simp add: unat_mod_distrib)
  then have len: "length rp < nat k" using s(4) ss(1) by (simp add: pending_bound_def pending_def)
  have names: "map fst (synced ss) = wal_segment_names dir" "fst (last (synced ss)) = wal_fd wal"
    using segment_names_inv [OF s(2)] ss by (simp_all add: synced_def o_def case_prod_beta)
  have "recs_wf (seg_records ss)" using recs_wf_number [OF assms(3)] s(3) by simp
  note crash = read_log_crash [OF s(2) this]
  have "crash_possible (\<lambda>_. []) dir"
    using s(2) by (auto simp: crash_possible_def wal_inv_def seg_file_def)
  show ?thesis
    using s(1) split len names crash \<open>crash_possible _ dir\<close>
    by (intro exI [of _ wal] exI [of _ dir] exI [of _ "synced ss"] exI [of _ rp]) blast
qed

theorem wal_crash_survivors_witness:
  "\<exists>wal dir segs pending. wal_run 2 [[1], [2], [3], [4]] (racs_wal_create []) = Some (wal, dir) \<and>
    map fst segs = wal_segment_names dir \<and> concat (map snd segs) @ pending = number 0 [[1], [2], [3], [4]] \<and> length pending < 2 \<and>
    wal_read_log (os_crash (\<lambda>_. True) (\<lambda>_. []) dir) = Some (map rec_entry (concat (map snd segs)))"
proof -
  have b: "\<forall>op\<in>set [[1], [2], [3], [4 :: racs_uint8]]. length op < 2 ^ 64" "length [[1], [2], [3], [4 :: racs_uint8]] < 2 ^ 64"
    by simp_all
  obtain wal dir segs pending where w: "wal_run 2 [[1], [2], [3], [4]] (racs_wal_create []) = Some (wal, dir)"
    "concat (map snd segs) @ pending = number 0 [[1], [2], [3], [4]]" "map fst segs = wal_segment_names dir" "length pending < nat 2"
    "crash_possible (\<lambda>_. []) dir"
    "\<forall>keep tails. crash_possible tails dir \<longrightarrow>
      wal_read_log (os_crash keep tails dir) =
        map_option ((@) (map rec_entry (concat (map snd (filter (\<lambda>(n, rs). keep n) segs)))))
          (if keep (wal_fd wal) then wal_read_bytes (tails (wal_fd wal)) else Some [])"
    using wal_crash_survivors [of 2 "[[1], [2], [3], [4]]", OF _ _ b] by auto
  have "wal_read_log (os_crash (\<lambda>_. True) (\<lambda>_. []) dir) = map_option ((@) (map rec_entry (concat (map snd segs)))) (wal_read_bytes [])"
    using w(5,6) by simp
  then have "wal_read_log (os_crash (\<lambda>_. True) (\<lambda>_. []) dir) = Some (map rec_entry (concat (map snd segs)))"
    by (simp add: wal_read_bytes_def wal_entries.simps)
  moreover have "length pending < 2" using w(4) by simp
  ultimately show ?thesis
    by (intro exI [of _ wal] exI [of _ dir] exI [of _ segs] exI [of _ pending] conjI w(1-3))
qed

lemma wal_create_empty_eq:
  "racs_wal_create [] = (\<lparr>wal_fd = racs_wal_filename 0, wal_lsn = 0, wal_size = 0\<rparr>,
     [(racs_wal_filename 0, \<lparr>f_data = [], f_durable = 0\<rparr>)])"
  by (simp add: racs_wal_create_def racs_wal_open_def racs_wal_segno_def os_open_append_def
      racs_wal_init_lsn_def file_data_def racs_wal_segment_max_lsn_def Let_def)

text \<open>
  A crash inside a record makes the restart undefined: if what is left behind the synced records of the active
  segment is the beginning of a record, torn at any byte, then reading the log leaves the buffer of the segment. The
  checksum of the record comes too late: \<open>racs_wal_entry_read\<close> trusts the size.
\<close>

theorem wal_torn_record_faults:
  assumes "(word_of_int k :: racs_uint64) \<noteq> 0" "\<forall>op\<in>set ops. length op < 2 ^ 64" "length ops < 2 ^ 64"
    and "wal_run k ops (racs_wal_create []) = Some (wal, dir)"
    and "crash_possible tails dir" "keep (wal_fd wal)" "tails (wal_fd wal) = take j (wal_record c op lsn)"
    and "length op < 2 ^ 64" "0 < j" "j < 24 + length op"
  shows "wal_read_log (os_crash keep tails dir) = None"
proof -
  obtain ss where s: "wal_inv ss (wal, dir)" "seg_records ss = number 0 ops"
    using wal_run_create [OF assms(1-3)] assms(4) by force
  have "recs_wf (seg_records ss)" using recs_wf_number [OF assms(2)] s(2) by simp
  from read_log_crash [OF s(1) this assms(5)] show ?thesis
    using assms(6,7) read_torn_record [OF assms(8-10)] by simp
qed

theorem wal_torn_record_faults_witness:
  "\<exists>wal dir. wal_run 2 [[1], [2]] (racs_wal_create []) = Some (wal, dir) \<and>
    crash_possible (\<lambda>_. take 10 (wal_record RACS_OP_CODE_APPEND [2] 1)) dir \<and>
    wal_read_log (os_crash (\<lambda>_. True) (\<lambda>_. take 10 (wal_record RACS_OP_CODE_APPEND [2] 1)) dir) = None"
proof -
  let ?dir = "[(racs_wal_filename 0, \<lparr>f_data = wal_record RACS_OP_CODE_APPEND [1] 0 @ wal_record RACS_OP_CODE_APPEND [2] 1,
      f_durable = 25\<rparr>)]"
  let ?wal = "\<lparr>wal_fd = racs_wal_filename 0, wal_lsn = 2, wal_size = 50\<rparr>"
  have run: "wal_run 2 [[1], [2]] (racs_wal_create []) = Some (?wal, ?dir)"
    by (simp add: wal_create_empty_eq racs_wal_append_def wal_record_buf_eq wal_commit_def
        RACS_WAL_SIZE_64MB_def os_write_def os_fsync_def Let_def)
  have pos: "crash_possible (\<lambda>_. take 10 (wal_record RACS_OP_CODE_APPEND [2] 1)) ?dir"
    by (simp add: crash_possible_def segs_def)
  from wal_torn_record_faults [OF _ _ _ run pos, of "\<lambda>_. True" 10 RACS_OP_CODE_APPEND "[2]" 1] run pos show ?thesis by simp
qed

section \<open>Reopening\<close>

lemma number_snoc: "number lsn (ops @ [op]) = number lsn ops @ [(RACS_OP_CODE_APPEND, op, lsn + of_nat (length ops))]"
  by (induction ops arbitrary: lsn) (auto simp: algebra_simps)

lemma max_lsn_log: "racs_wal_segment_max_lsn (log_bytes (rs @ [(c, op, lsn)])) = lsn"
  by (simp add: racs_wal_segment_max_lsn_def wal_record_def)

lemma wal_run_lsn:
  "wal_run k ops (wal, dir) = Some (wal', dir') \<Longrightarrow> wal_lsn wal' = wal_lsn wal + of_nat (length ops)"
proof (induction ops arbitrary: wal dir)
  case Nil
  then show ?case by simp
next
  case (Cons op ops)
  then obtain w d where w: "racs_wal_append k RACS_OP_CODE_APPEND (length op) op (wal, dir) = Some (w, d)"
    "wal_run k ops (w, d) = Some (wal', dir')" by (auto elim!: bind_eq_SomeE)
  then have "wal_lsn w = wal_lsn wal + 1"
    by (auto simp: racs_wal_append_def wal_record_buf_eq wal_commit_def racs_wal_rotate_def Let_def
        split: if_splits)
  with Cons.IH [OF w(2)] show ?case by (simp add: algebra_simps)
qed

text \<open>
  Reopening the log reuses a sequence number: the counter of a reopened log, whose active segment has
  records and room, is the number of the last record in it, not the next one, so that the next
  append writes a second record with that number.
\<close>

theorem wal_reopen_reuses_lsn:
  assumes "(word_of_int k :: racs_uint64) \<noteq> 0" "\<forall>op\<in>set ops. length op < 2 ^ 64" "length ops < 2 ^ 64"
    and "wal_run k ops (racs_wal_create []) = Some (wal, dir)"
    and "file_data dir (wal_fd wal) \<noteq> []" "length (file_data dir (wal_fd wal)) < RACS_WAL_SIZE_64MB"
  shows "wal_lsn (fst (racs_wal_create dir)) = wal_lsn wal - 1"
proof -
  obtain ss where s: "wal_inv ss (wal, dir)" "seg_records ss = number 0 ops"
    using wal_run_create [OF assms(1-3)] assms(4) by force
  obtain ss0 n rd rp where ss: "ss = ss0 @ [(n, rd, rp)]" "wal_fd wal = racs_wal_filename n"
    using wal_inv_last [OF s(1)] by metis
  have f: "map_of dir (racs_wal_filename n) = Some \<lparr>f_data = log_bytes (rd @ rp), f_durable = length (log_bytes rd)\<rparr>"
    using file_data_inv [OF s(1), of n rd rp] ss(1) by simp
  then have "rd @ rp \<noteq> []" using assms(5) ss(2) by (auto simp: file_data_def)
  then obtain rs c op lsn where rs: "rd @ rp = rs @ [(c, op, lsn)]"
    by (cases "rd @ rp" rule: rev_cases) auto
  have "ops \<noteq> []" using s(2) ss(1) rs by (cases ops) (auto simp: seg_records_def)
  then obtain ops' op' where ops: "ops = ops' @ [op']" by (cases ops rule: rev_cases) auto
  have "last (seg_records ss) = (c, op, lsn)" using ss(1) rs by (simp add: seg_records_def)
  then have lsn: "lsn = of_nat (length ops')" using s(2) ops by (simp add: number_snoc)
  have "wal_lsn wal = of_nat (length ops)"
    using wal_run_lsn [of k ops "fst (racs_wal_create [])" "snd (racs_wal_create [])"] assms(4) wal_create_empty(2)
    by simp
  moreover have "racs_wal_segno dir = n" using wal_segno_inv [OF s(1)] ss(1) by simp
  then have "wal_lsn (fst (racs_wal_create dir)) = lsn"
    using f assms(6) ss(2) rs max_lsn_log [of rs c op lsn]
    by (simp add: racs_wal_create_def racs_wal_open_def racs_wal_init_lsn_def os_open_append_def file_data_def
        Let_def)
  ultimately show ?thesis using lsn ops by simp
qed

definition example_log :: "racs_wal \<times> os_dir" where
  "example_log =
     (\<lparr>wal_fd = racs_wal_filename 0, wal_lsn = 2, wal_size = 50\<rparr>,
      [(racs_wal_filename 0,
        \<lparr>f_data = wal_record RACS_OP_CODE_APPEND [1] 0 @ wal_record RACS_OP_CODE_APPEND [2] 1, f_durable = 50\<rparr>)])"

theorem wal_reopen_reuses_lsn_witness:
  "wal_run 1 [[1], [2]] (racs_wal_create []) = Some example_log \<and> wal_lsn (fst example_log) = 2 \<and>
   wal_lsn (fst (racs_wal_create (snd example_log))) = 1"
proof -
  have e: "wal_run 1 [[1], [2]] (racs_wal_create []) = Some example_log"
    by (simp add: wal_create_empty_eq racs_wal_append_def wal_record_buf_eq wal_commit_def
        RACS_WAL_SIZE_64MB_def os_write_def os_fsync_def example_log_def Let_def)
  have "wal_lsn (fst (racs_wal_create (snd example_log))) = wal_lsn (fst example_log) - 1"
    by (rule wal_reopen_reuses_lsn [of 1 "[[1], [2]]"])
       (use e in \<open>simp_all add: example_log_def file_data_def RACS_WAL_SIZE_64MB_def\<close>)
  with e show ?thesis by (simp add: example_log_def)
qed

section \<open>Truncation\<close>

lemma segs_manifest: "segs (racs_memtable_write_lsn L dir) = segs dir"
  by (induction dir) (auto simp: racs_memtable_write_lsn_def segs_def)

lemma distinct_manifest:
  "distinct (map fst dir) \<Longrightarrow> distinct (map fst (racs_memtable_write_lsn L dir))"
  by (simp add: racs_memtable_write_lsn_def distinct_update)

lemma checkpoint_manifest [simp]: "racs_wal_checkpoint_lsn (racs_memtable_write_lsn L dir) = L"
  by (simp add: racs_wal_checkpoint_lsn_def racs_memtable_write_lsn_def update_conv')

lemma wal_inv_manifest: "wal_inv ss (wal, dir) \<Longrightarrow> wal_inv ss (wal, racs_memtable_write_lsn L dir)"
  by (simp add: wal_inv_def segs_manifest distinct_manifest)

definition seg_kept :: "racs_uint64 \<Rightarrow> racs_uint64 \<Rightarrow> seg \<Rightarrow> bool" where
  "seg_kept active ckpt s \<longleftrightarrow> fst s = active \<or>
     \<not> racs_wal_segment_max_lsn (log_bytes (fst (snd s) @ snd (snd s))) < ckpt"

lemma wal_doomed_seg:
  "wal_doomed (racs_wal_filename a) ckpt (seg_file s) \<longleftrightarrow> \<not> seg_kept a ckpt s"
  by (cases s) (simp add: wal_doomed_def seg_file_def seg_kept_def strcmp_order)

lemma butlast_filter_subset: "set (butlast (filter P xs)) \<subseteq> set (butlast xs) \<union> (if P (last xs) then {} else set xs)"
  by (induction xs) (auto split: if_splits)

lemma wal_inv_truncate:
  assumes inv: "wal_inv ss (wal, dir)"
  shows "wal_inv (filter (seg_kept (fst (last ss)) (racs_wal_checkpoint_lsn dir)) ss) (wal, racs_wal_truncate dir)"
proof -
  let ?P = "seg_kept (fst (last ss)) (racs_wal_checkpoint_lsn dir)"
  have "segs (racs_wal_truncate dir) = filter (\<lambda>nf. \<not> wal_doomed (racs_wal_filename (fst (last ss)))
      (racs_wal_checkpoint_lsn dir) nf) (segs dir)"
    using wal_segno_inv [OF inv] by (simp add: racs_wal_truncate_def segs_def Let_def conj_commute)
  also have "\<dots> = map seg_file (filter ?P ss)"
    using inv by (simp add: wal_inv_def filter_map o_def wal_doomed_seg)
  finally have segs: "segs (racs_wal_truncate dir) = map seg_file (filter ?P ss)" .
  obtain ss0 x where ss: "ss = ss0 @ [x]" using inv by (cases ss rule: rev_cases) (auto simp: wal_inv_def)
  have P: "?P x" using ss by (simp add: seg_kept_def)
  have "distinct (map fst (racs_wal_truncate dir))"
    using inv by (auto simp: wal_inv_def racs_wal_truncate_def Let_def intro: distinct_map_filter)
  moreover have "sorted_wrt (<) (map fst (filter ?P ss))"
    using inv by (simp add: wal_inv_def sorted_wrt_map sorted_wrt_filter)
  ultimately show ?thesis
    using inv segs ss P by (auto simp: wal_inv_def)
qed

lemma number_lsns:
  "unat lsn + length ops \<le> 2 ^ 64 \<Longrightarrow>
   sorted (map (\<lambda>r. unat (snd (snd r))) (number lsn ops)) \<and> (\<forall>r\<in>set (number lsn ops). unat lsn \<le> unat (snd (snd r)))"
proof (induction ops arbitrary: lsn)
  case Nil
  then show ?case by simp
next
  case (Cons op ops)
  show ?case
  proof (cases "ops = []")
    case True
    then show ?thesis by simp
  next
    case False
    then have "Suc (unat lsn) < 2 ^ 64" using Cons.prems by (cases ops) auto
    then have "unat (lsn + 1) = Suc (unat lsn)" by (simp add: unat_word_ariths)
    with Cons.IH [of "lsn + 1"] Cons.prems show ?thesis by auto
  qed
qed

lemma sorted_last_max:
  assumes "sorted (map (\<lambda>r. unat (snd (snd r))) rs)" "racs_wal_segment_max_lsn (log_bytes rs) < ckpt" "r \<in> set rs"
  shows "snd (snd r) < ckpt"
proof -
  obtain rs' c op lsn where rs: "rs = rs' @ [(c, op, lsn)]"
    using assms(3) by (cases rs rule: rev_cases) auto
  then have "lsn < ckpt" using assms(2) max_lsn_log [of rs' c op lsn] by simp
  moreover have "unat (snd (snd r)) \<le> unat lsn" using assms(1,3) rs by (auto simp: sorted_append)
  ultimately show ?thesis by (simp add: word_less_nat_alt)
qed

lemma sorted_concat_part: "sorted (concat xss) \<Longrightarrow> xs \<in> set xss \<Longrightarrow> sorted xs"
  by (induction xss) (auto simp: sorted_append)

text \<open>
  C16: Truncating the log at a checkpoint removes nothing that recovery needs: after any run and for any
  checkpoint number, the records above the checkpoint that can be read from the truncated log are
  those of the full log.
\<close>

theorem wal_truncate_keeps_needed:
  assumes "(word_of_int k :: racs_uint64) \<noteq> 0" "\<forall>op\<in>set ops. length op < 2 ^ 64" "length ops < 2 ^ 64"
    and "wal_run k ops (racs_wal_create []) = Some (wal, dir)"
    and "dir' = racs_memtable_write_lsn L dir"
  shows "map_option (filter (\<lambda>e. L < we_lsn e)) (wal_read_log (racs_wal_truncate dir')) =
    Some (filter (\<lambda>e. L < we_lsn e) (map rec_entry (number 0 ops)))"
proof -
  obtain ss where s: "wal_inv ss (wal, dir)" "seg_records ss = number 0 ops"
    using wal_run_create [OF assms(1-3)] assms(4) by force
  note inv = wal_inv_manifest [OF s(1), of L]
  let ?P = "seg_kept (fst (last ss)) L"
  have inv': "wal_inv (filter ?P ss) (wal, racs_wal_truncate dir')"
    using wal_inv_truncate [OF inv] by (simp add: assms(5))
  have sub: "set (seg_records (filter ?P ss)) \<subseteq> set (seg_records ss)" by (auto simp: seg_records_def)
  have wf: "recs_wf (seg_records ss)" using recs_wf_number [OF assms(2)] s(2) by simp
  with sub have wf': "recs_wf (seg_records (filter ?P ss))" by (auto simp: recs_wf_def)
  have "concat (map (\<lambda>s. map (\<lambda>r. unat (snd (snd r))) (fst (snd s) @ snd (snd s))) ss) =
      map (\<lambda>r. unat (snd (snd r))) (seg_records ss)"
    by (simp add: seg_records_def map_concat o_def case_prod_beta)
  then have sc: "sorted (concat (map (\<lambda>s. map (\<lambda>r. unat (snd (snd r))) (fst (snd s) @ snd (snd s))) ss))"
    using number_lsns [of 0 ops] assms(3) s(2) by simp
  have sorted: "sorted (map (\<lambda>r. unat (snd (snd r))) (fst (snd s) @ snd (snd s)))" if "s \<in> set ss" for s
    by (rule sorted_concat_part [OF sc]) (use that in force)
  have gone: "filter (\<lambda>r. L < snd (snd r)) (fst (snd s) @ snd (snd s)) = []" if "s \<in> set ss" "\<not> ?P s" for s
    using sorted_last_max [OF sorted [OF that(1)], of L] that(2)
    by (auto simp: seg_kept_def filter_empty_conv dest: order.asym)
  have "filter (\<lambda>r. L < snd (snd r)) (seg_records (filter ?P xs)) = filter (\<lambda>r. L < snd (snd r)) (seg_records xs)"
    if "set xs \<subseteq> set ss" for xs
    using that
  proof (induction xs)
    case (Cons x xs)
    then show ?case using gone [of x] by (cases x) (auto simp: seg_records_def)
  qed (simp add: seg_records_def)
  then have "filter (\<lambda>r. L < snd (snd r)) (seg_records (filter ?P ss)) = filter (\<lambda>r. L < snd (snd r)) (seg_records ss)"
    by simp
  moreover have "we_lsn (rec_entry r) = snd (snd r)" for r by (cases r) (simp add: rec_entry_def record_entry_def)
  ultimately show ?thesis
    using read_log_inv [OF inv' wf'] s(2) by (simp add: filter_map o_def)
qed

theorem wal_truncate_keeps_needed_witness:
  "map_option (filter (\<lambda>e. 0 < we_lsn e))
     (wal_read_log (racs_wal_truncate (racs_memtable_write_lsn 0 (snd example_log)))) =
   Some [record_entry 0 [2] 1]"
proof -
  have e: "wal_run 1 [[1], [2]] (racs_wal_create []) = Some (fst example_log, snd example_log)"
    by (simp add: wal_create_empty_eq racs_wal_append_def wal_record_buf_eq wal_commit_def
        RACS_WAL_SIZE_64MB_def os_write_def os_fsync_def example_log_def Let_def)
  show ?thesis
    using wal_truncate_keeps_needed [OF _ _ _ e refl, of 0]
    by (simp add: rec_entry_def record_entry_def RACS_OP_CODE_APPEND_def)
qed

end
