(* ===== verification/Multi.thy ===== *)
theory Multi
  imports Sstable Wal "HOL-Library.Multiset"
begin

text \<open>
  The in-memory tables and the list of them, the first half of \<^verbatim>\<open>src/src/memtable.c\<close>. Tables live in
  an explicit heap, so that a pointer to a freed table is a dangling address. A full table is handed to
  a flush thread, which writes the manifest of the log and a segment file, truncates the log and frees
  the table. The theorems show that the list never holds more than one table, that no entry is lost or
  duplicated while the flush threads run between appends, and what happens when one runs inside an append.
\<close>

section \<open>State\<close>

type_synonym mt_addr = nat

text \<open>\<open>mt_entries\<close> holds the first \<open>num_entries\<close> entries.\<close>

record racs_memtable =
  mt_entries :: "racs_memtable_entry list"
  mt_capacity :: racs_uint16
  mt_next :: "mt_addr option"
  mt_prev :: "mt_addr option"

record racs_multi_memtable =
  mmt_index :: int
  mmt_num_tables :: int
  mmt_head :: "mt_addr option"
  mmt_tail :: "mt_addr option"

text \<open>
  The process: the heap of tables with the next unused address and the number of block buffers that are
  allocated, the list of tables, the flush threads that have been started and have not run yet, the
  directory of the log, and the segment files by path.
\<close>

record store =
  st_heap :: "mt_addr \<Rightarrow> racs_memtable option"
  st_fresh :: mt_addr
  st_blocks :: int
  st_mmt :: racs_multi_memtable
  st_threads :: "mt_addr list"
  st_wal :: os_dir
  st_segs :: "(string \<times> bytes) list"

text \<open>
  What the calls of one flush report: whether the manifest of the log can be opened, whether \<open>open\<close>, \<open>flock\<close> and
  \<open>rename\<close> of the segment file succeed, and the contents of the uninitialised buffer.
\<close>

record seg_io =
  io_manifest :: bool
  io_open :: bool
  io_flock :: bool
  io_rename :: bool
  io_garbage :: "nat \<Rightarrow> racs_uint8"

section \<open>One table\<close>

definition racs_memtable_create :: "int \<Rightarrow> store \<Rightarrow> mt_addr \<times> store" where
  "racs_memtable_create capacity st =
     (let a = st_fresh st;
          mt = \<lparr>mt_entries = [], mt_capacity = word_of_int capacity, mt_next = None, mt_prev = None\<rparr>
      in (a, st\<lparr>st_heap := (st_heap st)(a \<mapsto> mt), st_fresh := a + 1,
                st_blocks := st_blocks st + uint (mt_capacity mt)\<rparr>))"

definition racs_memtable_append :: "mt_addr \<Rightarrow> racs_key \<Rightarrow> bytes \<Rightarrow> racs_uint16 \<Rightarrow> racs_uint32 \<Rightarrow> racs_uint8
    \<Rightarrow> racs_uint64 \<Rightarrow> store \<Rightarrow> store option" where
  "racs_memtable_append a key block block_size checksum flags racs_wal_lsn st =
     do { mt \<leftarrow> st_heap st a;
          blk \<leftarrow> (if length (mt_entries mt) < unat (mt_capacity mt)
                 then read_bin block 0 (unat block_size) else None);
          let e = \<lparr>e_key = key, e_lsn = racs_wal_lsn, e_checksum = checksum, e_block_size = block_size,
                   e_flags = flags, e_block = blk\<rparr>;
          Some (st\<lparr>st_heap := (st_heap st)(a \<mapsto> mt\<lparr>mt_entries := mt_entries mt @ [e]\<rparr>)\<rparr>) }"

text \<open>\<open>racs_memtable_destroy\<close> frees the block buffers of the first \<open>num_entries\<close> entries only.\<close>

definition racs_memtable_destroy :: "mt_addr \<Rightarrow> store \<Rightarrow> store option" where
  "racs_memtable_destroy a st =
     do { mt \<leftarrow> st_heap st a;
          Some (st\<lparr>st_heap := (st_heap st)(a := None),
                   st_blocks := st_blocks st - int (length (mt_entries mt))\<rparr>) }"

definition racs_memtable_write :: "seg_io \<Rightarrow> string \<Rightarrow> racs_memtable_entry list \<Rightarrow> (string \<times> bytes) list
    \<Rightarrow> (string \<times> bytes) list option" where
  "racs_memtable_write io racs_time_dir es sfiles =
     do { n \<leftarrow> memtable_buffer_size (length es);
          timestamp \<leftarrow> (case es of [] \<Rightarrow> None | e # _ \<Rightarrow> Some (sint (snd (e_key e))));
          let tmp_path = racs_time_to_path racs_time_dir timestamp True;
          let final_path = racs_time_to_path racs_time_dir timestamp False;
          if \<not> io_open io then Some sfiles
          else if \<not> io_flock io then Some (AList.update tmp_path [] sfiles)
          else do { file \<leftarrow> memtable_file (map (io_garbage io) [0..<n]) es;
                    Some (if io_rename io
                          then AList.update final_path file (AList.delete tmp_path sfiles)
                          else AList.update tmp_path file sfiles) } }"

text \<open>\<open>racs_memtable_write_lsn\<close> gives up, with a message, when the manifest cannot be opened.\<close>

definition write_manifest :: "seg_io \<Rightarrow> racs_uint64 \<Rightarrow> os_dir \<Rightarrow> os_dir" where
  "write_manifest io lsn dir = (if io_manifest io then racs_memtable_write_lsn lsn dir else dir)"

definition racs_memtable_flush :: "seg_io \<Rightarrow> string \<Rightarrow> mt_addr option \<Rightarrow> store \<Rightarrow> store option" where
  "racs_memtable_flush io racs_time_dir p st =
     (case p of
        None \<Rightarrow> Some st
      | Some a \<Rightarrow>
          do { mt \<leftarrow> st_heap st a;
               if mt_entries mt = [] then Some st
               else do { let max_lsn = e_lsn (last (mt_entries mt));
                         let st = st\<lparr>st_wal := write_manifest io max_lsn (st_wal st)\<rparr>;
                         sfiles \<leftarrow> racs_memtable_write io racs_time_dir (mt_entries mt) (st_segs st);
                         let st = st\<lparr>st_segs := sfiles, st_heap := (st_heap st)(a \<mapsto> mt\<lparr>mt_entries := []\<rparr>)\<rparr>;
                         let st = st\<lparr>st_wal := racs_wal_truncate (st_wal st)\<rparr>;
                         racs_memtable_destroy a st } })"

text \<open>\<open>racs_memtable_flush_async\<close> starts a detached thread.\<close>

definition racs_memtable_flush_async :: "mt_addr \<Rightarrow> store \<Rightarrow> store" where
  "racs_memtable_flush_async a st = st\<lparr>st_threads := st_threads st @ [a]\<rparr>"

text \<open>The \<open>i\<close>-th started flush thread runs from start to end.\<close>

definition run_flush_thread :: "seg_io \<Rightarrow> string \<Rightarrow> nat \<Rightarrow> store \<Rightarrow> store option" where
  "run_flush_thread io racs_time_dir i st =
     (if i < length (st_threads st)
      then racs_memtable_flush io racs_time_dir (Some (st_threads st ! i))
             (st\<lparr>st_threads := take i (st_threads st) @ drop (Suc i) (st_threads st)\<rparr>)
      else None)"

section \<open>The list of tables\<close>

definition racs_multi_memtable_move_to_head :: "mt_addr \<Rightarrow> store \<Rightarrow> store option" where
  "racs_multi_memtable_move_to_head a st =
     do { mt \<leftarrow> st_heap st a;
          let mmt = st_mmt st;
          let h = (st_heap st)(a \<mapsto> mt\<lparr>mt_prev := None, mt_next := mmt_head mmt\<rparr>);
          (h, tail) \<leftarrow>
            (case mmt_head mmt of
               None \<Rightarrow> Some (h, Some a)
             | Some hd_a \<Rightarrow>
                 do { hd_mt \<leftarrow> h hd_a;
                      let h = h(hd_a \<mapsto> hd_mt\<lparr>mt_prev := Some a\<rparr>);
                      t \<leftarrow> mmt_tail mmt;
                      t_mt \<leftarrow> h t;
                      t' \<leftarrow> mt_prev t_mt;
                      t'_mt \<leftarrow> h t';
                      Some (h(t' \<mapsto> t'_mt\<lparr>mt_next := None\<rparr>), Some t') });
          Some (st\<lparr>st_heap := h, st_mmt := mmt\<lparr>mmt_head := Some a, mmt_tail := tail\<rparr>\<rparr>) }"

fun create_tables :: "nat \<Rightarrow> int \<Rightarrow> store \<Rightarrow> store option" where
  "create_tables 0 capacity st = Some st"
| "create_tables (Suc n) capacity st =
     do { let (a, st) = racs_memtable_create capacity st;
          st \<leftarrow> racs_multi_memtable_move_to_head a st;
          create_tables n capacity st }"

definition racs_multi_memtable_create :: "int \<Rightarrow> int \<Rightarrow> store \<Rightarrow> store option" where
  "racs_multi_memtable_create num_tables capacity st =
     create_tables (nat num_tables) capacity
       (st\<lparr>st_mmt := \<lparr>mmt_index = 0, mmt_num_tables = num_tables, mmt_head = None, mmt_tail = None\<rparr>\<rparr>)"

text \<open>
  \<open>racs_multi_memtable_append\<close>, split at the point where the flush thread may already run: up to
  \<open>pthread_create\<close>, and from the creation of the next table on. The first half returns the capacity of
  the next table if there is one to be created.
\<close>

definition append_begin :: "store \<Rightarrow> (int option \<times> store) option" where
  "append_begin st =
     do { a \<leftarrow> mmt_head (st_mmt st);
          mt \<leftarrow> st_heap st a;
          let capacity = uint (mt_capacity mt);
          if capacity \<le> int (length (mt_entries mt))
          then do { t \<leftarrow> mmt_tail (st_mmt st); Some (Some capacity, racs_memtable_flush_async t st) }
          else Some (None, st) }"

definition append_end :: "racs_key \<Rightarrow> bytes \<Rightarrow> racs_uint16 \<Rightarrow> racs_uint32 \<Rightarrow> racs_uint8 \<Rightarrow> racs_uint64
    \<Rightarrow> int option \<times> store \<Rightarrow> store option" where
  "append_end key block block_size checksum flags racs_wal_lsn r =
     do { let (full, st) = r;
          st \<leftarrow> (case full of
                   None \<Rightarrow> Some st
                 | Some capacity \<Rightarrow>
                     let (a, st) = racs_memtable_create capacity st in racs_multi_memtable_move_to_head a st);
          a \<leftarrow> mmt_head (st_mmt st);
          racs_memtable_append a key block block_size checksum flags racs_wal_lsn st }"

definition racs_multi_memtable_append :: "racs_key \<Rightarrow> bytes \<Rightarrow> racs_uint16 \<Rightarrow> racs_uint32 \<Rightarrow> racs_uint8
    \<Rightarrow> racs_uint64 \<Rightarrow> store \<Rightarrow> store option" where
  "racs_multi_memtable_append key block block_size checksum flags racs_wal_lsn st =
     do { r \<leftarrow> append_begin st; append_end key block block_size checksum flags racs_wal_lsn r }"

text \<open>The loop of \<open>racs_multi_memtable_flush\<close>; a null \<open>mt\<close> ends it.\<close>

partial_function (option) flush_tables :: "seg_io \<Rightarrow> string \<Rightarrow> mt_addr option \<Rightarrow> store \<Rightarrow> store option" where
  "flush_tables io racs_time_dir p st =
     (case p of
        None \<Rightarrow> Some st
      | Some a \<Rightarrow>
          do { mt \<leftarrow> st_heap st a;
               st' \<leftarrow> racs_memtable_flush io racs_time_dir (mt_next mt) st;
               flush_tables io racs_time_dir (mt_next mt) st' })"

definition racs_multi_memtable_flush :: "seg_io \<Rightarrow> string \<Rightarrow> store \<Rightarrow> store option" where
  "racs_multi_memtable_flush io racs_time_dir st = flush_tables io racs_time_dir (mmt_head (st_mmt st)) st"

section \<open>Reachable states\<close>

definition mk_entry :: "racs_key \<Rightarrow> bytes \<Rightarrow> racs_uint16 \<Rightarrow> racs_uint32 \<Rightarrow> racs_uint8 \<Rightarrow> racs_uint64
    \<Rightarrow> racs_memtable_entry" where
  "mk_entry key block block_size checksum flags lsn =
     \<lparr>e_key = key, e_lsn = lsn, e_checksum = checksum, e_block_size = block_size, e_flags = flags,
      e_block = take (unat block_size) block\<rparr>"

definition entries_at :: "store \<Rightarrow> mt_addr \<Rightarrow> racs_memtable_entry list" where
  "entries_at st a = (case st_heap st a of None \<Rightarrow> [] | Some mt \<Rightarrow> mt_entries mt)"

text \<open>
  Appends and flush threads in any order, with every append a step of its own. The first list is the
  history of appended entries, the second the tables whose thread has run.
\<close>

inductive mm_reach :: "int \<Rightarrow> int \<Rightarrow> racs_memtable_entry list \<Rightarrow> racs_memtable_entry list list \<Rightarrow> store \<Rightarrow> bool"
  for num_tables capacity where
  mm_create: "st_threads st = [] \<Longrightarrow> st_heap st = Map.empty \<Longrightarrow>
    racs_multi_memtable_create num_tables capacity st = Some st' \<Longrightarrow> mm_reach num_tables capacity [] [] st'"
| mm_append: "mm_reach num_tables capacity log fl st \<Longrightarrow>
    racs_multi_memtable_append key block block_size checksum flags lsn st = Some st' \<Longrightarrow>
    mm_reach num_tables capacity (log @ [mk_entry key block block_size checksum flags lsn]) fl st'"
| mm_flush: "mm_reach num_tables capacity log fl st \<Longrightarrow> run_flush_thread io dir i st = Some st' \<Longrightarrow>
    mm_reach num_tables capacity log (entries_at st (st_threads st ! i) # fl) st'"

definition mm_inv :: "int \<Rightarrow> racs_memtable_entry list \<Rightarrow> racs_memtable_entry list list \<Rightarrow> store \<Rightarrow> bool" where
  "mm_inv capacity log fl st \<longleftrightarrow>
     (\<exists>h m. mmt_head (st_mmt st) = Some h \<and> mmt_tail (st_mmt st) = Some h \<and> st_heap st h = Some m \<and>
        mt_next m = None \<and> mt_capacity m = word_of_int capacity \<and> int (length (mt_entries m)) \<le> capacity \<and>
        h \<notin> set (st_threads st) \<and> distinct (st_threads st) \<and>
        mset log = mset (mt_entries m) + (\<Sum>a\<leftarrow>st_threads st. mset (entries_at st a)) + (\<Sum>es\<leftarrow>fl. mset es)) \<and>
     (\<forall>a\<in>set (st_threads st). int (length (entries_at st a)) = capacity) \<and>
     (\<forall>a m. st_heap st a = Some m \<longrightarrow> a < st_fresh st \<and> (\<forall>e\<in>set (mt_entries m). entry_wf e))"

definition cap_ok :: "int \<Rightarrow> bool" where
  "cap_ok capacity \<longleftrightarrow> 1 \<le> capacity \<and> capacity \<le> 32740"

lemma cap_uint: "cap_ok c \<Longrightarrow> uint (word_of_int c :: racs_uint16) = c"
  by (simp add: cap_ok_def unsigned_of_int take_bit_int_eq_self)

lemma cap_unat: "cap_ok c \<Longrightarrow> unat (word_of_int c :: racs_uint16) = nat c"
  by (metis cap_uint unat_eq_nat_uint)

lemma move_to_head_empty:
  "st_heap st a = Some mt \<Longrightarrow> mmt_head (st_mmt st) = None \<Longrightarrow>
   racs_multi_memtable_move_to_head a st =
     Some (st\<lparr>st_heap := (st_heap st)(a \<mapsto> mt\<lparr>mt_prev := None, mt_next := None\<rparr>),
       st_mmt := (st_mmt st)\<lparr>mmt_head := Some a, mmt_tail := Some a\<rparr>\<rparr>)"
  by (simp add: racs_multi_memtable_move_to_head_def)

text \<open>With one table in the list, the new table replaces it: the link back to it is cut at once.\<close>

lemma move_to_head_single:
  "st_heap st a = Some mt \<Longrightarrow> st_heap st h = Some m \<Longrightarrow> a \<noteq> h \<Longrightarrow>
   mmt_head (st_mmt st) = Some h \<Longrightarrow> mmt_tail (st_mmt st) = Some h \<Longrightarrow>
   racs_multi_memtable_move_to_head a st =
     Some (st\<lparr>st_heap := (st_heap st)(h \<mapsto> m\<lparr>mt_prev := Some a\<rparr>, a \<mapsto> mt\<lparr>mt_prev := None, mt_next := None\<rparr>),
       st_mmt := (st_mmt st)\<lparr>mmt_head := Some a, mmt_tail := Some a\<rparr>\<rparr>)"
  by (auto simp: racs_multi_memtable_move_to_head_def fun_upd_twist)

lemma move_to_head_dangling:
  "mmt_head (st_mmt st) = Some h \<Longrightarrow> st_heap st h = None \<Longrightarrow> a \<noteq> h \<Longrightarrow>
   racs_multi_memtable_move_to_head a st = None"
  by (cases "st_heap st a") (auto simp: racs_multi_memtable_move_to_head_def)

text \<open>The shape of the list alone: one live table, with no next table.\<close>

definition mm_single :: "int \<Rightarrow> store \<Rightarrow> bool" where
  "mm_single capacity st \<longleftrightarrow> (\<exists>h m. mmt_head (st_mmt st) = Some h \<and> mmt_tail (st_mmt st) = Some h \<and>
     st_heap st h = Some m \<and> mt_next m = None \<and> mt_entries m = [] \<and> mt_capacity m = word_of_int capacity)"

lemma create_tables_single:
  assumes "mm_single capacity st \<or> mmt_head (st_mmt st) = None \<and> 0 < n"
    and "\<forall>a m. st_heap st a = Some m \<longrightarrow> a < st_fresh st \<and> mt_entries m = []"
    and "create_tables n capacity st = Some st'"
  shows "mm_single capacity st' \<and> st_threads st' = st_threads st \<and>
    (\<forall>a m. st_heap st' a = Some m \<longrightarrow> a < st_fresh st' \<and> mt_entries m = [])"
  using assms
proof (induction n arbitrary: st)
  case 0
  then show ?case by simp
next
  case (Suc n)
  let ?mt = "\<lparr>mt_entries = [], mt_capacity = word_of_int capacity, mt_next = None, mt_prev = None\<rparr>"
  obtain a st1 where c: "racs_memtable_create capacity st = (a, st1)" by fastforce
  then have st1: "a = st_fresh st" "st_heap st1 = (st_heap st)(a \<mapsto> ?mt)" "st_fresh st1 = a + 1"
      "st_mmt st1 = st_mmt st" "st_threads st1 = st_threads st"
    by (auto simp: racs_memtable_create_def Let_def)
  obtain st2 where m: "racs_multi_memtable_move_to_head a st1 = Some st2" "create_tables n capacity st2 = Some st'"
    using Suc.prems(3) by (auto simp: c elim!: bind_eq_SomeE)
  have live: "\<forall>b m. st_heap st b = Some m \<longrightarrow> b < a \<and> mt_entries m = []" using Suc.prems(2) st1 by simp
  have "mm_single capacity st2 \<and> st_threads st2 = st_threads st \<and>
      (\<forall>b m. st_heap st2 b = Some m \<longrightarrow> b < st_fresh st2 \<and> mt_entries m = [])"
  proof (cases "mmt_head (st_mmt st)")
    case None
    then have "racs_multi_memtable_move_to_head a st1 =
        Some (st1\<lparr>st_heap := (st_heap st1)(a \<mapsto> ?mt\<lparr>mt_prev := None, mt_next := None\<rparr>),
          st_mmt := (st_mmt st1)\<lparr>mmt_head := Some a, mmt_tail := Some a\<rparr>\<rparr>)"
      using st1 by (intro move_to_head_empty) simp_all
    with m(1) st1 live show ?thesis by (auto simp: mm_single_def less_Suc_eq split: if_splits)
  next
    case (Some h)
    with Suc.prems(1) obtain m where h: "mmt_tail (st_mmt st) = Some h" "st_heap st h = Some m" "mt_entries m = []"
      by (auto simp: mm_single_def)
    then have "h \<noteq> a" using live by auto
    with Some h have "racs_multi_memtable_move_to_head a st1 =
        Some (st1\<lparr>st_heap := (st_heap st1)(h \<mapsto> m\<lparr>mt_prev := Some a\<rparr>, a \<mapsto> ?mt\<lparr>mt_prev := None, mt_next := None\<rparr>),
          st_mmt := (st_mmt st1)\<lparr>mmt_head := Some a, mmt_tail := Some a\<rparr>\<rparr>)"
      using st1 by (intro move_to_head_single) simp_all
    with m(1) st1 live h show ?thesis by (auto simp: mm_single_def less_Suc_eq split: if_splits)
  qed
  with Suc.IH [of st2] m(2) show ?case by auto
qed

lemma memtable_append_eq:
  assumes "st_heap st a = Some mt" "length (mt_entries mt) < unat (mt_capacity mt)" "unat block_size \<le> length block"
  shows "racs_memtable_append a key block block_size checksum flags lsn st =
    Some (st\<lparr>st_heap := (st_heap st)
      (a \<mapsto> mt\<lparr>mt_entries := mt_entries mt @ [mk_entry key block block_size checksum flags lsn]\<rparr>)\<rparr>)"
  using assms by (simp add: racs_memtable_append_def mk_entry_def read_bin_def slice_def)

lemma memtable_append_SomeD:
  "racs_memtable_append a key block block_size checksum flags lsn st = Some st' \<Longrightarrow> unat block_size \<le> length block"
  by (auto simp: racs_memtable_append_def read_bin_def split: if_splits elim!: bind_eq_SomeE)

lemma multi_append_SomeD:
  "racs_multi_memtable_append key block block_size checksum flags lsn st = Some st' \<Longrightarrow> unat block_size \<le> length block"
  by (auto simp: racs_multi_memtable_append_def append_end_def split: prod.splits elim!: bind_eq_SomeE
      dest: memtable_append_SomeD)

lemma entry_wf_mk: "unat block_size \<le> length block \<Longrightarrow> entry_wf (mk_entry key block block_size checksum flags lsn)"
  by (simp add: entry_wf_def mk_entry_def)

lemma entries_at_upd [simp]:
  "st_heap st' = (st_heap st)(a := v) \<Longrightarrow> b \<noteq> a \<Longrightarrow> entries_at st' b = entries_at st b"
  by (simp add: entries_at_def)

lemma sum_entries_cong:
  "(\<And>a. a \<in> set as \<Longrightarrow> entries_at st' a = entries_at st a) \<Longrightarrow>
   (\<Sum>a\<leftarrow>as. mset (entries_at st' a)) = (\<Sum>a\<leftarrow>as. mset (entries_at st a))"
  by (induction as) auto

lemma mm_inv_append:
  assumes inv: "mm_inv capacity log fl st" and cap: "cap_ok capacity" and len: "unat block_size \<le> length block"
  shows "\<exists>st'. racs_multi_memtable_append key block block_size checksum flags lsn st = Some st' \<and>
    mm_inv capacity (log @ [mk_entry key block block_size checksum flags lsn]) fl st'"
proof -
  let ?e = "mk_entry key block block_size checksum flags lsn"
  from inv obtain h m where h: "mmt_head (st_mmt st) = Some h" "mmt_tail (st_mmt st) = Some h" "st_heap st h = Some m"
      "mt_next m = None" "mt_capacity m = word_of_int capacity" "int (length (mt_entries m)) \<le> capacity"
      "h \<notin> set (st_threads st)" "distinct (st_threads st)"
      "mset log = mset (mt_entries m) + (\<Sum>a\<leftarrow>st_threads st. mset (entries_at st a)) + (\<Sum>es\<leftarrow>fl. mset es)"
    by (auto simp: mm_inv_def)
  have th: "\<forall>a\<in>set (st_threads st). int (length (entries_at st a)) = capacity"
    and live: "\<forall>a m. st_heap st a = Some m \<longrightarrow> a < st_fresh st \<and> (\<forall>e\<in>set (mt_entries m). entry_wf e)"
    using inv by (auto simp: mm_inv_def)
  have c1: "1 \<le> capacity" using cap by (simp add: cap_ok_def)
  show ?thesis
  proof (cases "int (length (mt_entries m)) < capacity")
    case True
    let ?st' = "st\<lparr>st_heap := (st_heap st)(h \<mapsto> m\<lparr>mt_entries := mt_entries m @ [?e]\<rparr>)\<rparr>"
    have b: "append_begin st = Some (None, st)"
      using h True cap by (simp add: append_begin_def cap_uint)
    have r: "racs_multi_memtable_append key block block_size checksum flags lsn st = Some ?st'"
      unfolding racs_multi_memtable_append_def b
      using h len True cap by (simp add: append_end_def memtable_append_eq cap_unat)
    have s: "(\<Sum>a\<leftarrow>st_threads st. mset (entries_at ?st' a)) = (\<Sum>a\<leftarrow>st_threads st. mset (entries_at st a))"
      using h by (intro sum_entries_cong) (auto simp: entries_at_def)
    have "mm_inv capacity (log @ [?e]) fl ?st'"
      unfolding mm_inv_def
      using h True th live s entry_wf_mk [OF len] by (auto simp: entries_at_def)
    with r show ?thesis by blast
  next
    case False
    let ?f = "st_fresh st"
    let ?mt = "\<lparr>mt_entries = [], mt_capacity = word_of_int capacity, mt_next = None, mt_prev = None\<rparr>"
    let ?st1 = "racs_memtable_flush_async h st"
    have b: "append_begin st = Some (Some capacity, ?st1)"
      using h False cap by (simp add: append_begin_def cap_uint)
    let ?st2 = "st\<lparr>st_threads := st_threads st @ [h], st_heap := (st_heap st)(?f \<mapsto> ?mt), st_fresh := ?f + 1,
      st_blocks := st_blocks st + uint (mt_capacity ?mt)\<rparr>"
    have cr: "racs_memtable_create capacity ?st1 = (?f, ?st2)"
      by (simp add: racs_memtable_create_def racs_memtable_flush_async_def Let_def)
    have hf: "h < ?f" using h live by simp
    let ?h3 = "(st_heap ?st2)(h \<mapsto> m\<lparr>mt_prev := Some ?f\<rparr>, ?f \<mapsto> ?mt\<lparr>mt_prev := None, mt_next := None\<rparr>)"
    let ?st3 = "?st2\<lparr>st_heap := ?h3, st_mmt := (st_mmt ?st2)\<lparr>mmt_head := Some ?f, mmt_tail := Some ?f\<rparr>\<rparr>"
    have mv: "racs_multi_memtable_move_to_head ?f ?st2 = Some ?st3"
      using h hf by (intro move_to_head_single) auto
    let ?st' = "?st3\<lparr>st_heap := ?h3(?f \<mapsto> ?mt\<lparr>mt_prev := None, mt_next := None, mt_entries := [?e]\<rparr>)\<rparr>"
    have ap: "racs_memtable_append ?f key block block_size checksum flags lsn ?st3 = Some ?st'"
      using memtable_append_eq [of ?st3 ?f "?mt\<lparr>mt_prev := None, mt_next := None\<rparr>" block_size block key checksum flags lsn]
        len cap c1 by (simp add: cap_unat)
    have r: "racs_multi_memtable_append key block block_size checksum flags lsn st = Some ?st'"
      unfolding racs_multi_memtable_append_def b bind.simps append_end_def prod.case Let_def option.case cr mv
      using ap by simp
    have nf: "?f \<notin> set (st_threads st)"
    proof
      assume f: "?f \<in> set (st_threads st)"
      then have "entries_at st ?f \<noteq> []" using th c1 by force
      then show False using live by (force simp: entries_at_def split: option.splits)
    qed
    define st' where "st' = ?st'"
    define n where "n = ?mt\<lparr>mt_prev := None, mt_next := None, mt_entries := [?e]\<rparr>"
    have st': "st_threads st' = st_threads st @ [h]" "mmt_head (st_mmt st') = Some ?f" "mmt_tail (st_mmt st') = Some ?f"
      "st_fresh st' = Suc ?f" "st_heap st' = (st_heap st)(h \<mapsto> m\<lparr>mt_prev := Some ?f\<rparr>, ?f \<mapsto> n)"
      by (simp_all add: st'_def n_def)
    have n: "mt_entries n = [?e]" "mt_next n = None" "mt_capacity n = word_of_int capacity" by (simp_all add: n_def)
    have at: "entries_at st' a = entries_at st a" if "a \<noteq> ?f" for a
      using that h(3) st' by (auto simp: entries_at_def)
    have s: "(\<Sum>a\<leftarrow>st_threads st. mset (entries_at st' a)) = (\<Sum>a\<leftarrow>st_threads st. mset (entries_at st a))"
      using nf by (intro sum_entries_cong at) auto
    have eh: "entries_at st' h = mt_entries m"
      using hf h(3) st' by (simp add: entries_at_def)
    have th': "\<forall>a\<in>set (st_threads st'). int (length (entries_at st' a)) = capacity"
      using th nf at eh h(6) False st' by (metis Un_iff eh set_append list.set(1,2) insertE empty_iff le_less)
    have live': "\<forall>a m. st_heap st' a = Some m \<longrightarrow> a < st_fresh st' \<and> (\<forall>e\<in>set (mt_entries m). entry_wf e)"
      using live h(3) entry_wf_mk [OF len, of key checksum flags lsn] st' n by (auto simp: less_Suc_eq)
    have ms: "mset (log @ [?e]) = mset (mt_entries n) + (\<Sum>a\<leftarrow>st_threads st'. mset (entries_at st' a)) + (\<Sum>es\<leftarrow>fl. mset es)"
      using h(9) s eh st' n by simp
    have "mm_inv capacity (log @ [?e]) fl st'"
      unfolding mm_inv_def
      using h(7,8) nf th' live' ms c1 hf st' n
      by (intro conjI exI [of _ ?f] exI [of _ n]) (simp_all del: mset_append)
    then have "mm_inv capacity (log @ [?e]) fl ?st'" unfolding st'_def .
    with r show ?thesis by blast
  qed
qed

definition seg_path :: "string \<Rightarrow> racs_memtable_entry list \<Rightarrow> bool \<Rightarrow> string" where
  "seg_path dir es tmp = racs_time_to_path dir (sint (snd (e_key (hd es)))) tmp"

definition files_after :: "seg_io \<Rightarrow> string \<Rightarrow> racs_memtable_entry list \<Rightarrow> (string \<times> bytes) list
    \<Rightarrow> (string \<times> bytes) list" where
  "files_after io dir es sfiles =
     (if \<not> io_open io then sfiles
      else if \<not> io_flock io then AList.update (seg_path dir es True) [] sfiles
      else if io_rename io
      then AList.update (seg_path dir es False) (sst_bytes es) (AList.delete (seg_path dir es True) sfiles)
      else AList.update (seg_path dir es True) (sst_bytes es) sfiles)"

lemma memtable_write_eq:
  assumes "\<forall>e\<in>set es. entry_wf e" "es \<noteq> []" "length es \<le> 32740"
  shows "racs_memtable_write io dir es sfiles = Some (files_after io dir es sfiles)"
proof -
  obtain n where n: "memtable_buffer_size (length es) = Some n" using assms(3) memtable_buffer_size_iff by blast
  have "memtable_file (map (io_garbage io) [0..<n]) es = Some (sst_bytes es)"
    using memtable_file_eq [OF assms(1)] file_size_buffer [OF assms(1) n] by simp
  moreover obtain e es' where "es = e # es'" using assms(2) by (cases es) auto
  ultimately show ?thesis using n
    by (simp add: racs_memtable_write_def files_after_def seg_path_def Let_def)
qed

lemma memtable_flush_eq:
  assumes "st_heap st a = Some mt" "mt_entries mt \<noteq> []" "\<forall>e\<in>set (mt_entries mt). entry_wf e"
    "length (mt_entries mt) \<le> 32740"
  shows "racs_memtable_flush io dir (Some a) st =
    Some (st\<lparr>st_wal := racs_wal_truncate (write_manifest io (e_lsn (last (mt_entries mt))) (st_wal st)),
      st_segs := files_after io dir (mt_entries mt) (st_segs st), st_heap := (st_heap st)(a := None)\<rparr>)"
  using assms
  by (simp add: racs_memtable_flush_def memtable_write_eq Let_def racs_memtable_destroy_def)

lemma mm_inv_flush:
  assumes inv: "mm_inv capacity log fl st" and cap: "cap_ok capacity" and i: "i < length (st_threads st)"
  shows "\<exists>st'. run_flush_thread io dir i st = Some st' \<and>
    mm_inv capacity log (entries_at st (st_threads st ! i) # fl) st'"
proof -
  let ?a = "st_threads st ! i"
  define rest where "rest = take i (st_threads st) @ drop (Suc i) (st_threads st)"
  have split: "st_threads st = take i (st_threads st) @ ?a # drop (Suc i) (st_threads st)"
    using i by (simp add: id_take_nth_drop)
  from inv obtain h m where h: "mmt_head (st_mmt st) = Some h" "mmt_tail (st_mmt st) = Some h" "st_heap st h = Some m"
      "mt_next m = None" "mt_capacity m = word_of_int capacity" "int (length (mt_entries m)) \<le> capacity"
      "h \<notin> set (st_threads st)" "distinct (st_threads st)"
      "mset log = mset (mt_entries m) + (\<Sum>a\<leftarrow>st_threads st. mset (entries_at st a)) + (\<Sum>es\<leftarrow>fl. mset es)"
    by (auto simp: mm_inv_def)
  have th: "\<forall>a\<in>set (st_threads st). int (length (entries_at st a)) = capacity"
    and live: "\<forall>a m. st_heap st a = Some m \<longrightarrow> a < st_fresh st \<and> (\<forall>e\<in>set (mt_entries m). entry_wf e)"
    using inv by (auto simp: mm_inv_def)
  have a: "?a \<in> set (st_threads st)" using i by simp
  then have len: "int (length (entries_at st ?a)) = capacity" using th by blast
  then obtain mt where mt: "st_heap st ?a = Some mt" "entries_at st ?a = mt_entries mt"
    using cap by (cases "st_heap st ?a") (auto simp: entries_at_def cap_ok_def)
  let ?st0 = "st\<lparr>st_threads := rest\<rparr>"
  let ?st' = "?st0\<lparr>st_wal := racs_wal_truncate (write_manifest io (e_lsn (last (mt_entries mt))) (st_wal ?st0)),
      st_segs := files_after io dir (mt_entries mt) (st_segs ?st0), st_heap := (st_heap ?st0)(?a := None)\<rparr>"
  have "racs_memtable_flush io dir (Some ?a) ?st0 = Some ?st'"
    using mt live len cap by (intro memtable_flush_eq) (auto simp: cap_ok_def)
  then have run: "run_flush_thread io dir i st = Some ?st'"
    using i by (simp add: run_flush_thread_def rest_def)
  define st' where "st' = ?st'"
  have st': "st_threads st' = rest" "st_mmt st' = st_mmt st" "st_heap st' = (st_heap st)(?a := None)"
      "st_fresh st' = st_fresh st" by (simp_all add: st'_def)
  have d: "distinct (take i (st_threads st) @ ?a # drop (Suc i) (st_threads st))"
    using h(8) split by metis
  then have rest: "distinct rest" "?a \<notin> set rest" "set rest \<subseteq> set (st_threads st)"
    using arg_cong [OF split, of set] by (auto simp: rest_def)
  have at: "entries_at st' b = entries_at st b" if "b \<noteq> ?a" for b
    using that st' by (simp add: entries_at_def)
  have "(\<Sum>a\<leftarrow>st_threads st. mset (entries_at st a)) = mset (entries_at st ?a) + (\<Sum>a\<leftarrow>rest. mset (entries_at st a))"
    by (subst split) (simp add: rest_def)
  moreover have "(\<Sum>a\<leftarrow>rest. mset (entries_at st' a)) = (\<Sum>a\<leftarrow>rest. mset (entries_at st a))"
    using rest by (intro sum_entries_cong at) auto
  moreover have "h \<noteq> ?a" using h a by auto
  moreover have "\<forall>a\<in>set rest. int (length (entries_at st' a)) = capacity"
    using th rest at by (metis subsetD)
  ultimately have "mm_inv capacity log (entries_at st ?a # fl) st'"
    unfolding mm_inv_def using h rest live st'
    by (intro conjI exI [of _ h] exI [of _ m]) auto
  with run show ?thesis unfolding st'_def by blast
qed

lemma mm_inv_create:
  assumes "st_threads st = []" "st_heap st = Map.empty" "1 \<le> num_tables" "cap_ok capacity"
    "racs_multi_memtable_create num_tables capacity st = Some st'"
  shows "mm_inv capacity [] [] st'"
proof -
  have "mm_single capacity st' \<and> st_threads st' = [] \<and>
      (\<forall>a m. st_heap st' a = Some m \<longrightarrow> a < st_fresh st' \<and> mt_entries m = [])"
    using create_tables_single [of capacity
        "st\<lparr>st_mmt := \<lparr>mmt_index = 0, mmt_num_tables = num_tables, mmt_head = None, mmt_tail = None\<rparr>\<rparr>"
        "nat num_tables" st'] assms
    by (simp add: racs_multi_memtable_create_def)
  then show ?thesis using assms(4) by (fastforce simp: mm_inv_def mm_single_def cap_ok_def)
qed

lemma mm_reach_inv:
  "mm_reach num_tables capacity log fl st \<Longrightarrow> 1 \<le> num_tables \<Longrightarrow> cap_ok capacity \<Longrightarrow> mm_inv capacity log fl st"
proof (induction rule: mm_reach.induct)
  case (mm_create st st')
  then show ?case using mm_inv_create by simp
next
  case (mm_append log fl st key block block_size checksum flags lsn st')
  then show ?case using mm_inv_append [of capacity log fl st] multi_append_SomeD by (metis option.inject)
next
  case (mm_flush log fl st io dir i st')
  then have "i < length (st_threads st)" by (simp add: run_flush_thread_def split: if_splits)
  with mm_flush show ?case using mm_inv_flush [of capacity log fl st i io dir] by (metis option.inject)
qed

section \<open>The list of tables\<close>

definition empty_store :: "os_dir \<Rightarrow> store" where
  "empty_store wal = \<lparr>st_heap = Map.empty, st_fresh = 0, st_blocks = 0,
     st_mmt = \<lparr>mmt_index = 0, mmt_num_tables = 0, mmt_head = None, mmt_tail = None\<rparr>,
     st_threads = [], st_wal = wal, st_segs = []\<rparr>"

definition example_block :: "racs_uint64 \<Rightarrow> bytes" where
  "example_block i = [ucast i, 1]"

text \<open>A list of three configured tables of capacity 2 after three appends and one flush.\<close>

definition append3 :: "store \<Rightarrow> store option" where
  "append3 st = do { st \<leftarrow> racs_multi_memtable_append (7, 10) (example_block 1) 2 5 0 1 st;
     st \<leftarrow> racs_multi_memtable_append (7, 20) (example_block 2) 2 5 0 2 st;
     racs_multi_memtable_append (7, 30) (example_block 3) 2 5 0 3 st }"

lemma create_reach:
  assumes "1 \<le> num_tables" "cap_ok capacity"
  obtains st where "racs_multi_memtable_create num_tables capacity (empty_store w) = Some st"
    "mm_reach num_tables capacity [] [] st"
proof -
  have ex: "\<exists>st'. create_tables n capacity st = Some st'"
    if "mm_single capacity st \<or> mmt_head (st_mmt st) = None" "\<forall>a m. st_heap st a = Some m \<longrightarrow> a < st_fresh st" for n st
    using that
  proof (induction n arbitrary: st)
    case 0
    then show ?case by simp
  next
    case (Suc n)
    let ?st1 = "snd (racs_memtable_create capacity st)"
    have "\<exists>st2. racs_multi_memtable_move_to_head (st_fresh st) ?st1 = Some st2 \<and>
      mm_single capacity st2 \<and> (\<forall>a m. st_heap st2 a = Some m \<longrightarrow> a < st_fresh st2)"
    proof (cases "mmt_head (st_mmt st)")
      case None
      then show ?thesis using Suc.prems(2)
        by (auto simp: racs_memtable_create_def Let_def move_to_head_empty mm_single_def less_Suc_eq)
    next
      case (Some h)
      with Suc.prems(1) obtain m where h: "mmt_tail (st_mmt st) = Some h" "st_heap st h = Some m"
        by (auto simp: mm_single_def)
      then have "st_fresh st \<noteq> h" using Suc.prems(2) by auto
      then show ?thesis using Some h Suc.prems(2) move_to_head_single [of ?st1 "st_fresh st" _ h m]
        by (auto simp: racs_memtable_create_def Let_def mm_single_def less_Suc_eq)
    qed
    then show ?case using Suc.IH by (auto simp: racs_memtable_create_def Let_def)
  qed
  have "\<exists>st. racs_multi_memtable_create num_tables capacity (empty_store w) = Some st"
    unfolding racs_multi_memtable_create_def by (rule ex) (simp_all add: empty_store_def)
  then obtain st where "racs_multi_memtable_create num_tables capacity (empty_store w) = Some st" by blast
  moreover from this have "mm_reach num_tables capacity [] [] st"
    by (intro mm_reach.mm_create) (auto simp: empty_store_def)
  ultimately show thesis by (rule that)
qed

lemma example_append3:
  assumes "1 \<le> num_tables" "cap_ok capacity"
  obtains st st' where "racs_multi_memtable_create num_tables capacity (empty_store []) = Some st"
    "append3 st = Some st'"
    "mm_reach num_tables capacity [mk_entry (7, 10) (example_block 1) 2 5 0 1,
       mk_entry (7, 20) (example_block 2) 2 5 0 2, mk_entry (7, 30) (example_block 3) 2 5 0 3] [] st'"
proof -
  obtain st where st: "racs_multi_memtable_create num_tables capacity (empty_store []) = Some st"
    "mm_reach num_tables capacity [] [] st" using create_reach [OF assms] by blast
  have step: "\<exists>st'. racs_multi_memtable_append key (example_block i) 2 5 0 lsn s = Some st' \<and>
      mm_reach num_tables capacity (log @ [mk_entry key (example_block i) 2 5 0 lsn]) [] st'"
    if "mm_reach num_tables capacity log [] s" for key i lsn s log
    using mm_inv_append [OF mm_reach_inv [OF that assms] assms(2), of 2 "example_block i" key 5 0 lsn]
      mm_reach.mm_append [OF that] by (fastforce simp: example_block_def)
  obtain s1 where s1: "racs_multi_memtable_append (7, 10) (example_block 1) 2 5 0 1 st = Some s1"
    "mm_reach num_tables capacity [mk_entry (7, 10) (example_block 1) 2 5 0 1] [] s1"
    using step [OF st(2)] by fastforce
  obtain s2 where s2: "racs_multi_memtable_append (7, 20) (example_block 2) 2 5 0 2 s1 = Some s2"
    "mm_reach num_tables capacity [mk_entry (7, 10) (example_block 1) 2 5 0 1,
      mk_entry (7, 20) (example_block 2) 2 5 0 2] [] s2"
    using step [OF s1(2)] by fastforce
  obtain s3 where s3: "racs_multi_memtable_append (7, 30) (example_block 3) 2 5 0 3 s2 = Some s3"
    "mm_reach num_tables capacity [mk_entry (7, 10) (example_block 1) 2 5 0 1,
      mk_entry (7, 20) (example_block 2) 2 5 0 2, mk_entry (7, 30) (example_block 3) 2 5 0 3] [] s3"
    using step [OF s2(2)] by fastforce
  have "append3 st = Some s3" using s1 s2 s3 by (simp add: append3_def)
  with st s3 show thesis by (intro that [of st s3])
qed

text \<open>
  C9: Between appends the list of in-memory tables is a single table whatever number of tables was
  configured, and no entry is lost or duplicated: the entries appended so far are those of the table
  at the head, those of the tables waiting for their flush thread, and those of the tables flushed.
\<close>

theorem mmt_conservation:
  assumes "mm_reach num_tables capacity log fl st" "1 \<le> num_tables" "1 \<le> capacity" "capacity \<le> 32740"
  shows "\<exists>h mt. mmt_head (st_mmt st) = Some h \<and> mmt_tail (st_mmt st) = Some h \<and> st_heap st h = Some mt \<and>
    mt_next mt = None \<and> length (mt_entries mt) \<le> nat capacity \<and>
    mset log = mset (mt_entries mt) + (\<Sum>a\<leftarrow>st_threads st. mset (entries_at st a)) + (\<Sum>es\<leftarrow>fl. mset es)"
proof -
  have "cap_ok capacity" using assms by (simp add: cap_ok_def)
  from mm_reach_inv [OF assms(1,2) this] obtain h mt where
    "mmt_head (st_mmt st) = Some h" "mmt_tail (st_mmt st) = Some h" "st_heap st h = Some mt" "mt_next mt = None"
    "int (length (mt_entries mt)) \<le> capacity"
    "mset log = mset (mt_entries mt) + (\<Sum>a\<leftarrow>st_threads st. mset (entries_at st a)) + (\<Sum>es\<leftarrow>fl. mset es)"
    unfolding mm_inv_def by auto
  moreover from this(5) have "length (mt_entries mt) \<le> nat capacity" by simp
  ultimately show ?thesis by blast
qed

theorem mmt_conservation_witness:
  "\<exists>st st' h mt. racs_multi_memtable_create 3 2 (empty_store []) = Some st \<and> append3 st = Some st' \<and>
    mmt_head (st_mmt st') = Some h \<and> st_heap st' h = Some mt \<and> mt_next mt = None \<and> length (mt_entries mt) \<le> 2 \<and>
    size (mset (mt_entries mt) + (\<Sum>a\<leftarrow>st_threads st'. mset (entries_at st' a))) = 3"
proof -
  obtain st st' where st: "racs_multi_memtable_create 3 2 (empty_store []) = Some st" "append3 st = Some st'"
    "mm_reach 3 2 [mk_entry (7, 10) (example_block 1) 2 5 0 1,
       mk_entry (7, 20) (example_block 2) 2 5 0 2, mk_entry (7, 30) (example_block 3) 2 5 0 3] [] st'"
    by (rule example_append3 [of 3 2]) (simp_all add: cap_ok_def)
  from mmt_conservation [OF st(3)] obtain h mt where "mmt_head (st_mmt st') = Some h" "st_heap st' h = Some mt"
      "mt_next mt = None" "length (mt_entries mt) \<le> nat 2"
      "mset [mk_entry (7, 10) (example_block 1) 2 5 0 1,
       mk_entry (7, 20) (example_block 2) 2 5 0 2, mk_entry (7, 30) (example_block 3) 2 5 0 3] =
       mset (mt_entries mt) + (\<Sum>a\<leftarrow>st_threads st'. mset (entries_at st' a)) + (\<Sum>es\<leftarrow>[]. mset es)"
    by auto
  moreover from arg_cong [OF this(5), of size]
  have "size (mset (mt_entries mt) + (\<Sum>a\<leftarrow>st_threads st'. mset (entries_at st' a))) = 3" by simp
  ultimately show ?thesis using st by (intro exI [of _ st] exI [of _ st'] exI [of _ h] exI [of _ mt]) simp
qed

text \<open>
  C23: While the flush threads run only between appends, nothing goes wrong in memory: for tables of at most
  32740 entries, from every state that appends and flush threads reach one after the other, each append of a block
  that is as long as its size says succeeds, and each started flush thread runs to its end, whatever its file
  operations report. (When a thread runs inside the append that started it, the append may be undefined.)
\<close>

theorem mmt_progress:
  assumes "mm_reach num_tables capacity log fl st" "1 \<le> num_tables" "1 \<le> capacity" "capacity \<le> 32740"
  shows "(unat block_size \<le> length block \<longrightarrow>
      racs_multi_memtable_append key block block_size checksum flags lsn st \<noteq> None) \<and>
    (i < length (st_threads st) \<longrightarrow> run_flush_thread io dir i st \<noteq> None)"
proof -
  have cap: "cap_ok capacity" using assms by (simp add: cap_ok_def)
  show ?thesis
    using mm_inv_append [OF mm_reach_inv [OF assms(1,2) cap] cap, of block_size block key checksum flags lsn]
      mm_inv_flush [OF mm_reach_inv [OF assms(1,2) cap] cap, of i io dir] by auto
qed

theorem mmt_progress_witness:
  "\<exists>st st'. racs_multi_memtable_create 3 2 (empty_store []) = Some st \<and> append3 st = Some st' \<and>
    racs_multi_memtable_append (8, 5) [1] 1 0 0 4 st' \<noteq> None"
proof -
  obtain st st' where st: "racs_multi_memtable_create 3 2 (empty_store []) = Some st" "append3 st = Some st'"
    "mm_reach 3 2 [mk_entry (7, 10) (example_block 1) 2 5 0 1,
       mk_entry (7, 20) (example_block 2) 2 5 0 2, mk_entry (7, 30) (example_block 3) 2 5 0 3] [] st'"
    by (rule example_append3 [of 3 2]) (simp_all add: cap_ok_def)
  from mmt_progress [OF st(3), of 1 "[1]" "(8, 5)" 0 0 4] st(1,2) show ?thesis by auto
qed

lemma append_begin_full:
  assumes "mm_inv capacity log fl st" "append_begin st = Some (Some c, st1)" "cap_ok capacity"
  obtains h m where "mmt_head (st_mmt st) = Some h" "st_heap st h = Some m" "st1 = racs_memtable_flush_async h st"
    "mt_entries m \<noteq> []" "\<forall>e\<in>set (mt_entries m). entry_wf e" "length (mt_entries m) \<le> 32740" "h < st_fresh st"
proof -
  from assms(1) obtain h m where h: "mmt_head (st_mmt st) = Some h" "mmt_tail (st_mmt st) = Some h"
      "st_heap st h = Some m" "mt_capacity m = word_of_int capacity" "int (length (mt_entries m)) \<le> capacity"
      "\<forall>e\<in>set (mt_entries m). entry_wf e" "h < st_fresh st"
    by (auto simp: mm_inv_def)
  with assms(2,3) have "st1 = racs_memtable_flush_async h st" "capacity \<le> int (length (mt_entries m))"
    by (auto simp: append_begin_def cap_uint split: if_splits)
  with h assms(3) show thesis by (intro that [of h m]) (auto simp: cap_ok_def)
qed

text \<open>
  C24: The flush thread of a full table must not overtake the append that started it: in every
  reachable state in which an append starts the flush of the table at the head, if the thread
  completes before that append links the next table, the append then stores through the freed table.
\<close>

theorem mmt_flush_race:
  assumes "mm_reach num_tables capacity log fl st" "1 \<le> num_tables" "1 \<le> capacity" "capacity \<le> 32740"
    and "append_begin st = Some (Some c, st1)"
  shows "\<exists>st2. run_flush_thread io dir (length (st_threads st)) st1 = Some st2 \<and>
    append_end key block block_size checksum flags lsn (Some c, st2) = None"
proof -
  have cap: "cap_ok capacity" using assms by (simp add: cap_ok_def)
  obtain h m where h: "mmt_head (st_mmt st) = Some h" "st_heap st h = Some m" "st1 = racs_memtable_flush_async h st"
    "mt_entries m \<noteq> []" "\<forall>e\<in>set (mt_entries m). entry_wf e" "length (mt_entries m) \<le> 32740" "h < st_fresh st"
    using append_begin_full [OF mm_reach_inv [OF assms(1,2) cap] assms(5) cap] by blast
  obtain st2 where st2: "racs_memtable_flush io dir (Some h) st = Some st2" "st_heap st2 h = None"
      "st_mmt st2 = st_mmt st" "st_fresh st2 = st_fresh st"
    using memtable_flush_eq [OF h(2,4,5,6)] by fastforce
  have "run_flush_thread io dir (length (st_threads st)) st1 = Some st2"
    using st2(1) h(3) by (simp add: run_flush_thread_def racs_memtable_flush_async_def)
  moreover have "racs_multi_memtable_move_to_head (st_fresh st2) (snd (racs_memtable_create c st2)) = None"
    using h(1,7) st2 by (intro move_to_head_dangling) (auto simp: racs_memtable_create_def Let_def)
  ultimately show ?thesis by (auto simp: append_end_def racs_memtable_create_def Let_def)
qed

definition full_example :: "store \<Rightarrow> store option" where
  "full_example st = racs_multi_memtable_append (7, 10) (example_block 1) 2 5 0 1 st"

theorem mmt_flush_race_witness:
  "\<exists>st st' st1 st2 io. racs_multi_memtable_create 1 1 (empty_store []) = Some st \<and> full_example st = Some st' \<and>
    append_begin st' = Some (Some 1, st1) \<and> run_flush_thread io [] (length (st_threads st')) st1 = Some st2 \<and>
    append_end (7, 20) (example_block 2) 2 5 0 2 (Some 1, st2) = None"
proof -
  have cap: "cap_ok 1" by (simp add: cap_ok_def)
  obtain st where st: "racs_multi_memtable_create 1 1 (empty_store []) = Some st" "mm_reach 1 1 [] [] st"
    using create_reach [OF _ cap, of 1] by auto
  obtain st' where st': "full_example st = Some st'" "mm_inv 1 [mk_entry (7, 10) (example_block 1) 2 5 0 1] [] st'"
    using mm_inv_append [OF mm_reach_inv [OF st(2) _ cap] cap, of 2 "example_block 1" "(7, 10)" 5 0 1]
    by (auto simp: example_block_def full_example_def)
  have r: "mm_reach 1 1 [mk_entry (7, 10) (example_block 1) 2 5 0 1] [] st'"
    using mm_reach.mm_append [OF st(2)] st'(1) by (fastforce simp: full_example_def)
  have "st_threads st' = []"
    using st'(1) st mm_reach_inv [OF st(2) _ cap]
    by (auto simp: full_example_def racs_multi_memtable_create_def empty_store_def racs_memtable_create_def Let_def
        move_to_head_empty racs_multi_memtable_append_def append_begin_def append_end_def
        racs_memtable_append_def elim!: bind_eq_SomeE)
  then obtain st1 where "append_begin st' = Some (Some 1, st1)"
    using st'(2) by (auto simp: mm_inv_def append_begin_def cap_uint [OF cap])
  with mmt_flush_race [OF r _ _ _ this, of "\<lparr>io_manifest = True, io_open = True, io_flock = True, io_rename = True, io_garbage = \<lambda>_. 0\<rparr>" "[]"
      "(7, 20)" "example_block 2" 2 5 0 2] st st'
  show ?thesis by fastforce
qed

text \<open>
  The flush at shutdown writes nothing: in every reachable state \<open>racs_multi_memtable_flush\<close> changes
  neither the segment files nor the log nor the tables, since it flushes only the tables behind the
  head and there is none.
\<close>

theorem mmt_shutdown_flush:
  assumes "mm_reach num_tables capacity log fl st" "1 \<le> num_tables" "1 \<le> capacity" "capacity \<le> 32740"
  shows "racs_multi_memtable_flush io dir st = Some st"
proof -
  have "cap_ok capacity" using assms by (simp add: cap_ok_def)
  from mm_reach_inv [OF assms(1,2) this] show ?thesis
    by (auto simp: mm_inv_def racs_multi_memtable_flush_def flush_tables.simps racs_memtable_flush_def)
qed

theorem mmt_shutdown_flush_witness:
  "\<exists>st st'. racs_multi_memtable_create 3 2 (empty_store []) = Some st \<and> append3 st = Some st' \<and>
    (\<forall>io dir. racs_multi_memtable_flush io dir st' = Some st')"
proof -
  obtain st st' where st: "racs_multi_memtable_create 3 2 (empty_store []) = Some st" "append3 st = Some st'"
    "mm_reach 3 2 [mk_entry (7, 10) (example_block 1) 2 5 0 1,
       mk_entry (7, 20) (example_block 2) 2 5 0 2, mk_entry (7, 30) (example_block 3) 2 5 0 3] [] st'"
    by (rule example_append3 [of 3 2]) (simp_all add: cap_ok_def)
  have "racs_multi_memtable_flush io dir st' = Some st'" for io dir
    by (rule mmt_shutdown_flush [OF st(3)]) simp_all
  with st(1,2) show ?thesis by blast
qed

section \<open>Flushing\<close>

lemma map_of_filter_key: "(\<And>v. P (k, v)) \<Longrightarrow> map_of (filter P al) k = map_of al k"
  by (induction al) auto

lemma checkpoint_truncate: "racs_wal_checkpoint_lsn (racs_wal_truncate dir) = racs_wal_checkpoint_lsn dir"
proof -
  have "strcmp ''manifest'' ''manifest'' = 0" by simp
  then show ?thesis
    unfolding racs_wal_truncate_def Let_def racs_wal_checkpoint_lsn_def [of "filter _ _"]
    by (subst map_of_filter_key) (simp_all add: wal_doomed_def racs_wal_checkpoint_lsn_def)
qed

lemma tmp_path_neq: "seg_path dir es True \<noteq> seg_path dir' es False"
  if "dir' = dir"
  using that by (simp add: seg_path_def racs_time_to_path_def Let_def)

text \<open>
  C10: A flush makes a table durable when its file operations succeed: the table's segment file is
  in place under the path of its first entry's time, reading it through its index gives back the
  entries of the table, the manifest names the sequence number of its last entry, and the table is
  freed; the block buffers of the table are not.
\<close>

theorem memtable_flush_persists:
  assumes "st_heap st a = Some mt" "es = mt_entries mt" "es \<noteq> []" "\<forall>e\<in>set es. entry_wf e" "length es \<le> 32740"
    and "io_manifest io" "io_open io" "io_flock io" "io_rename io"
  shows "\<exists>st' f t. racs_memtable_flush io dir (Some a) st = Some st' \<and> st_heap st' a = None \<and>
    map_of (st_segs st') (racs_time_to_path dir (sint (snd (e_key (hd es)))) False) = Some f \<and>
    racs_sstable_read_in_memory f (length f) = Some t \<and>
    map (\<lambda>ix. racs_memtable_entry_read f (unat (ix_offset (the ix)))) (sst_index t) =
      map (\<lambda>e. Some (if crc32c_of (e_block e) = e_checksum e then Some e else None)) es \<and>
    racs_wal_checkpoint_lsn (st_wal st') = e_lsn (last es) \<and> st_blocks st' = st_blocks st"
proof -
  have len: "length es < 2 ^ 16" using assms(5) by simp
  have es: "map (\<lambda>ix. racs_memtable_entry_read (sst_bytes es) (unat (ix_offset (the ix))))
      (map Some (index_from RACS_HEADER_SIZE es)) =
      map (\<lambda>e. Some (if crc32c_of (e_block e) = e_checksum e then Some e else None)) es"
    using entry_read_indexed [OF assms(4) len] by (intro nth_equalityI) (simp_all add: entry_ok_def)
  show ?thesis
    using memtable_flush_eq [of st a mt io dir] assms read_in_memory_sst [OF len] es
    by (auto simp: write_manifest_def files_after_def seg_path_def update_conv' checkpoint_truncate length_sst_bytes)
qed

definition one_table :: "racs_memtable_entry list \<Rightarrow> store" where
  "one_table es = (empty_store [])\<lparr>st_heap := [0 \<mapsto> \<lparr>mt_entries = es, mt_capacity = 4, mt_next = None, mt_prev = None\<rparr>],
     st_fresh := 1, st_blocks := 4\<rparr>"

definition io_ok :: seg_io where
  "io_ok = \<lparr>io_manifest = True, io_open = True, io_flock = True, io_rename = True, io_garbage = \<lambda>_. 0\<rparr>"

theorem memtable_flush_persists_witness:
  "\<exists>st' f t. racs_memtable_flush io_ok [] (Some 0) (one_table [example_entry 1 [1, 2], example_entry 2 []]) = Some st' \<and>
    st_heap st' 0 = None \<and>
    map_of (st_segs st') (racs_time_to_path [] (sint (snd (e_key (hd [example_entry 1 [1, 2], example_entry 2 []])))) False) =
      Some f \<and>
    racs_sstable_read_in_memory f (length f) = Some t \<and>
    map (\<lambda>ix. racs_memtable_entry_read f (unat (ix_offset (the ix)))) (sst_index t) =
      map (\<lambda>e. Some (if crc32c_of (e_block e) = e_checksum e then Some e else None))
        [example_entry 1 [1, 2], example_entry 2 []] \<and>
    racs_wal_checkpoint_lsn (st_wal st') = e_lsn (last [example_entry 1 [1, 2], example_entry 2 []]) \<and>
    st_blocks st' = st_blocks (one_table [example_entry 1 [1, 2], example_entry 2 []])"
  by (rule memtable_flush_persists [of _ _ "\<lparr>mt_entries = [example_entry 1 [1, 2], example_entry 2 []],
        mt_capacity = 4, mt_next = None, mt_prev = None\<rparr>"])
     (simp_all add: one_table_def io_ok_def entry_wf_def example_entry_def)

text \<open>
  C25: A failed flush loses the table: if the segment file cannot be opened, locked or renamed, no file
  appears under the segment's path and the table is freed all the same, while the manifest, unless it could not
  be opened either, already says that everything up to its last entry has been written.
\<close>

theorem memtable_flush_failure:
  assumes "st_heap st a = Some mt" "es = mt_entries mt" "es \<noteq> []" "\<forall>e\<in>set es. entry_wf e" "length es \<le> 32740"
    and "\<not> (io_open io \<and> io_flock io \<and> io_rename io)"
    and "path = racs_time_to_path dir (sint (snd (e_key (hd es)))) False"
  shows "\<exists>st'. racs_memtable_flush io dir (Some a) st = Some st' \<and> st_heap st' a = None \<and>
    map_of (st_segs st') path = map_of (st_segs st) path \<and>
    racs_wal_checkpoint_lsn (st_wal st') =
      (if io_manifest io then e_lsn (last es) else racs_wal_checkpoint_lsn (st_wal st))"
  using memtable_flush_eq [of st a mt io dir] assms tmp_path_neq [of dir dir es]
  by (auto simp: write_manifest_def files_after_def seg_path_def update_conv' checkpoint_truncate)

theorem memtable_flush_failure_witness:
  "\<exists>st'. racs_memtable_flush (io_ok\<lparr>io_open := False\<rparr>) [] (Some 0) (one_table [example_entry 1 [1, 2]]) = Some st' \<and>
    st_heap st' 0 = None \<and>
    map_of (st_segs st') (racs_time_to_path [] (sint (snd (e_key (hd [example_entry 1 [1, 2]])))) False) =
      map_of (st_segs (one_table [example_entry 1 [1, 2]]))
        (racs_time_to_path [] (sint (snd (e_key (hd [example_entry 1 [1, 2]])))) False) \<and>
    racs_wal_checkpoint_lsn (st_wal st') = e_lsn (last [example_entry 1 [1, 2]])"
  using memtable_flush_failure [of "one_table [example_entry 1 [1, 2]]" 0 "\<lparr>mt_entries = [example_entry 1 [1, 2]],
        mt_capacity = 4, mt_next = None, mt_prev = None\<rparr>" "[example_entry 1 [1, 2]]" "io_ok\<lparr>io_open := False\<rparr>" _ "[]"]
  by (simp add: one_table_def io_ok_def entry_wf_def example_entry_def)

text \<open>
  The name of a segment file is the time of the table's first entry alone: when two tables whose
  first entries have the same time are flushed one after the other, the second file replaces the
  first, and only the second table can be read from that path.
\<close>

theorem segment_name_clash:
  assumes "a \<noteq> b" "st_heap st a = Some ma" "st_heap st b = Some mb"
    and "mt_entries ma \<noteq> []" "\<forall>e\<in>set (mt_entries ma). entry_wf e" "length (mt_entries ma) \<le> 32740"
    and "mt_entries mb \<noteq> []" "\<forall>e\<in>set (mt_entries mb). entry_wf e" "length (mt_entries mb) \<le> 32740"
    and "snd (e_key (hd (mt_entries ma))) = snd (e_key (hd (mt_entries mb)))"
    and "io_open io" "io_flock io" "io_rename io"
  shows "\<exists>st1 st2. racs_memtable_flush io dir (Some a) st = Some st1 \<and>
    racs_memtable_flush io dir (Some b) st1 = Some st2 \<and> st_heap st2 a = None \<and> st_heap st2 b = None \<and>
    map_of (st_segs st1) (seg_path dir (mt_entries ma) False) = Some (sst_bytes (mt_entries ma)) \<and>
    map_of (st_segs st2) (seg_path dir (mt_entries ma) False) = Some (sst_bytes (mt_entries mb))"
  using memtable_flush_eq [of st a ma io dir] assms memtable_flush_eq [of _ b mb io dir]
  by (auto simp: files_after_def seg_path_def update_conv')

theorem segment_name_clash_witness:
  "\<exists>st1 st2. racs_memtable_flush io_ok [] (Some 0) ((one_table [example_entry 1 [1]])\<lparr>st_heap :=
      [0 \<mapsto> \<lparr>mt_entries = [example_entry 1 [1]], mt_capacity = 4, mt_next = None, mt_prev = None\<rparr>,
       1 \<mapsto> \<lparr>mt_entries = [example_entry 1 [2]], mt_capacity = 4, mt_next = None, mt_prev = None\<rparr>]\<rparr>) = Some st1 \<and>
    racs_memtable_flush io_ok [] (Some 1) st1 = Some st2 \<and>
    map_of (st_segs st2) (seg_path [] [example_entry 1 [1]] False) = Some (sst_bytes [example_entry 1 [2]])"
  using segment_name_clash [of 0 1 "(one_table [example_entry 1 [1]])\<lparr>st_heap :=
      [0 \<mapsto> \<lparr>mt_entries = [example_entry 1 [1]], mt_capacity = 4, mt_next = None, mt_prev = None\<rparr>,
       1 \<mapsto> \<lparr>mt_entries = [example_entry 1 [2]], mt_capacity = 4, mt_next = None, mt_prev = None\<rparr>]\<rparr>"
      "\<lparr>mt_entries = [example_entry 1 [1]], mt_capacity = 4, mt_next = None, mt_prev = None\<rparr>"
      "\<lparr>mt_entries = [example_entry 1 [2]], mt_capacity = 4, mt_next = None, mt_prev = None\<rparr>" io_ok "[]"]
  by (auto simp: io_ok_def entry_wf_def example_entry_def)

end
