(* ===== verification/Filelist.thy ===== *)
theory Filelist
  imports Timepath "HOL-Library.Sublist"
begin

text \<open>
  Listing of data files, \<^verbatim>\<open>src/src/filelist.c\<close>, and the directory that a time range is searched
  in (\<^verbatim>\<open>racs_time_range_to_path\<close>). A directory tree lists its entries in the order of \<open>readdir\<close>,
  each with its type: the file system reports \<open>d_type\<close> (never \<open>DT_UNKNOWN\<close>, for which the code skips the
  entry), and every subdirectory can be opened.
  The theorems: a listing has every regular file below the directory once, in the order of \<open>strcmp\<close>;
  and the directory searched for a range contains every segment of the range.
\<close>

section \<open>Data\<close>

datatype fs_node = Reg bytes | Dir "(string \<times> fs_node) list" | Special

record racs_filelist =
  fl_files :: "string list"
  max_num_files :: nat

section \<open>Operations\<close>

definition racs_filelist_create :: racs_filelist where
  "racs_filelist_create = \<lparr>fl_files = [], max_num_files = 2\<rparr>"

definition racs_filelist_add :: "racs_filelist \<Rightarrow> string \<Rightarrow> racs_filelist option" where
  "racs_filelist_add list file_path =
     (let list = (if length (fl_files list) = max_num_files list
                  then list\<lparr>max_num_files := max_num_files list * 2\<rparr> else list)
      in if length (fl_files list) < max_num_files list
         then Some (list\<lparr>fl_files := fl_files list @ [file_path]\<rparr>) else None)"

function racs_list_files_recursive :: "racs_filelist \<Rightarrow> string \<Rightarrow> (string \<times> fs_node) list
    \<Rightarrow> racs_filelist option" where
  "racs_list_files_recursive list path [] = Some list"
| "racs_list_files_recursive list path ((name, entry) # dir) =
     (if strcmp name ''.'' = 0 \<or> strcmp name ''..'' = 0 then racs_list_files_recursive list path dir
      else do {
        let file_path = path @ ''/'' @ name;
        list \<leftarrow> (case entry of
                   Dir sub \<Rightarrow> racs_list_files_recursive list file_path sub
                 | Reg _ \<Rightarrow> racs_filelist_add list file_path
                 | Special \<Rightarrow> Some list);
        racs_list_files_recursive list path dir })"
  by pat_completeness auto
termination
  by (relation "measure (\<lambda>(_, _, es). size_list (size_prod (\<lambda>_. 0) size) es)") auto

text \<open>\<open>qsort\<close> with \<open>racs_path_cmp\<close>: the order of \<open>strcmp\<close> is linear, so the result is the sorted list.\<close>

definition racs_path_cmp :: "string \<Rightarrow> string \<Rightarrow> int" where
  "racs_path_cmp path1 path2 = strcmp path1 path2"

definition racs_filelist_sort :: "racs_filelist \<Rightarrow> racs_filelist" where
  "racs_filelist_sort list = list\<lparr>fl_files := sort (fl_files list)\<rparr>"

text \<open>\<open>opendir\<close> may fail (\<open>None\<close> for the directory), which leaves the list empty.\<close>

definition get_sorted_filelist :: "string \<Rightarrow> (string \<times> fs_node) list option \<Rightarrow> racs_filelist option" where
  "get_sorted_filelist path dir =
     do { let list = racs_filelist_create;
          list \<leftarrow> (case dir of None \<Rightarrow> Some list | Some es \<Rightarrow> racs_list_files_recursive list path es);
          Some (racs_filelist_sort list) }"

fun common_len :: "string \<Rightarrow> string \<Rightarrow> nat" where
  "common_len (a # s) (b # t) = (if a = b then Suc (common_len s t) else 0)"
| "common_len _ _ = 0"

fun back_to_slash :: "string \<Rightarrow> nat \<Rightarrow> nat" where
  "back_to_slash path i =
     (if 1 < i \<and> path ! (i - 1) \<noteq> CHR ''/'' then back_to_slash path (i - 1) else i)"

declare back_to_slash.simps [simp del]

text \<open>\<open>None\<close>: the decrement of \<open>i = 0\<close> wraps around and the copy leaves the buffer.\<close>

definition racs_resolve_shared_path :: "string \<Rightarrow> string \<Rightarrow> string option" where
  "racs_resolve_shared_path path1 path2 =
     (let i = back_to_slash path1 (common_len path1 path2)
      in if i = 0 then None else Some (take (i - 1) path1))"

definition racs_time_range_to_path :: "string \<Rightarrow> int \<Rightarrow> int \<Rightarrow> string option" where
  "racs_time_range_to_path racs_time_dir from to =
     racs_resolve_shared_path (racs_time_to_path racs_time_dir from False)
       (racs_time_to_path racs_time_dir to False)"

section \<open>A listing is complete and sorted\<close>

text \<open>The regular files below a directory, with their paths.\<close>

fun tree_files :: "string \<Rightarrow> (string \<times> fs_node) list \<Rightarrow> string list" where
  "tree_files path [] = []"
| "tree_files path ((name, entry) # es) =
     (if name = ''.'' \<or> name = ''..'' then []
      else case entry of Dir sub \<Rightarrow> tree_files (path @ ''/'' @ name) sub
           | Reg _ \<Rightarrow> [path @ ''/'' @ name] | Special \<Rightarrow> []) @ tree_files path es"

definition fl_inv :: "racs_filelist \<Rightarrow> bool" where
  "fl_inv list \<longleftrightarrow> 2 \<le> max_num_files list \<and> length (fl_files list) \<le> max_num_files list"

lemma filelist_add_Some:
  assumes "fl_inv list"
  obtains list' where "racs_filelist_add list p = Some list'" "fl_inv list'"
    "fl_files list' = fl_files list @ [p]"
proof -
  let ?l = "list\<lparr>max_num_files := max_num_files list * 2\<rparr>"
  let ?m = "if length (fl_files list) = max_num_files list then ?l else list"
  have "racs_filelist_add list p = Some (?m\<lparr>fl_files := fl_files list @ [p]\<rparr>)"
    using assms by (auto simp: racs_filelist_add_def fl_inv_def Let_def)
  then show ?thesis by (rule that) (use assms in \<open>auto simp: fl_inv_def\<close>)
qed

lemma list_files_tree:
  "fl_inv list \<Longrightarrow> \<exists>list'. racs_list_files_recursive list path es = Some list' \<and> fl_inv list' \<and>
     fl_files list' = fl_files list @ tree_files path es"
proof (induction list path es rule: racs_list_files_recursive.induct)
  case (1 list path)
  then show ?case by simp
next
  case (2 list path name entry dir)
  show ?case
  proof (cases "strcmp name ''.'' = 0 \<or> strcmp name ''..'' = 0")
    case True
    with 2 show ?thesis by (auto simp: strcmp_order)
  next
    case False
    obtain l1 where l1: "(case entry of Dir sub \<Rightarrow> racs_list_files_recursive list (path @ ''/'' @ name) sub
        | Reg _ \<Rightarrow> racs_filelist_add list (path @ ''/'' @ name) | Special \<Rightarrow> Some list) = Some l1"
      "fl_inv l1" "fl_files l1 = fl_files list @ (case entry of Dir sub \<Rightarrow> tree_files (path @ ''/'' @ name) sub
           | Reg _ \<Rightarrow> [path @ ''/'' @ name] | Special \<Rightarrow> [])"
    proof (cases entry)
      case (Reg b)
      with that show ?thesis using filelist_add_Some [OF 2(4)] by auto
    next
      case (Dir sub)
      with that 2(2) [OF False refl Dir] 2(4) show ?thesis by auto
    next
      case Special
      with that 2(4) show ?thesis by auto
    qed
    obtain l2 where "racs_list_files_recursive l1 path dir = Some l2" "fl_inv l2"
        "fl_files l2 = fl_files l1 @ tree_files path dir"
      using 2(3) [OF False refl l1(1,2)] by blast
    with l1 False show ?thesis
      by (intro exI [of _ l2]) (simp only: racs_list_files_recursive.simps Let_def if_False bind.simps,
          simp add: strcmp_order)
  qed
qed

text \<open>
  C29: A directory listing is complete, duplicate free and ordered: it has exactly the regular files of the
  tree below the directory, as often as the tree has them, in the order of \<open>strcmp\<close>, and growing the
  array never writes outside it.
\<close>

theorem filelist_complete_sorted:
  "\<exists>list. get_sorted_filelist path (Some es) = Some list \<and> fl_files list = sort (tree_files path es) \<and>
     sorted_wrt (\<lambda>p q. racs_path_cmp p q \<le> 0) (fl_files list)"
proof -
  have "fl_inv racs_filelist_create" by (simp add: fl_inv_def racs_filelist_create_def)
  from list_files_tree [OF this, of path es] obtain l where
    l: "racs_list_files_recursive racs_filelist_create path es = Some l"
      "fl_files l = tree_files path es" by (auto simp: racs_filelist_create_def)
  have cmp: "racs_path_cmp p q \<le> 0 \<longleftrightarrow> p \<le> q" for p q
    using strcmp_order(3) [of p q] by (auto simp: racs_path_cmp_def not_less [symmetric])
  have "sorted_wrt (\<le>) (sort (tree_files path es))" by simp
  with l show ?thesis
    by (simp add: get_sorted_filelist_def racs_filelist_sort_def cmp)
qed

section \<open>The directory of a range\<close>

lemma common_len_take: "take (common_len s t) s = take (common_len s t) t"
  "common_len s t \<le> length s" "common_len s t \<le> length t"
  by (induction s t rule: common_len.induct) auto

lemma back_to_slash_prop:
  assumes "path \<noteq> []" "hd path = CHR ''/''" "0 < i"
  shows "0 < back_to_slash path i \<and> back_to_slash path i \<le> i \<and> path ! (back_to_slash path i - 1) = CHR ''/''"
  using assms
proof (induction path i rule: back_to_slash.induct)
  case (1 path i)
  show ?case
  proof (cases "1 < i \<and> path ! (i - 1) \<noteq> CHR ''/''")
    case True
    with 1 have "0 < back_to_slash path (i - 1) \<and> back_to_slash path (i - 1) \<le> i - 1 \<and>
        path ! (back_to_slash path (i - 1) - 1) = CHR ''/''" by simp
    moreover have "back_to_slash path i = back_to_slash path (i - 1)"
      using True by (subst back_to_slash.simps) simp
    ultimately show ?thesis by auto
  next
    case False
    then have "i = 1 \<or> path ! (i - 1) = CHR ''/''" using 1(4) by auto
    then have "path ! (i - 1) = CHR ''/''" using 1(2,3) by (auto simp: hd_conv_nth)
    moreover have "back_to_slash path i = i"
      by (subst back_to_slash.simps) (simp only: False if_False)
    ultimately show ?thesis using 1(4) by simp
  qed
qed

lemma shared_path:
  assumes "hd p = CHR ''/''" "p \<noteq> []" "hd q = CHR ''/''" "q \<noteq> []"
  obtains r p' q' where "racs_resolve_shared_path p q = Some r" "p = r @ ''/'' @ p'" "q = r @ ''/'' @ q'"
proof -
  let ?n = "common_len p q"
  let ?i = "back_to_slash p ?n"
  have "0 < ?n" using assms by (cases p; cases q) auto
  note b = back_to_slash_prop [OF assms(2,1) this]
  have le: "?i \<le> length p" "?i \<le> length q"
    using b common_len_take(2,3) [of p q] by auto
  have pre: "take ?i p = take ?i q"
    using common_len_take(1) [of p q] b by (metis min.absorb1 take_take)
  have ti: "take ?i p = take (?i - 1) p @ ''/''"
    using b le take_Suc_conv_app_nth [of "?i - 1" p] by auto
  have "p = take (?i - 1) p @ ''/'' @ drop ?i p" "q = take (?i - 1) p @ ''/'' @ drop ?i q"
    using append_take_drop_id [of ?i p] append_take_drop_id [of ?i q] pre ti by (metis append.assoc)+
  moreover have "racs_resolve_shared_path p q = Some (take (?i - 1) p)"
    using b by (simp add: racs_resolve_shared_path_def)
  ultimately show ?thesis using that by blast
qed

lemma sandwich_prefix:
  "p @ s \<le> u \<Longrightarrow> u \<le> p @ t \<Longrightarrow> \<exists>v. u = p @ (v :: string)"
proof (induction p arbitrary: u)
  case Nil
  then show ?case by simp
next
  case (Cons a p)
  then obtain u' where "u = a # u'" "p @ s \<le> u'" "u' \<le> p @ t"
    by (cases u) (auto simp: Cons_le_Cons)
  with Cons.IH show ?case by auto
qed

lemma range_dir_prefix:
  assumes "in_range from" "in_range to" "from \<le> t" "t \<le> to" "dir \<noteq> []" "hd dir = CHR ''/''"
  shows "\<exists>r q. racs_time_range_to_path dir from to = Some r \<and>
    racs_time_to_path dir t False = r @ ''/'' @ q"
proof -
  have t: "in_range t" using assms by (auto simp: in_range_def)
  have ord: "racs_time_to_path dir a False \<le> racs_time_to_path dir b False"
    if "in_range a" "in_range b" "a \<le> b" for a b
    using path_fields_mono [OF that(1,2)] that
    by (cases "a = b") (auto simp: to_path_eq append_less_same seg_string_order seg_widths_pos less_imp_le)
  have hd: "hd (racs_time_to_path dir a False) = CHR ''/''" "racs_time_to_path dir a False \<noteq> []"
    if "in_range a" for a using that assms by (simp_all add: to_path_eq)
  obtain r p' q' where r: "racs_time_range_to_path dir from to = Some r"
      "racs_time_to_path dir from False = (r @ ''/'') @ p'" "racs_time_to_path dir to False = (r @ ''/'') @ q'"
    using shared_path [OF hd [OF assms(1)] hd [OF assms(2)]] by (auto simp: racs_time_range_to_path_def)
  have "(r @ ''/'') @ p' \<le> racs_time_to_path dir t False" "racs_time_to_path dir t False \<le> (r @ ''/'') @ q'"
    using ord [OF assms(1) t assms(3)] ord [OF t assms(2) assms(4)] r(2,3) by simp_all
  from sandwich_prefix [OF this] r(1) show ?thesis by auto
qed

text \<open>
  C28: The directory that \<open>racs_time_range_to_path\<close> computes for a range is defined and covers it: the
  segment path of every time of the range lies below that directory, for every absolute data
  directory and all times from 1970 up to the year 9999.
\<close>

theorem range_dir_covers:
  assumes "in_range from" "in_range to" "from \<le> t" "t \<le> to" "dir \<noteq> []" "hd dir = CHR ''/''"
  shows "\<exists>r q. racs_time_range_to_path dir from to = Some r \<and>
    racs_time_to_path dir t False = r @ ''/'' @ q"
  using assms by (rule range_dir_prefix)

theorem range_dir_covers_witness:
  "racs_time_range_to_path ''/d'' 1735689600000 1735693199999 = Some ''/d/.racs/seg/2025/01/01/00'' \<and>
   (\<exists>q. racs_time_to_path ''/d'' 1735690000000 False = ''/d/.racs/seg/2025/01/01/00'' @ ''/'' @ q)"
proof -
  have r: "racs_time_range_to_path ''/d'' 1735689600000 1735693199999 = Some ''/d/.racs/seg/2025/01/01/00''"
    by code_simp
  show ?thesis
    using range_dir_covers [of 1735689600000 1735693199999 1735690000000 "''/d''"] r
    by (simp add: in_range_def time_limit_def)
qed

end
