(* ===== verification/Murmur3.thy ===== *)
theory Murmur3
  imports Bytes
begin

text \<open>
  The hash of \<^verbatim>\<open>src/src/murmur3.c\<close> and \<^verbatim>\<open>src/src/murmur3.h\<close> (MurmurHash3, x64, 128 bits), which
  places every key of the in-memory tables and names every stream. The finaliser is shown to be
  invertible, and the fall-through \<open>switch\<close> over the tail to read the zero-padded tail as two
  little-endian words.
\<close>

definition rotl64 :: "racs_uint64 \<Rightarrow> nat \<Rightarrow> racs_uint64" where
  "rotl64 x r = push_bit r x OR drop_bit (64 - r) x"

definition fmix64 :: "racs_uint64 \<Rightarrow> racs_uint64" where
  "fmix64 k =
     (let k = k XOR drop_bit 33 k;
          k = k * 0xff51afd7ed558ccd;
          k = k XOR drop_bit 33 k;
          k = k * 0xc4ceb9fe1a85ec53
      in k XOR drop_bit 33 k)"

definition murmur_c1 :: racs_uint64 where "murmur_c1 = 0x87c37b91114253d5"
definition murmur_c2 :: racs_uint64 where "murmur_c2 = 0x4cf5ad432745937f"

definition mix_k1 :: "racs_uint64 \<Rightarrow> racs_uint64" where
  "mix_k1 k1 = rotl64 (k1 * murmur_c1) 31 * murmur_c2"

definition mix_k2 :: "racs_uint64 \<Rightarrow> racs_uint64" where
  "mix_k2 k2 = rotl64 (k2 * murmur_c2) 33 * murmur_c1"

text \<open>One iteration of the body loop, on the block words \<open>k1\<close> and \<open>k2\<close>.\<close>

definition murmur_block :: "racs_uint64 \<times> racs_uint64 \<Rightarrow> racs_uint64 \<Rightarrow> racs_uint64
    \<Rightarrow> racs_uint64 \<times> racs_uint64" where
  "murmur_block h k1 k2 =
     (let (h1, h2) = h;
          h1 = h1 XOR mix_k1 k1;
          h1 = rotl64 h1 27 + h2;
          h1 = h1 * 5 + 0x52dce729;
          h2 = h2 XOR mix_k2 k2;
          h2 = rotl64 h2 31 + h1;
          h2 = h2 * 5 + 0x38495ab5
      in (h1, h2))"

text \<open>
  The cases of the \<open>switch\<close> fall through: entering at \<open>t = len & 15\<close> executes the cases \<open>t\<close>,
  \<open>t - 1\<close>, \<dots> in this order. \<open>tail_word lo hi tail\<close> is the accumulation of the cases
  \<open>hi, \<dots>, lo + 1\<close>, whose statements read \<open>tail[hi - 1], \<dots>, tail[lo]\<close>.
\<close>

definition tail_word :: "nat \<Rightarrow> nat \<Rightarrow> bytes \<Rightarrow> racs_uint64" where
  "tail_word lo hi tail =
     foldr (\<lambda>i k. k XOR push_bit (8 * (i - lo)) (ucast (tail ! i))) [lo..<hi] 0"

definition murmur_tail :: "racs_uint64 \<times> racs_uint64 \<Rightarrow> bytes \<Rightarrow> racs_uint64 \<times> racs_uint64" where
  "murmur_tail h tail =
     (let (h1, h2) = h; t = length tail;
          h2 = (if 9 \<le> t then h2 XOR mix_k2 (tail_word 8 t tail) else h2);
          h1 = (if 1 \<le> t then h1 XOR mix_k1 (tail_word 0 (min t 8) tail) else h1)
      in (h1, h2))"

fun murmur_body :: "nat \<Rightarrow> bytes \<Rightarrow> racs_uint64 \<times> racs_uint64 \<Rightarrow> racs_uint64 \<times> racs_uint64" where
  "murmur_body 0 data h = h"
| "murmur_body (Suc n) data h =
     murmur_body n (drop 16 data)
       (murmur_block h (of_le_bytes (take 8 data)) (of_le_bytes (take 8 (drop 8 data))))"

definition murmur3_x64_128 :: "bytes \<Rightarrow> racs_uint32 \<Rightarrow> racs_uint64 \<times> racs_uint64" where
  "murmur3_x64_128 data seed =
     (let len = length data; n = len div 16;
          (h1, h2) = murmur_body n data (ucast seed, ucast seed);
          (h1, h2) = murmur_tail (h1, h2) (drop (n * 16) data);
          h1 = h1 XOR of_nat len; h2 = h2 XOR of_nat len;
          h1 = h1 + h2; h2 = h2 + h1;
          h1 = fmix64 h1; h2 = fmix64 h2;
          h1 = h1 + h2; h2 = h2 + h1
      in (h1, h2))"

text \<open>The hash of a two-word key and of a string, as the tables and \<open>racs_hash\<close> call it.\<close>

definition key_bytes :: "racs_key \<Rightarrow> bytes" where
  "key_bytes k = le_bytes 8 (fst k) @ le_bytes 8 (snd k)"

definition string_bytes :: "string \<Rightarrow> bytes" where
  "string_bytes s = map (\<lambda>c. of_nat (of_char c)) s"

section \<open>The finaliser is invertible\<close>

definition fmix64_inverse :: "racs_uint64 \<Rightarrow> racs_uint64" where
  "fmix64_inverse k =
     (let k = k XOR drop_bit 33 k;
          k = k * 0x9cb4b2f8129337db;
          k = k XOR drop_bit 33 k;
          k = k * 0x4f74430c22a54005
      in k XOR drop_bit 33 k)"

lemma xorshift33_involution:
  "(k XOR drop_bit 33 k) XOR drop_bit 33 (k XOR drop_bit 33 k) = (k :: racs_uint64)"
proof -
  have "drop_bit 66 k = 0"
    by (rule bit_eqI) (auto simp: bit_drop_bit_eq dest: bit_imp_le_length)
  then show ?thesis by (simp add: xor.assoc)
qed

lemma mult_inverse_right: "a * b = 1 \<Longrightarrow> x * a * b = (x :: racs_uint64)"
  by (simp add: mult.assoc)

lemma fmix64_multipliers:
  "(0xc4ceb9fe1a85ec53 :: racs_uint64) * 0x9cb4b2f8129337db = 1"
  "(0xff51afd7ed558ccd :: racs_uint64) * 0x4f74430c22a54005 = 1"
  "(0x9cb4b2f8129337db :: racs_uint64) * 0xc4ceb9fe1a85ec53 = 1"
  "(0x4f74430c22a54005 :: racs_uint64) * 0xff51afd7ed558ccd = 1"
  by simp_all

lemmas fmix64_cancel = fmix64_multipliers [THEN mult_inverse_right]

lemma fmix64_inverse_fmix64: "fmix64_inverse (fmix64 k) = k"
  by (simp only: fmix64_def fmix64_inverse_def Let_def xorshift33_involution fmix64_cancel)

lemma fmix64_fmix64_inverse: "fmix64 (fmix64_inverse k) = k"
  by (simp only: fmix64_def fmix64_inverse_def Let_def xorshift33_involution fmix64_cancel)

section \<open>The tail is a zero-padded block\<close>

lemma foldr_xor_acc: "foldr (\<lambda>i k. k XOR f i) xs a = a XOR foldr (\<lambda>i k. k XOR f i) xs (0 :: racs_uint64)"
  by (induction xs) (simp_all add: xor.assoc)

lemma xor_0_left_word: "0 XOR a = (a :: racs_uint64)"
  by simp

lemma tail_word_Suc:
  "lo \<le> n \<Longrightarrow>
   tail_word lo (Suc n) tail = push_bit (8 * (n - lo)) (ucast (tail ! n)) XOR tail_word lo n tail"
  unfolding tail_word_def
  using foldr_xor_acc [of "\<lambda>i. push_bit (8 * (i - lo)) (ucast (tail ! i))" "[lo..<n]"
    "push_bit (8 * (n - lo)) (ucast (tail ! n))"]
  by (simp only: upt_Suc if_True foldr_append foldr.simps o_apply id_apply xor_0_left_word)

lemma bit_tail_word:
  assumes "lo \<le> hi" "hi \<le> lo + 8"
  shows "bit (tail_word lo hi tail) i \<longleftrightarrow>
    i < 64 \<and> lo + i div 8 < hi \<and> bit (tail ! (lo + i div 8)) (i mod 8)"
  using assms
proof (induction hi rule: dec_induct)
  case base
  then show ?case by (simp add: tail_word_def)
next
  case (step n)
  then have IH: "bit (tail_word lo n tail) i \<longleftrightarrow>
      i < 64 \<and> lo + i div 8 < n \<and> bit (tail ! (lo + i div 8)) (i mod 8)" by simp
  have new: "bit (push_bit (8 * (n - lo)) (ucast (tail ! n)) :: racs_uint64) i \<longleftrightarrow>
      i < 64 \<and> lo + i div 8 = n \<and> bit (tail ! n) (i mod 8)"
  proof (cases "lo + i div 8 = n")
    case True
    then have "i - 8 * (n - lo) = i mod 8" "8 * (n - lo) \<le> i"
      by (simp_all add: modulo_nat_def)
    with True show ?thesis
      by (auto simp: bit_push_bit_iff bit_ucast_iff)
  next
    case False
    then have "\<not> (8 * (n - lo) \<le> i \<and> i - 8 * (n - lo) < 8)"
      using step.hyps by auto
    with False show ?thesis
      by (auto simp: bit_push_bit_iff bit_ucast_iff dest: bit_imp_le_length)
  qed
  show ?case
  proof (cases "lo + i div 8 = n")
    case True
    with step.hyps IH new show ?thesis by (simp add: tail_word_Suc bit_xor_iff)
  next
    case False
    with step.hyps IH new show ?thesis
      by (auto simp: tail_word_Suc bit_xor_iff less_Suc_eq)
  qed
qed

lemma tail_word_le:
  assumes "lo \<le> hi" "hi \<le> lo + 8" "hi \<le> length tail"
  shows "tail_word lo hi tail = of_le_bytes (slice lo (hi - lo) tail @ replicate m 0)"
proof (rule bit_eqI)
  fix i
  assume "possible_bit TYPE(64 word) i"
  then have "i < 64" by simp
  with assms show "bit (tail_word lo hi tail) i =
      bit (of_le_bytes (slice lo (hi - lo) tail @ replicate m 0) :: racs_uint64) i"
    by (auto simp: bit_tail_word bit_of_le_bytes nth_append nth_slice)
qed

text \<open>
  The reference reading of the tail: pad it with zero bytes to a whole block and mix in the words
  that the tail reaches.
\<close>

definition padded_tail :: "racs_uint64 \<times> racs_uint64 \<Rightarrow> bytes \<Rightarrow> racs_uint64 \<times> racs_uint64" where
  "padded_tail h tail =
     (let block = tail @ replicate (16 - length tail) 0
      in (if tail = [] then fst h else fst h XOR mix_k1 (of_le_bytes (take 8 block)),
          if length tail \<le> 8 then snd h else snd h XOR mix_k2 (of_le_bytes (drop 8 block))))"

lemma murmur_tail_padded:
  assumes "length tail < 16"
  shows "murmur_tail h tail = padded_tail h tail"
proof -
  have k1: "tail_word 0 (min (length tail) 8) tail =
      of_le_bytes (take 8 (tail @ replicate (16 - length tail) 0))"
  proof (cases "length tail \<le> 8")
    case True
    then show ?thesis
      using tail_word_le [of 0 "length tail" tail "8 - length tail"]
      by (simp add: slice_def min_def)
  next
    case False
    then show ?thesis
      using tail_word_le [of 0 8 tail 0] by (simp add: slice_def min_def)
  qed
  have k2: "tail_word 8 (length tail) tail =
      of_le_bytes (drop 8 (tail @ replicate (16 - length tail) 0))" if "8 < length tail"
    using that assms tail_word_le [of 8 "length tail" tail "16 - length tail"]
    by (simp add: slice_def)
  show ?thesis
    using k1 k2 by (cases h) (auto simp: murmur_tail_def padded_tail_def Let_def Suc_le_eq)
qed

text \<open>
  The hash of a byte string reads its last, incomplete block as the zero-padded block: the
  fall-through \<open>switch\<close> over \<open>len & 15\<close> is exactly the mixing of that block's two words.
\<close>

theorem murmur3_tail_padded:
  "murmur3_x64_128 data seed =
     (let n = length data div 16;
          (h1, h2) = padded_tail (murmur_body n data (ucast seed, ucast seed)) (drop (n * 16) data);
          h1 = h1 XOR of_nat (length data); h2 = h2 XOR of_nat (length data);
          h1 = h1 + h2; h2 = h2 + h1;
          h1 = fmix64 h1; h2 = fmix64 h2;
          h1 = h1 + h2; h2 = h2 + h1
      in (h1, h2))"
proof -
  have "length (drop (length data div 16 * 16) data) < 16"
    by (simp add: minus_div_mult_eq_mod)
  from murmur_tail_padded [OF this] show ?thesis
    by (simp add: murmur3_x64_128_def Let_def case_prod_beta)
qed

text \<open>The 64-bit finaliser loses no information: \<open>fmix64\<close> is a bijection on 64-bit words.\<close>

theorem fmix64_bij: "bij fmix64"
  by (rule o_bij [of fmix64_inverse])
     (simp_all add: fun_eq_iff fmix64_inverse_fmix64 fmix64_fmix64_inverse)

end
