(* ===== verification/Metadata.thy ===== *)
theory Metadata
  imports Multi Filelist Floats Murmur3
begin

text \<open>
  Stream metadata, \<^verbatim>\<open>src/src/metadata.c\<close>: one small file per stream, named by the hash of the stream's
  name, and the time of a byte position of a stream. The files are an association list from full paths
  to contents. \<open>stat\<close>, \<open>read\<close> and \<open>write\<close> on an existing file succeed; what \<open>open\<close>, \<open>flock\<close> and
  \<open>rename\<close> report on a write is a parameter.
\<close>

section \<open>C strings as bytes\<close>

definition str_bytes :: "string \<Rightarrow> bytes" where
  "str_bytes s = map (\<lambda>c. of_nat (char_code c)) s"

definition bytes_str :: "bytes \<Rightarrow> string" where
  "bytes_str bs = map (\<lambda>b. char_of (unat b)) bs"

text \<open>The string that starts at a position of a buffer, up to its terminator (\<open>None\<close>: there is none).\<close>

definition c_str :: "bytes \<Rightarrow> nat \<Rightarrow> string option" where
  "c_str buf off = (if 0 \<in> set (drop off buf) then Some (bytes_str (takeWhile (\<lambda>b. b \<noteq> 0) (drop off buf))) else None)"

definition cstr_ok :: "string \<Rightarrow> bool" where
  "cstr_ok s \<longleftrightarrow> char_of (0 :: nat) \<notin> set s"

lemma unat_char_byte: "unat (of_nat (char_code c) :: racs_uint8) = char_code c"
  by (simp add: unsigned_of_nat take_bit_nat_eq_self char_code_def)

lemma bytes_str_bytes [simp]: "bytes_str (str_bytes s) = s"
  by (induction s) (auto simp: bytes_str_def str_bytes_def unat_char_byte, simp add: char_code_def)

lemma str_bytes_nonzero: "cstr_ok s \<Longrightarrow> b \<in> set (str_bytes s) \<Longrightarrow> b \<noteq> 0"
proof
  assume ok: "cstr_ok s" and b: "b \<in> set (str_bytes s)" "b = 0"
  then obtain c where c: "c \<in> set s" "(of_nat (char_code c) :: racs_uint8) = 0" by (auto simp: str_bytes_def)
  then have "char_code c = 0" using unat_char_byte [of c] by simp
  then have "c = char_of (0 :: nat)" by (metis char_code_def char_of_char)
  with ok c(1) show False by (simp add: cstr_ok_def)
qed

lemma length_str_bytes [simp]: "length (str_bytes s) = length s"
  by (simp add: str_bytes_def)

lemma c_str_at:
  assumes "cstr_ok s" "off = length p"
  shows "c_str (p @ str_bytes s @ 0 # q) off = Some s"
proof -
  have "takeWhile (\<lambda>b. b \<noteq> 0) (str_bytes s @ 0 # q) = str_bytes s"
    using str_bytes_nonzero [OF assms(1)] by (subst takeWhile_append2) auto
  then show ?thesis using assms(2) by (simp add: c_str_def)
qed

section \<open>Metadata records\<close>

text \<open>\<open>md_id\<close> is the string that \<open>id\<close> points to.\<close>

record racs_metadata =
  md_channels :: racs_uint16
  md_bit_depth :: racs_uint16
  md_sample_rate :: racs_uint32
  md_ref :: racs_int64
  md_ttl :: racs_int64
  md_id_size :: racs_uint32
  md_id :: string

definition racs_metadata_attr :: "racs_metadata \<Rightarrow> string \<Rightarrow> racs_int64" where
  "racs_metadata_attr md attr =
     (if strcmp attr ''sample_rate'' = 0 then ucast (md_sample_rate md)
      else if strcmp attr ''channels'' = 0 then ucast (md_channels md)
      else if strcmp attr ''bit_depth'' = 0 then ucast (md_bit_depth md)
      else if strcmp attr ''ref'' = 0 then md_ref md
      else 0)"

definition racs_metadata_size :: "racs_metadata \<Rightarrow> nat" where
  "racs_metadata_size md = unat (36 + md_id_size md)"

definition racs_metadata_write :: "bytes \<Rightarrow> racs_metadata \<Rightarrow> (bytes \<times> nat) option" where
  "racs_metadata_write buf md =
     do { (buf, offset) \<leftarrow> racs_write_uint16 buf (md_channels md) 0;
          (buf, offset) \<leftarrow> racs_write_uint16 buf (md_bit_depth md) offset;
          (buf, offset) \<leftarrow> racs_write_uint32 buf (md_sample_rate md) offset;
          (buf, offset) \<leftarrow> racs_write_uint64 buf (md_ref md) offset;
          (buf, offset) \<leftarrow> racs_write_uint64 buf (md_ttl md) offset;
          (buf, offset) \<leftarrow> racs_write_uint32 buf (md_id_size md) offset;
          racs_write_bin buf (str_bytes (md_id md) @ [0]) (sint (md_id_size md)) offset }"

definition racs_metadata_read :: "bytes \<Rightarrow> (racs_metadata \<times> nat) option" where
  "racs_metadata_read buf =
     do { (ch, offset) \<leftarrow> racs_read_uint16 buf 0;
          (bd, offset) \<leftarrow> racs_read_uint16 buf offset;
          (sr, offset) \<leftarrow> racs_read_uint32 buf offset;
          (ref, offset) \<leftarrow> racs_read_uint64 buf offset;
          (ttl, offset) \<leftarrow> racs_read_uint64 buf offset;
          (n, offset) \<leftarrow> racs_read_uint32 buf offset;
          name \<leftarrow> c_str buf offset;
          Some (\<lparr>md_channels = ch, md_bit_depth = bd, md_sample_rate = sr, md_ref = ref, md_ttl = ttl,
                 md_id_size = n, md_id = name\<rparr>, offset + unat n) }"

section \<open>Metadata files\<close>

definition racs_hash :: "string \<Rightarrow> racs_uint64" where
  "racs_hash stream_id = fst (murmur3_x64_128 (str_bytes stream_id) 0)"

definition racs_metadata_path :: "string \<Rightarrow> racs_uint64 \<Rightarrow> bool \<Rightarrow> string" where
  "racs_metadata_path racs_metadata_dir stream_id tmp =
     racs_metadata_dir @ ''/.racs/md/'' @ fmt_u0 0 stream_id @ (if tmp then ''.tmp'' else '''')"

type_synonym md_files = "(string \<times> bytes) list"

definition racs_metadata_exits :: "string \<Rightarrow> md_files \<Rightarrow> racs_uint64 \<Rightarrow> bool" where
  "racs_metadata_exits dir files stream_id \<longleftrightarrow> map_of files (racs_metadata_path dir stream_id False) \<noteq> None"

definition racs_metadata_filesize :: "md_files \<Rightarrow> string \<Rightarrow> nat" where
  "racs_metadata_filesize files path = (case map_of files path of None \<Rightarrow> 0 | Some d \<Rightarrow> length d)"

text \<open>The inner option is the return code: \<open>None\<close> for 0.\<close>

definition racs_metadata_get :: "string \<Rightarrow> md_files \<Rightarrow> racs_uint64 \<Rightarrow> racs_metadata option option" where
  "racs_metadata_get dir files stream_id =
     (let path = racs_metadata_path dir stream_id False
      in if \<not> racs_metadata_exits dir files stream_id then Some None
         else case map_of files path of
                None \<Rightarrow> Some None
              | Some d \<Rightarrow> do { (md, _) \<leftarrow> racs_metadata_read (take (racs_metadata_filesize files path) d);
                              Some (Some md) })"

definition racs_metadata_flush :: "seg_io \<Rightarrow> string \<Rightarrow> md_files \<Rightarrow> bytes \<Rightarrow> racs_uint64 \<Rightarrow> md_files" where
  "racs_metadata_flush io dir files d stream_id =
     (let tmp_path = racs_metadata_path dir stream_id True;
          final_path = racs_metadata_path dir stream_id False
      in if \<not> io_open io then files
         else if \<not> io_flock io then AList.update tmp_path [] files
         else if io_rename io then AList.update final_path d (AList.delete tmp_path files)
         else AList.update tmp_path d files)"

text \<open>The return code and the files.\<close>

definition racs_metadata_put :: "seg_io \<Rightarrow> string \<Rightarrow> md_files \<Rightarrow> racs_metadata \<Rightarrow> racs_uint64 \<Rightarrow> (bool \<times> md_files) option" where
  "racs_metadata_put io dir files md stream_id =
     do { s \<leftarrow> racs_metadata_get dir files stream_id;
          case s of
            Some _ \<Rightarrow> Some (False, files)
          | None \<Rightarrow>
              do { let len = racs_metadata_size md;
                   (d, _) \<leftarrow> racs_metadata_write (map (io_garbage io) [0..<len]) md;
                   Some (True, racs_metadata_flush io dir files d stream_id) } }"

section \<open>The time of a position\<close>

text \<open>
  The byte rate is computed in 32 bits; the conversion of the quotient to an integer is undefined when
  the rate is 0 or the result does not fit, as is the overflow of the final addition.
\<close>

definition byte_rate :: "racs_metadata \<Rightarrow> racs_uint32" where
  "byte_rate md = ucast (md_channels md) * md_sample_rate md * of_nat (unat (md_bit_depth md) div 8)"

definition racs_metadata_timestamp :: "racs_metadata \<Rightarrow> racs_uint64 \<Rightarrow> racs_int64 option" where
  "racs_metadata_timestamp md offset =
     (if byte_rate md = 0 then None
      else let seconds = double (double (of_nat (unat offset)) / of_nat (unat (byte_rate md)));
               ms = trunc_int (double (seconds * 1000));
               t = ms + sint (md_ref md)
           in if ms < 2 ^ 63 \<and> t < 2 ^ 63 then Some (word_of_int t) else None)"

section \<open>Listing streams\<close>

lemma strtok_progress:
  assumes "dropWhile (\<lambda>c. c = CHR ''/'') s \<noteq> []"
  shows "length (dropWhile (\<lambda>c. c \<noteq> CHR ''/'') (dropWhile (\<lambda>c. c = CHR ''/'') s)) < length s"
proof -
  obtain c t where ct: "dropWhile (\<lambda>c. c = CHR ''/'') s = c # t" using assms by (cases "dropWhile (\<lambda>c. c = CHR ''/'') s") auto
  then have "c \<noteq> CHR ''/''" using hd_dropWhile [of "\<lambda>c. c = CHR ''/''" s] by simp
  moreover have "length (c # t) \<le> length s" using length_dropWhile_le [of _ s] by (metis ct)
  moreover have "length (dropWhile (\<lambda>c. c \<noteq> CHR ''/'') t) \<le> length t" by (rule length_dropWhile_le)
  ultimately show ?thesis using ct by simp
qed

text \<open>The last token of \<open>strtok\<close> with the delimiter \<^verbatim>\<open>/\<close>.\<close>

function strtok_last :: "string \<Rightarrow> string option \<Rightarrow> string option" where
  "strtok_last s prev =
     (let t = dropWhile (\<lambda>c. c = CHR ''/'') s
      in if t = [] then prev
         else strtok_last (dropWhile (\<lambda>c. c \<noteq> CHR ''/'') t) (Some (takeWhile (\<lambda>c. c \<noteq> CHR ''/'') t)))"
  by pat_completeness auto
termination by (relation "measure (\<lambda>(s, _). length s)") (auto simp: strtok_progress)

declare strtok_last.simps [simp del]

definition racs_path_to_stream_id :: "string \<Rightarrow> racs_uint64" where
  "racs_path_to_stream_id path =
     (case strtok_last path None of None \<Rightarrow> 0 | Some prev \<Rightarrow> fst (strtoull prev))"

text \<open>
  \<open>fnmatch\<close> of the C library with the flag \<open>FNM_PATHNAME\<close> (a slash is matched by a slash only), in the
  C locale: \<open>*\<close>, \<open>?\<close>, backslash (a trailing one matches nothing) and bracket expressions with ranges,
  backslash and the twelve character classes. A bracket that is not closed is an ordinary character. Two
  forms are read as plain characters, which nothing depends on: \<open>[=x=]\<close> and \<open>[.x.]\<close> inside brackets; and an
  unknown class has no members. The source passes \<open>FNM_IGNORECASE\<close>, which
  glibc does not have; the fallback value \<open>0x01\<close> that the header gives it is \<open>FNM_PATHNAME\<close> there.
\<close>

definition char_classes :: "(string \<times> (char \<times> char) list) list" where
  "char_classes =
     [(''upper'', [(CHR ''A'', CHR ''Z'')]), (''lower'', [(CHR ''a'', CHR ''z'')]),
      (''alpha'', [(CHR ''A'', CHR ''Z''), (CHR ''a'', CHR ''z'')]), (''digit'', [(CHR ''0'', CHR ''9'')]),
      (''alnum'', [(CHR ''A'', CHR ''Z''), (CHR ''a'', CHR ''z''), (CHR ''0'', CHR ''9'')]),
      (''xdigit'', [(CHR ''0'', CHR ''9''), (CHR ''A'', CHR ''F''), (CHR ''a'', CHR ''f'')]),
      (''space'', [(CHR 0x09, CHR 0x0D), (CHR '' '', CHR '' '')]), (''blank'', [(CHR 0x09, CHR 0x09), (CHR '' '', CHR '' '')]),
      (''cntrl'', [(CHR 0x00, CHR 0x1F), (CHR 0x7F, CHR 0x7F)]), (''print'', [(CHR '' '', CHR 0x7E)]),
      (''graph'', [(CHR 0x21, CHR 0x7E)]),
      (''punct'', [(CHR 0x21, CHR 0x2F), (CHR 0x3A, CHR 0x40), (CHR 0x5B, CHR 0x60), (CHR 0x7B, CHR 0x7E)])]"

text \<open>A class behind its \<open>[\<close>: the name between colons, with the closing bracket.\<close>

definition char_class :: "string \<Rightarrow> ((char \<times> char) list \<times> string) option" where
  "char_class p =
     (case p of
        [] \<Rightarrow> None
      | c # q \<Rightarrow>
          (let name = takeWhile (\<lambda>d. 97 \<le> char_code d \<and> char_code d \<le> 122) q; r = drop (length name) q
           in if c = CHR '':'' \<and> take 2 r = '':]''
              then Some (case map_of char_classes name of None \<Rightarrow> [] | Some rs \<Rightarrow> rs, drop 2 r) else None))"

lemma char_class_shorter: "char_class p = Some (rs, q) \<Longrightarrow> length q \<le> length p"
  by (auto simp: char_class_def Let_def split: list.splits if_splits)

text \<open>One item of a bracket expression: a class, an escaped character, or the start of a range.\<close>

definition range_end :: "char \<Rightarrow> string \<Rightarrow> (char \<times> char) list \<times> string" where
  "range_end c p =
     (case p of
        d # e # q \<Rightarrow>
          if d = CHR ''-'' \<and> e \<noteq> CHR '']''
          then (if e = CHR 0x5C \<and> q \<noteq> [] then ([(c, hd q)], tl q) else ([(c, e)], q)) else ([(c, c)], p)
      | _ \<Rightarrow> ([(c, c)], p))"

lemma range_end_shorter: "range_end c p = (rs, q) \<Longrightarrow> length q \<le> length p"
  by (auto simp: range_end_def split: list.splits if_splits)

definition bracket_item :: "char \<Rightarrow> string \<Rightarrow> ((char \<times> char) list \<times> string) option" where
  "bracket_item c p =
     (if c = CHR 0x5C then (case p of [] \<Rightarrow> None | d # q \<Rightarrow> Some (range_end d q))
      else case (if c = CHR ''['' then char_class p else None) of None \<Rightarrow> Some (range_end c p) | Some x \<Rightarrow> Some x)"

lemma bracket_item_shorter: "bracket_item c p = Some (rs, q) \<Longrightarrow> length q \<le> length p"
  using range_end_shorter [of c p rs q] char_class_shorter [of p rs q]
  by (cases p) (auto simp: bracket_item_def split: if_splits option.splits dest: range_end_shorter)

text \<open>A bracket expression behind its \<open>[\<close>: the ranges up to the closing bracket, and what follows it.\<close>

function bracket_items :: "bool \<Rightarrow> string \<Rightarrow> ((char \<times> char) list \<times> string) option" where
  "bracket_items start [] = None"
| "bracket_items start (c # p) =
     (if c = CHR '']'' \<and> \<not> start then Some ([], p)
      else case bracket_item c p of
          None \<Rightarrow> None
        | Some (rs, q) \<Rightarrow> map_option (\<lambda>(rs', q'). (rs @ rs', q')) (bracket_items False q))"
  by pat_completeness auto
termination
  by (relation "measure (\<lambda>(_, p). length p)") (auto simp: less_Suc_eq_le intro: bracket_item_shorter)

lemma bracket_items_shorter: "bracket_items b p = Some (rs, q) \<Longrightarrow> length q < length p"
proof (induction b p arbitrary: rs rule: bracket_items.induct)
  case (2 start c p)
  then show ?case by (fastforce dest: bracket_item_shorter split: if_splits option.splits)
qed simp

definition fnm_bracket :: "string \<Rightarrow> (bool \<times> (char \<times> char) list \<times> string) option" where
  "fnm_bracket p =
     (let neg = (p \<noteq> [] \<and> (hd p = CHR ''!'' \<or> hd p = CHR ''^''))
      in map_option (\<lambda>(rs, q). (neg, rs, q)) (bracket_items True (if neg then tl p else p)))"

lemma fnm_bracket_shorter: "fnm_bracket p = Some (neg, rs, q) \<Longrightarrow> length q < length p"
  by (cases p) (auto simp: fnm_bracket_def Let_def simp del: bracket_items.simps split: if_splits
      dest!: bracket_items_shorter)

function fnmatch :: "string \<Rightarrow> string \<Rightarrow> bool" where
  "fnmatch [] s = (s = [])"
| "fnmatch (c # p) s =
     (if s = [] then c = CHR ''*'' \<and> fnmatch p s
      else if c = CHR ''*'' then fnmatch p s \<or> (hd s \<noteq> CHR ''/'' \<and> fnmatch (c # p) (tl s))
      else if c = CHR ''?'' then hd s \<noteq> CHR ''/'' \<and> fnmatch p (tl s)
      else if c = CHR 0x5C then p \<noteq> [] \<and> hd s = hd p \<and> fnmatch (tl p) (tl s)
      else if c = CHR ''['' then
        (case fnm_bracket p of
           None \<Rightarrow> hd s = c \<and> fnmatch p (tl s)
         | Some (neg, rs, q) \<Rightarrow>
             hd s \<noteq> CHR ''/'' \<and>
             (\<exists>r\<in>set rs. char_code (fst r) \<le> char_code (hd s) \<and> char_code (hd s) \<le> char_code (snd r)) \<noteq> neg \<and>
             fnmatch q (tl s))
      else hd s = c \<and> fnmatch p (tl s))"
  by pat_completeness auto
termination
  by (relation "measure (\<lambda>(p, s). length p + length s)")
     (auto simp: neq_Nil_conv dest: fnm_bracket_shorter)

declare fnmatch.simps(2) [simp del]

record racs_streams =
  streams :: "string list"
  max_streams :: nat

definition racs_streams_init :: racs_streams where
  "racs_streams_init = \<lparr>streams = [], max_streams = 2\<rparr>"

text \<open>\<open>None\<close>: the store is outside the array.\<close>

definition racs_streams_add :: "racs_streams \<Rightarrow> string \<Rightarrow> racs_streams option" where
  "racs_streams_add ss stream =
     (let ss = (if length (streams ss) = max_streams ss then ss\<lparr>max_streams := max_streams ss * 2\<rparr> else ss)
      in if length (streams ss) < max_streams ss then Some (ss\<lparr>streams := streams ss @ [stream]\<rparr>) else None)"

fun streams_loop :: "string \<Rightarrow> md_files \<Rightarrow> string \<Rightarrow> string list \<Rightarrow> racs_streams \<Rightarrow> racs_streams option" where
  "streams_loop dir files pattern [] ss = Some ss"
| "streams_loop dir files pattern (path # paths) ss =
     do { md \<leftarrow> racs_metadata_get dir files (racs_path_to_stream_id path);
          ss \<leftarrow> (case md of
                   None \<Rightarrow> Some ss
                 | Some m \<Rightarrow> if fnmatch pattern (md_id m) then racs_streams_add ss (md_id m) else Some ss);
          streams_loop dir files pattern paths ss }"

text \<open>The directory \<^verbatim>\<open>.racs/md\<close> as \<open>readdir\<close> lists it.\<close>

definition md_listing :: "string \<Rightarrow> md_files \<Rightarrow> (string \<times> fs_node) list" where
  "md_listing dir files =
     List.map_filter (\<lambda>(p, d). map_option (\<lambda>name. (name, Reg d)) (scan_lit (dir @ ''/.racs/md/'') p)) files"

definition racs_streams_list :: "string \<Rightarrow> md_files \<Rightarrow> string \<Rightarrow> racs_streams \<Rightarrow> racs_streams option" where
  "racs_streams_list dir files pattern ss =
     do { list \<leftarrow> get_sorted_filelist (dir @ ''/.racs/md'') (Some (md_listing dir files));
          streams_loop dir files pattern (fl_files list) ss }"

section \<open>Round trip of the files\<close>

definition md_wf :: "racs_metadata \<Rightarrow> bool" where
  "md_wf md \<longleftrightarrow> cstr_ok (md_id md) \<and> length (md_id md) < 2 ^ 31 - 37 \<and> md_id_size md = of_nat (length (md_id md) + 1)"

definition md_bytes :: "racs_metadata \<Rightarrow> bytes" where
  "md_bytes md = le_bytes 2 (md_channels md) @ le_bytes 2 (md_bit_depth md) @ le_bytes 4 (md_sample_rate md) @
     le_bytes 8 (md_ref md) @ le_bytes 8 (md_ttl md) @ le_bytes 4 (md_id_size md) @ str_bytes (md_id md) @ [0]"

lemma length_md_bytes [simp]: "length (md_bytes md) = 29 + length (md_id md)"
  by (simp add: md_bytes_def)

lemma md_sizes:
  assumes "md_wf md"
  shows "unat (md_id_size md) = length (md_id md) + 1" "sint (md_id_size md) = int (length (md_id md) + 1)"
    "racs_metadata_size md = 37 + length (md_id md)"
proof -
  let ?n = "length (md_id md) + 1"
  have n: "md_id_size md = of_nat ?n" "?n < 2 ^ 31 - 36" using assms by (auto simp: md_wf_def)
  show 1: "unat (md_id_size md) = ?n"
    unfolding n(1) using n(2) by (simp only: unsigned_of_nat) (simp add: take_bit_nat_eq_self)
  show "sint (md_id_size md) = int ?n"
    unfolding n(1) using n(2) by (simp only: signed_of_nat) (simp add: signed_take_bit_int_eq_self)
  have "36 + md_id_size md = of_nat (36 + ?n)" using n by simp
  then have "unat (36 + md_id_size md) = 36 + ?n" using n by (simp only: unsigned_of_nat) (simp add: take_bit_nat_eq_self)
  then show "racs_metadata_size md = 37 + length (md_id md)" by (simp add: racs_metadata_size_def)
qed

lemma metadata_write_eq:
  assumes "md_wf md" "length buf = racs_metadata_size md"
  shows "\<exists>q. racs_metadata_write buf md = Some (md_bytes md @ q, length (md_bytes md)) \<and> length q = 8"
proof -
  note len = md_sizes [OF assms(1)]
  have b: "length buf = 37 + length (md_id md)" using assms(2) len by simp
  let ?a = "[] @ le_bytes 2 (md_channels md)"
  let ?b = "?a @ le_bytes 2 (md_bit_depth md)"
  let ?c = "?b @ le_bytes 4 (md_sample_rate md)"
  let ?d = "?c @ le_bytes 8 (md_ref md)"
  let ?e = "?d @ le_bytes 8 (md_ttl md)"
  let ?f = "?e @ le_bytes 4 (md_id_size md)"
  let ?s = "str_bytes (md_id md) @ [0]"
  have 1: "racs_write_uint16 ([] @ buf) (md_channels md) 0 = Some (?a @ drop 2 buf, 0 + 2)"
    using b by (intro write_at) auto
  have 2: "racs_write_uint16 (?a @ drop 2 buf) (md_bit_depth md) (0 + 2) = Some (?b @ drop 2 (drop 2 buf), 0 + 2 + 2)"
    using b by (intro write_at) auto
  have 3: "racs_write_uint32 (?b @ drop 2 (drop 2 buf)) (md_sample_rate md) (0 + 2 + 2) =
      Some (?c @ drop 4 (drop 2 (drop 2 buf)), 0 + 2 + 2 + 4)"
    using b by (intro write_at) auto
  have 4: "racs_write_uint64 (?c @ drop 4 (drop 2 (drop 2 buf))) (md_ref md) (0 + 2 + 2 + 4) =
      Some (?d @ drop 8 (drop 4 (drop 2 (drop 2 buf))), 0 + 2 + 2 + 4 + 8)"
    using b by (intro write_at) auto
  have 5: "racs_write_uint64 (?d @ drop 8 (drop 4 (drop 2 (drop 2 buf)))) (md_ttl md) (0 + 2 + 2 + 4 + 8) =
      Some (?e @ drop 8 (drop 8 (drop 4 (drop 2 (drop 2 buf)))), 0 + 2 + 2 + 4 + 8 + 8)"
    using b by (intro write_at) auto
  have 6: "racs_write_uint32 (?e @ drop 8 (drop 8 (drop 4 (drop 2 (drop 2 buf))))) (md_id_size md) (0 + 2 + 2 + 4 + 8 + 8) =
      Some (?f @ drop 4 (drop 8 (drop 8 (drop 4 (drop 2 (drop 2 buf))))), 0 + 2 + 2 + 4 + 8 + 8 + 4)"
    using b by (intro write_at) auto
  have 7: "racs_write_bin (?f @ drop 4 (drop 8 (drop 8 (drop 4 (drop 2 (drop 2 buf)))))) ?s (sint (md_id_size md))
      (0 + 2 + 2 + 4 + 8 + 8 + 4) =
      Some ((?f @ ?s) @ drop (length ?s) (drop 4 (drop 8 (drop 8 (drop 4 (drop 2 (drop 2 buf)))))),
        0 + 2 + 2 + 4 + 8 + 8 + 4 + length ?s)"
    using b len by (intro write_at) auto
  let ?q = "drop (length ?s) (drop 4 (drop 8 (drop 8 (drop 4 (drop 2 (drop 2 buf))))))"
  have "racs_metadata_write buf md = Some ((?f @ ?s) @ ?q, 0 + 2 + 2 + 4 + 8 + 8 + 4 + length ?s)"
    using 1 2 3 4 5 6 7 by (simp add: racs_metadata_write_def)
  moreover have "(?f @ ?s) = md_bytes md" by (simp add: md_bytes_def)
  ultimately show ?thesis using b by (intro exI [of _ ?q]) simp
qed

lemma metadata_read_eq:
  assumes "md_wf md"
  shows "racs_metadata_read (md_bytes md @ q) = Some (md, length (md_bytes md))"
proof -
  let ?buf = "md_bytes md @ q"
  let ?a = "le_bytes 2 (md_channels md)"
  let ?b = "?a @ le_bytes 2 (md_bit_depth md)"
  let ?c = "?b @ le_bytes 4 (md_sample_rate md)"
  let ?d = "?c @ le_bytes 8 (md_ref md)"
  let ?e = "?d @ le_bytes 8 (md_ttl md)"
  let ?f = "?e @ le_bytes 4 (md_id_size md)"
  have "racs_read_uint16 ?buf 0 = Some (md_channels md, 2)"
    using u16.read_append [of 0 "[]" "md_channels md"] by (simp add: md_bytes_def)
  moreover have "racs_read_uint16 ?buf 2 = Some (md_bit_depth md, 4)"
    using u16.read_append [of 2 ?a "md_bit_depth md"] by (simp add: md_bytes_def)
  moreover have "racs_read_uint32 ?buf 4 = Some (md_sample_rate md, 8)"
    using u32.read_append [of 4 ?b "md_sample_rate md"] by (simp add: md_bytes_def)
  moreover have "racs_read_uint64 ?buf 8 = Some (md_ref md, 16)"
    using u64.read_append [of 8 ?c "md_ref md"] by (simp add: md_bytes_def)
  moreover have "racs_read_uint64 ?buf 16 = Some (md_ttl md, 24)"
    using u64.read_append [of 16 ?d "md_ttl md"] by (simp add: md_bytes_def)
  moreover have "racs_read_uint32 ?buf 24 = Some (md_id_size md, 28)"
    using u32.read_append [of 24 ?e "md_id_size md"] by (simp add: md_bytes_def)
  moreover have "c_str ?buf 28 = Some (md_id md)"
    using assms c_str_at [of "md_id md" 28 ?f q] by (simp add: md_bytes_def md_wf_def)
  ultimately show ?thesis using md_sizes [OF assms] by (simp add: racs_metadata_read_def)
qed

lemma nat_str_inject [simp]: "nat_str a = nat_str b \<longleftrightarrow> a = b"
  by (metis str_val_nat_str)

lemma fmt_u0_0: "fmt_u0 0 n = nat_str (unat n)"
  by (simp add: fmt_u0_def pad0_def)

lemma metadata_path_inject [simp]:
  "racs_metadata_path dir a False = racs_metadata_path dir b False \<longleftrightarrow> a = b"
  by (simp add: racs_metadata_path_def fmt_u0_0 word_unat_eq_iff)

lemma metadata_path_tmp [simp]: "racs_metadata_path dir a False \<noteq> racs_metadata_path dir b True"
proof
  assume "racs_metadata_path dir a False = racs_metadata_path dir b True"
  then have "nat_str (unat a) = nat_str (unat b) @ ''.tmp''" by (simp add: racs_metadata_path_def fmt_u0_0)
  then have "CHR ''.'' \<in> set (nat_str (unat a))" by simp
  then show False by (auto dest!: nat_str_digits simp: is_digit_def char_code_def)
qed

lemma metadata_get_path:
  "racs_metadata_get dir files stream_id =
    (case map_of files (racs_metadata_path dir stream_id False) of
       None \<Rightarrow> Some None
     | Some d \<Rightarrow> do { (md, _) \<leftarrow> racs_metadata_read d; Some (Some md) })"
  by (simp add: racs_metadata_get_def racs_metadata_exits_def racs_metadata_filesize_def split: option.splits)

definition io_good :: "seg_io \<Rightarrow> bool" where
  "io_good io \<longleftrightarrow> io_open io \<and> io_flock io \<and> io_rename io"

lemma metadata_put_new:
  assumes "md_wf md" "map_of files (racs_metadata_path dir stream_id False) = None" "io_good io"
  shows "\<exists>files' q. racs_metadata_put io dir files md stream_id = Some (True, files') \<and> length q = 8 \<and>
    map_of files' = (map_of files)(racs_metadata_path dir stream_id True := None,
      racs_metadata_path dir stream_id False \<mapsto> md_bytes md @ q)"
proof -
  let ?buf = "map (io_garbage io) [0..<racs_metadata_size md]"
  obtain q where q: "racs_metadata_write ?buf md = Some (md_bytes md @ q, length (md_bytes md))" "length q = 8"
    using metadata_write_eq [OF assms(1), of ?buf] by auto
  then show ?thesis
    using assms by (auto simp: racs_metadata_put_def metadata_get_path racs_metadata_flush_def io_good_def Let_def
        update_conv' delete_conv')
qed

text \<open>
  C18: Storing the metadata of a new stream and reading it back gives the record that was stored, whatever
  the uninitialised tail of the file holds; the metadata of every other stream is unchanged, and storing
  again under the same id is refused and changes nothing.
\<close>

theorem metadata_roundtrip:
  assumes "md_wf md" "map_of files (racs_metadata_path dir stream_id False) = None"
    and "io_open io" "io_flock io" "io_rename io"
  shows "\<exists>files'. racs_metadata_put io dir files md stream_id = Some (True, files') \<and>
    racs_metadata_get dir files' stream_id = Some (Some md) \<and>
    (\<forall>id. id \<noteq> stream_id \<longrightarrow> racs_metadata_get dir files' id = racs_metadata_get dir files id) \<and>
    racs_metadata_put io dir files' md2 stream_id = Some (False, files')"
proof -
  obtain files' q where f: "racs_metadata_put io dir files md stream_id = Some (True, files')"
    "map_of files' = (map_of files)(racs_metadata_path dir stream_id True := None,
      racs_metadata_path dir stream_id False \<mapsto> md_bytes md @ q)"
    using metadata_put_new [OF assms(1,2), of io] assms(3-5) unfolding io_good_def by blast
  have "racs_metadata_get dir files' stream_id = Some (Some md)"
    by (simp add: metadata_get_path f(2) metadata_read_eq [OF assms(1)])
  then show ?thesis using f by (auto simp: metadata_get_path racs_metadata_put_def)
qed

definition example_md :: racs_metadata where
  "example_md = \<lparr>md_channels = 2, md_bit_depth = 16, md_sample_rate = 48000, md_ref = 1000, md_ttl = - 1,
     md_id_size = 4, md_id = ''abc''\<rparr>"

lemma example_md_wf: "md_wf example_md"
  by (simp add: md_wf_def example_md_def cstr_ok_def char_of_def)

theorem metadata_roundtrip_witness:
  "\<exists>files'. racs_metadata_put io_ok ''/d'' [] example_md 7 = Some (True, files') \<and>
    racs_metadata_get ''/d'' files' 7 = Some (Some example_md) \<and>
    (\<forall>id. id \<noteq> 7 \<longrightarrow> racs_metadata_get ''/d'' files' id = racs_metadata_get ''/d'' [] id) \<and>
    racs_metadata_put io_ok ''/d'' files' example_md 7 = Some (False, files')"
  by (rule metadata_roundtrip) (simp_all add: example_md_wf io_ok_def)

section \<open>Times of positions\<close>

definition elapsed_ms :: "racs_metadata \<Rightarrow> racs_uint64 \<Rightarrow> int" where
  "elapsed_ms md offset =
     trunc_int (double (double (double (of_nat (unat offset)) / of_nat (unat (byte_rate md))) * 1000))"

lemma ratio_bound:
  fixes n r :: nat
  assumes "n * 1000 < 2 ^ 51 * r" "0 < r"
  shows "1000 * (of_nat n / of_nat r :: rat) < 2 ^ 51"
proof -
  have "(of_nat (n * 1000) :: rat) < of_nat (2 ^ 51 * r)" using assms(1) by (subst of_nat_less_iff)
  then show ?thesis using assms(2) by (simp add: field_simps)
qed

lemma elapsed_accurate:
  assumes "unat offset < 2 ^ 53" "unat offset * 1000 < 2 ^ 51 * unat (byte_rate md)"
  shows "\<bar>elapsed_ms md offset - int (unat offset * 1000 div unat (byte_rate md))\<bar> \<le> 1"
    "0 \<le> elapsed_ms md offset"
proof -
  let ?o = "unat offset" and ?r = "unat (byte_rate md)"
  have r: "0 < ?r" using assms(2) by (cases "?r = 0") auto
  define y :: rat where "y = of_nat ?o / of_nat ?r"
  have o: "double (of_nat ?o) = of_nat ?o" using assms(1) by (intro rnd_nat) simp_all
  have y0: "0 \<le> y" unfolding y_def by (rule divide_nonneg_nonneg) (rule of_nat_0_le_iff)+
  have y1: "1000 * y < 2 ^ 51" unfolding y_def by (rule ratio_bound [OF assms(2) r])
  define m where "m = double (double y * 1000)"
  have m: "\<bar>m - 1000 * y\<bar> < 1" unfolding m_def by (rule two_roundings [OF y0 y1])
  have m0: "0 \<le> m" unfolding m_def using rnd_nonneg y0 by simp
  have e: "elapsed_ms md offset = \<lfloor>m\<rfloor>" using m0 o by (simp add: elapsed_ms_def m_def y_def trunc_int_def)
  have "1000 * y = of_int (int (?o * 1000)) / of_int (int ?r)" by (simp add: y_def)
  then have "\<lfloor>1000 * y\<rfloor> = int (?o * 1000) div int ?r" by (simp only: floor_divide_of_int_eq)
  then have f: "\<lfloor>1000 * y\<rfloor> = int (?o * 1000 div ?r)" by (simp add: zdiv_int)
  have "\<lfloor>m\<rfloor> \<le> \<lfloor>1000 * y\<rfloor> + 1" "\<lfloor>1000 * y\<rfloor> \<le> \<lfloor>m\<rfloor> + 1" using m by linarith+
  then show "\<bar>elapsed_ms md offset - int (?o * 1000 div ?r)\<bar> \<le> 1" unfolding e f by linarith
  show "0 \<le> elapsed_ms md offset" unfolding e using m0 by simp
qed

lemma elapsed_mono:
  assumes "unat a \<le> unat b"
  shows "elapsed_ms md a \<le> elapsed_ms md b"
  unfolding elapsed_ms_def by (rule ms_mono) (rule of_nat_0_le_iff of_nat_mono [OF assms])+

lemma sint_word_of_int: "- (2 ^ 63) \<le> t \<Longrightarrow> t < 2 ^ 63 \<Longrightarrow> sint (word_of_int t :: racs_int64) = t"
  by (simp add: signed_of_int signed_take_bit_int_eq_self)

lemma timestamp_elapsed:
  assumes "byte_rate md \<noteq> 0" "0 \<le> sint (md_ref md)" "sint (md_ref md) < 2 ^ 62"
    "0 \<le> elapsed_ms md offset" "elapsed_ms md offset < 2 ^ 62"
  shows "\<exists>t. racs_metadata_timestamp md offset = Some t \<and> sint t = elapsed_ms md offset + sint (md_ref md)"
proof -
  let ?t = "elapsed_ms md offset + sint (md_ref md)"
  have "sint (word_of_int ?t :: racs_int64) = ?t"
    using assms by (intro sint_word_of_int) simp_all
  moreover have "racs_metadata_timestamp md offset = Some (word_of_int ?t)"
    using assms unfolding racs_metadata_timestamp_def Let_def elapsed_ms_def [symmetric] by simp
  ultimately show ?thesis by blast
qed

text \<open>
  C30: The time stamps of a stream follow its positions: for any metadata with a non-zero byte rate and
  positions up to 2^53 bytes and 2^51 milliseconds, no conversion is undefined, later positions never get
  earlier times, and each time is within one millisecond of the exact one.
\<close>

theorem timestamp_accurate:
  assumes "byte_rate md \<noteq> 0" "0 \<le> sint (md_ref md)" "sint (md_ref md) < 2 ^ 62"
    and "unat a \<le> unat b" "unat b < 2 ^ 53" "unat b * 1000 < 2 ^ 51 * unat (byte_rate md)"
  shows "\<exists>ta tb. racs_metadata_timestamp md a = Some ta \<and> racs_metadata_timestamp md b = Some tb \<and>
    sint ta \<le> sint tb \<and>
    \<bar>sint ta - (sint (md_ref md) + int (unat a * 1000 div unat (byte_rate md)))\<bar> \<le> 1"
proof -
  have a: "unat a < 2 ^ 53" "unat a * 1000 < 2 ^ 51 * unat (byte_rate md)" using assms(4-6) by linarith+
  have small: "int (unat c * 1000 div unat (byte_rate md)) < 2 ^ 51"
    if "unat c * 1000 < 2 ^ 51 * unat (byte_rate md)" for c :: racs_uint64
  proof -
    have "unat c * 1000 div unat (byte_rate md) < 2 ^ 51"
      using that by (intro less_mult_imp_div_less)
    then have "int (unat c * 1000 div unat (byte_rate md)) < int (2 ^ 51)" by (subst of_nat_less_iff)
    then show ?thesis by simp
  qed
  have big: "(2 :: int) ^ 51 + 1 < 2 ^ 62" by simp
  have near: "e < 2 ^ 62" if "\<bar>e - d\<bar> \<le> 1" "d < 2 ^ 51" for d e :: int using that big by linarith
  have le: "elapsed_ms md a < 2 ^ 62" "elapsed_ms md b < 2 ^ 62"
    by (rule near [OF elapsed_accurate(1) [OF a] small [OF a(2)]],
        rule near [OF elapsed_accurate(1) [OF assms(5,6)] small [OF assms(6)]])
  obtain ta where ta: "racs_metadata_timestamp md a = Some ta" "sint ta = elapsed_ms md a + sint (md_ref md)"
    using timestamp_elapsed [OF assms(1-3) elapsed_accurate(2) [OF a] le(1)] by blast
  obtain tb where tb: "racs_metadata_timestamp md b = Some tb" "sint tb = elapsed_ms md b + sint (md_ref md)"
    using timestamp_elapsed [OF assms(1-3) elapsed_accurate(2) [OF assms(5,6)] le(2)] by blast
  show ?thesis
    using ta tb elapsed_mono [OF assms(4), of md] elapsed_accurate(1) [OF a] by auto
qed

theorem timestamp_accurate_witness:
  "\<exists>ta tb. racs_metadata_timestamp example_md 1920 = Some ta \<and> racs_metadata_timestamp example_md 192000 = Some tb \<and>
    sint ta \<le> sint tb \<and>
    \<bar>sint ta - (sint (md_ref example_md) + int (unat (1920 :: racs_uint64) * 1000 div unat (byte_rate example_md)))\<bar> \<le> 1"
  by (rule timestamp_accurate) (simp_all add: byte_rate_def example_md_def)

text \<open>
  The truncation can lose the millisecond: at 8000 bytes per second, byte 8008 is at 1001 ms, and the
  computed time is 1000 ms.
\<close>

lemma double_1001: "trunc_int (double (double (double 8008 / 8000) * 1000)) = 1000"
  by code_simp

lemma timestamp_one_low:
  "elapsed_ms \<lparr>md_channels = 1, md_bit_depth = 8, md_sample_rate = 8000, md_ref = 0, md_ttl = 0, md_id_size = 1,
     md_id = []\<rparr> 8008 = 1000 \<and> 8008 * 1000 div 8000 = (1001 :: int)"
  using double_1001 by (simp add: elapsed_ms_def byte_rate_def)

section \<open>Listing\<close>

lemma strtok_last_token:
  assumes "name \<noteq> []" "CHR ''/'' \<notin> set name"
  shows "strtok_last name prev = Some name"
proof -
  have 1: "dropWhile (\<lambda>c. c = CHR ''/'') name = name" using assms by (cases name) auto
  have 2: "dropWhile (\<lambda>c. c \<noteq> CHR ''/'') name = []" "takeWhile (\<lambda>c. c \<noteq> CHR ''/'') name = name"
    using assms(2) by (auto simp: dropWhile_eq_Nil_conv takeWhile_eq_all_conv)
  show ?thesis
    unfolding strtok_last.simps [of name] Let_def 1 2 using assms(1) by (simp add: strtok_last.simps [of "[]"])
qed

lemma strtok_last_path:
  assumes "name \<noteq> []" "CHR ''/'' \<notin> set name"
  shows "strtok_last (p @ CHR ''/'' # name) prev = Some name"
proof (induction p arbitrary: prev rule: length_induct)
  case (1 p)
  let ?sl = "\<lambda>c. c = CHR ''/''"
  show ?case
  proof (cases "\<forall>c\<in>set p. ?sl c")
    case True
    then have "dropWhile ?sl (p @ CHR ''/'' # name) = name"
      using assms by (cases name) (auto simp: dropWhile_append2)
    moreover have "dropWhile ?sl name = name" using assms by (cases name) auto
    ultimately have "strtok_last (p @ CHR ''/'' # name) prev = strtok_last name prev"
      by (subst (1 2) strtok_last.simps) simp
    then show ?thesis using strtok_last_token [OF assms] by simp
  next
    case False
    define t where "t = dropWhile ?sl p"
    have t: "t \<noteq> []" using False by (auto simp: t_def dropWhile_eq_Nil_conv)
    then have hd: "hd t \<noteq> CHR ''/''" using hd_dropWhile [of ?sl p] by (auto simp: t_def)
    have len: "length (dropWhile (\<lambda>c. c \<noteq> CHR ''/'') t) < length p"
      using strtok_progress [of p] t by (simp add: t_def)
    have d: "dropWhile ?sl (p @ CHR ''/'' # name) = t @ CHR ''/'' # name"
      using False by (auto simp: t_def dropWhile_append1)
    have e: "dropWhile (\<lambda>c. c \<noteq> CHR ''/'') (t @ CHR ''/'' # name) = dropWhile (\<lambda>c. c \<noteq> CHR ''/'') t @ CHR ''/'' # name"
    proof (cases "CHR ''/'' \<in> set t")
      case False
      then have "dropWhile (\<lambda>c. c \<noteq> CHR ''/'') t = []" by (auto simp: dropWhile_eq_Nil_conv)
      then show ?thesis using False by (subst dropWhile_append2) auto
    qed (simp add: dropWhile_append1)
    have "\<exists>prev'. strtok_last (p @ CHR ''/'' # name) prev =
        strtok_last (dropWhile (\<lambda>c. c \<noteq> CHR ''/'') t @ CHR ''/'' # name) prev'"
      by (subst strtok_last.simps) (auto simp: Let_def d e)
    then show ?thesis using 1 len by metis
  qed
qed

lemma nat_str_no_slash: "c \<in> set (nat_str n) \<Longrightarrow> c \<noteq> CHR ''/''"
  by (auto dest!: nat_str_digits simp: is_digit_def char_code_def)

lemma strtoull_nat_str: "fst (strtoull (nat_str (unat n))) = n"
  using strtoull_fmt_u0 [of 0 n] by (simp add: fmt_u0_0)

lemma path_to_stream_id: "racs_path_to_stream_id (racs_metadata_path dir n False) = n"
proof -
  have "CHR ''/'' \<notin> set (nat_str (unat n))" using nat_str_no_slash by blast
  from strtok_last_path [OF nat_str_nonempty this, of "dir @ ''/.racs/md''" None] show ?thesis
    by (simp add: racs_path_to_stream_id_def racs_metadata_path_def fmt_u0_0 strtoull_nat_str)
qed

definition md_store :: "string \<Rightarrow> md_files \<Rightarrow> bool" where
  "md_store dir files \<longleftrightarrow> distinct (map fst files) \<and>
     (\<forall>(p, d)\<in>set files. \<exists>id md n. p = racs_metadata_path dir id False \<and> racs_metadata_read d = Some (md, n))"

text \<open>The name stored in a metadata file.\<close>

definition file_name :: "bytes \<Rightarrow> string" where
  "file_name d = (case racs_metadata_read d of None \<Rightarrow> [] | Some (md, _) \<Rightarrow> md_id md)"

lemma listing_files:
  assumes "\<forall>(p, d)\<in>set files. \<exists>id. p = racs_metadata_path dir id False"
  shows "tree_files (dir @ ''/.racs/md'') (md_listing dir files) = map fst files"
  using assms
proof (induction files)
  case Nil
  then show ?case by (simp add: md_listing_def)
next
  case (Cons f files)
  obtain id d where f: "f = (racs_metadata_path dir id False, d)" using Cons.prems by (cases f) auto
  have s: "scan_lit (dir @ ''/.racs/md/'') (racs_metadata_path dir id False) = Some (nat_str (unat id))"
    using scan_lit_append [of "dir @ ''/.racs/md/''" "nat_str (unat id)"]
    by (simp add: racs_metadata_path_def fmt_u0_0 del: scan_lit_append)
  have n: "nat_str (unat id) \<noteq> ''.''" "nat_str (unat id) \<noteq> ''..''"
    using nat_str_digits [of "CHR ''.''" "unat id"] by (auto simp: is_digit_def char_code_def)
  have "md_listing dir (f # files) = (nat_str (unat id), Reg d) # md_listing dir files"
    by (simp add: md_listing_def f s map_filter_simps)
  then show ?case using Cons n by (simp add: f racs_metadata_path_def fmt_u0_0)
qed

definition ss_inv :: "racs_streams \<Rightarrow> bool" where
  "ss_inv ss \<longleftrightarrow> 2 \<le> max_streams ss \<and> length (streams ss) \<le> max_streams ss"

lemma streams_add_Some:
  "ss_inv ss \<Longrightarrow> \<exists>ss'. racs_streams_add ss s = Some ss' \<and> ss_inv ss' \<and> streams ss' = streams ss @ [s]"
  by (auto simp: racs_streams_add_def ss_inv_def Let_def)

lemma streams_loop_eq:
  assumes "md_store dir files"
  shows "ss_inv ss \<Longrightarrow> set paths \<subseteq> fst ` set files \<Longrightarrow> \<exists>ss'. streams_loop dir files pattern paths ss = Some ss' \<and> ss_inv ss' \<and>
    streams ss' = streams ss @ filter (fnmatch pattern) (map (\<lambda>p. file_name (the (map_of files p))) paths)"
proof (induction paths arbitrary: ss)
  case Nil
  then show ?case by simp
next
  case (Cons p paths)
  then obtain d where pd: "(p, d) \<in> set files" by auto
  then obtain id md n where p: "p = racs_metadata_path dir id False" "racs_metadata_read d = Some (md, n)"
    using assms by (fastforce simp: md_store_def)
  have d: "map_of files p = Some d" using assms pd by (simp add: md_store_def map_of_is_SomeI)
  have g: "racs_metadata_get dir files (racs_path_to_stream_id p) = Some (Some md)"
    using d p by (simp add: metadata_get_path path_to_stream_id)
  have nm: "file_name (the (map_of files p)) = md_id md" using d p by (simp add: file_name_def)
  obtain ss1 where ss1: "(if fnmatch pattern (md_id md) then racs_streams_add ss (md_id md) else Some ss) = Some ss1"
    "ss_inv ss1" "streams ss1 = streams ss @ (if fnmatch pattern (md_id md) then [md_id md] else [])"
    using streams_add_Some [OF Cons.prems(1), of "md_id md"] Cons.prems(1) by (cases "fnmatch pattern (md_id md)") auto
  from Cons.IH [OF ss1(2)] Cons.prems(2) obtain ss' where "streams_loop dir files pattern paths ss1 = Some ss'" "ss_inv ss'"
    "streams ss' = streams ss1 @ filter (fnmatch pattern) (map (\<lambda>p. file_name (the (map_of files p))) paths)" by auto
  then show ?case using ss1 g nm by (cases "fnmatch pattern (md_id md)") auto
qed

lemma streams_list_mset:
  assumes "md_store dir files"
  shows "\<exists>ss. racs_streams_list dir files pattern racs_streams_init = Some ss \<and>
    mset (streams ss) = mset (filter (fnmatch pattern) (map (\<lambda>(p, d). file_name d) files))"
proof -
  have l: "tree_files (dir @ ''/.racs/md'') (md_listing dir files) = map fst files"
    using assms by (intro listing_files) (fastforce simp: md_store_def)
  have "fl_inv racs_filelist_create" by (simp add: fl_inv_def racs_filelist_create_def)
  from list_files_tree [OF this, of "dir @ ''/.racs/md''" "md_listing dir files"] obtain list where
    list: "get_sorted_filelist (dir @ ''/.racs/md'') (Some (md_listing dir files)) = Some list"
      "fl_files list = sort (map fst files)"
    by (auto simp: get_sorted_filelist_def racs_filelist_sort_def racs_filelist_create_def l)
  have "ss_inv racs_streams_init" by (simp add: ss_inv_def racs_streams_init_def)
  from streams_loop_eq [OF assms this, of "sort (map fst files)" pattern] obtain ss where
    ss: "streams_loop dir files pattern (sort (map fst files)) racs_streams_init = Some ss"
    "streams ss = filter (fnmatch pattern) (map (\<lambda>p. file_name (the (map_of files p))) (sort (map fst files)))"
    by (auto simp: racs_streams_init_def)
  have "map (\<lambda>(p, d). file_name d) files = map (\<lambda>p. file_name (the (map_of files p))) (map fst files)"
    using assms by (auto simp: md_store_def map_of_is_SomeI)
  then have "mset (streams ss) = mset (filter (fnmatch pattern) (map (\<lambda>(p, d). file_name d) files))"
    by (simp only: ss(2) mset_filter mset_map mset_sort)
  with ss(1) list show ?thesis by (simp add: racs_streams_list_def)
qed

text \<open>
  C31: Listing streams finds exactly the stored streams: for a directory of readable metadata files, the
  list has the name of every stream that matches the pattern, once per file, and nothing else, and
  growing the array never writes outside it.
\<close>

theorem streams_list_complete:
  assumes "md_store dir files"
  shows "\<exists>ss. racs_streams_list dir files pattern racs_streams_init = Some ss \<and>
    (\<forall>name. count (mset (streams ss)) name =
       (if fnmatch pattern name then length (filter (\<lambda>(p, d). file_name d = name) files) else 0))"
proof -
  have "count (mset (filter P (map (\<lambda>(p, d). file_name d) files))) name =
      (if P name then length (filter (\<lambda>(p, d). file_name d = name) files) else 0)" for P name
    by (induction files) auto
  with streams_list_mset [OF assms, of pattern] show ?thesis by metis
qed

theorem streams_list_complete_witness:
  "\<exists>ss. racs_streams_list ''/d'' [(racs_metadata_path ''/d'' 7 False, md_bytes example_md)] ''a*'' racs_streams_init = Some ss \<and>
    (\<forall>name. count (mset (streams ss)) name =
       (if fnmatch ''a*'' name then length (filter (\<lambda>(p, d). file_name d = name)
          [(racs_metadata_path ''/d'' 7 False, md_bytes example_md)]) else 0))"
  by (rule streams_list_complete)
     (use metadata_read_eq [OF example_md_wf, of "[]"] in \<open>auto simp: md_store_def\<close>)

text \<open>The star does not match a slash, and letters match in their case only.\<close>

lemma fnmatch_slash_case: "\<not> fnmatch ''*'' ''a/b'' \<and> \<not> fnmatch ''ABC'' ''abc'' \<and> fnmatch ''a*c'' ''abbc''"
  by (simp add: fnmatch.simps(2))

lemma fnmatch_brackets:
  "fnmatch ''[[:digit:]x]*'' ''7a'' \<and> \<not> fnmatch ''[[:digit:]x]*'' ''y'' \<and> fnmatch ''[!a-c]'' ''d'' \<and>
   fnmatch (''['' @ [CHR 0x5C] @ '']]'') '']'' \<and> \<not> fnmatch [CHR ''a'', CHR 0x5C] [CHR ''a'', CHR 0x5C]"
  by code_simp

end
