(* ===== verification/Samples.thy ===== *)
theory Samples
  imports Bytes Floats
begin

text \<open>
  Audio samples: the conversions of \<^verbatim>\<open>src/src/types.c\<close> between 16-, 24- and 32-bit samples, the
  growing buffer of \<^verbatim>\<open>src/src/memory.c\<close> and the PCM writer of \<^verbatim>\<open>src/src/pcm.c\<close>. An array of \<open>n\<close>
  elements that is read through a pointer is a list of at least \<open>n\<close> elements; a conversion of more
  elements than there are is undefined. The lemmas show that 24-bit samples survive the way to 32 bits
  and back in both directions, and that the buffer holds exactly the bytes written, in at most twice
  the space.
\<close>

section \<open>Conversions\<close>

text \<open>The three bytes of a \<open>racs_int24\<close>.\<close>

type_synonym racs_int24 = "racs_uint8 \<times> racs_uint8 \<times> racs_uint8"

definition racs_s16_f32 :: "racs_int16 list \<Rightarrow> nat \<Rightarrow> rat list option" where
  "racs_s16_f32 xs n =
     (if n \<le> length xs then Some (map (\<lambda>x. single (of_int (sint x) / 32767)) (take n xs)) else None)"

text \<open>A product outside the range of the target type makes the conversion undefined.\<close>

definition f32_s16 :: "rat \<Rightarrow> racs_int16 option" where
  "f32_s16 x = (let s = trunc_int (single (x * 32767))
     in if - 32768 \<le> s \<and> s < 32768 then Some (word_of_int s) else None)"

definition racs_f32_s16 :: "rat list \<Rightarrow> nat \<Rightarrow> racs_int16 list option" where
  "racs_f32_s16 xs n = (if n \<le> length xs then those (map f32_s16 (take n xs)) else None)"

definition racs_s16_s32 :: "racs_int16 list \<Rightarrow> nat \<Rightarrow> racs_int32 list option" where
  "racs_s16_s32 xs n = (if n \<le> length xs then Some (map scast (take n xs)) else None)"

definition s24_s32 :: "racs_int24 \<Rightarrow> racs_int32" where
  "s24_s32 x = (case x of (a, b, c) \<Rightarrow>
     let s = ucast a OR push_bit 8 (ucast b) OR push_bit 16 (ucast c)
     in if s AND 0x800000 \<noteq> 0 then s OR NOT 0xffffff else s)"

definition racs_s24_s32 :: "racs_int24 list \<Rightarrow> nat \<Rightarrow> racs_int32 list option" where
  "racs_s24_s32 xs n = (if n \<le> length xs then Some (map s24_s32 (take n xs)) else None)"

definition s32_s24 :: "racs_int32 \<Rightarrow> racs_int24" where
  "s32_s24 s = (ucast (s AND 0xff), ucast (signed_drop_bit 8 s AND 0xff), ucast (signed_drop_bit 16 s AND 0xff))"

definition racs_s32_s24 :: "racs_int32 list \<Rightarrow> nat \<Rightarrow> racs_int24 list option" where
  "racs_s32_s24 xs n = (if n \<le> length xs then Some (map s32_s24 (take n xs)) else None)"

definition racs_s32_s16 :: "racs_int32 list \<Rightarrow> nat \<Rightarrow> racs_int16 list option" where
  "racs_s32_s16 xs n = (if n \<le> length xs then Some (map ucast (take n xs)) else None)"

definition racs_s32_s16_d8 :: "racs_int32 list \<Rightarrow> nat \<Rightarrow> racs_int16 list option" where
  "racs_s32_s16_d8 xs n = (if n \<le> length xs then Some (map (\<lambda>s. ucast (signed_drop_bit 8 s)) (take n xs)) else None)"

text \<open>Arrays of samples as the bytes they occupy, and byte buffers seen as arrays of samples.\<close>

definition s16_bytes :: "racs_int16 list \<Rightarrow> bytes" where
  "s16_bytes xs = concat (map (le_bytes 2) xs)"

definition s24_bytes :: "racs_int24 list \<Rightarrow> bytes" where
  "s24_bytes xs = concat (map (\<lambda>(a, b, c). [a, b, c]) xs)"

definition s32_bytes :: "racs_int32 list \<Rightarrow> bytes" where
  "s32_bytes xs = concat (map (le_bytes 4) xs)"

fun s16_of_bytes :: "bytes \<Rightarrow> racs_int16 list" where
  "s16_of_bytes (a # b # bs) = of_le_bytes [a, b] # s16_of_bytes bs"
| "s16_of_bytes _ = []"

fun s24_of_bytes :: "bytes \<Rightarrow> racs_int24 list" where
  "s24_of_bytes (a # b # c # bs) = (a, b, c) # s24_of_bytes bs"
| "s24_of_bytes _ = []"

fun s32_of_bytes :: "bytes \<Rightarrow> racs_int32 list" where
  "s32_of_bytes (a # b # c # d # bs) = of_le_bytes [a, b, c, d] # s32_of_bytes bs"
| "s32_of_bytes _ = []"

lemma s16_of_s16_bytes [simp]: "s16_of_bytes (s16_bytes xs) = xs"
proof (induction xs)
  case (Cons x xs)
  obtain a b where "le_bytes 2 x = [a, b]" by (simp add: le_bytes_def numeral_eq_Suc)
  moreover have "of_le_bytes (le_bytes 2 x) = x" by (rule of_le_bytes_le_bytes) simp
  ultimately show ?case using Cons by (simp add: s16_bytes_def)
qed (simp add: s16_bytes_def)

lemma s24_of_s24_bytes [simp]: "s24_of_bytes (s24_bytes xs) = xs"
  by (induction xs) (auto simp: s24_bytes_def)

lemma s32_of_s32_bytes [simp]: "s32_of_bytes (s32_bytes xs) = xs"
proof (induction xs)
  case (Cons x xs)
  obtain a b c d where "le_bytes 4 x = [a, b, c, d]" by (simp add: le_bytes_def numeral_eq_Suc)
  moreover have "of_le_bytes (le_bytes 4 x) = x" by (rule of_le_bytes_le_bytes) simp
  ultimately show ?case using Cons by (simp add: s32_bytes_def)
qed (simp add: s32_bytes_def)

lemma sample_bytes_lengths [simp]:
  "length (s16_bytes xs) = 2 * length xs" "length (s24_bytes ys) = 3 * length ys" "length (s32_bytes zs) = 4 * length zs"
proof -
  show "length (s16_bytes xs) = 2 * length xs" by (induction xs) (simp_all add: s16_bytes_def)
  show "length (s24_bytes ys) = 3 * length ys" by (induction ys) (auto simp: s24_bytes_def)
  show "length (s32_bytes zs) = 4 * length zs" by (induction zs) (simp_all add: s32_bytes_def)
qed

lemma length_of_bytes [simp]:
  "length (s16_of_bytes bs) = length bs div 2" "length (s24_of_bytes bs) = length bs div 3"
  "length (s32_of_bytes bs) = length bs div 4"
proof -
  show "length (s16_of_bytes bs) = length bs div 2" by (induction bs rule: s16_of_bytes.induct) simp_all
  show "length (s24_of_bytes bs) = length bs div 3" by (induction bs rule: s24_of_bytes.induct) simp_all
  show "length (s32_of_bytes bs) = length bs div 4" by (induction bs rule: s32_of_bytes.induct) simp_all
qed

section \<open>24-bit samples\<close>

lemma bit_s24_s32:
  "bit (s24_s32 (a, b, c)) i \<longleftrightarrow> i < 32 \<and>
     (if i < 8 then bit a i else if i < 16 then bit b (i - 8) else if i < 24 then bit c (i - 16) else bit c 7)"
proof -
  let ?s = "ucast a OR push_bit 8 (ucast b) OR push_bit 16 (ucast c) :: racs_int32"
  have s: "bit ?s i \<longleftrightarrow> i < 24 \<and> (if i < 8 then bit a i else if i < 16 then bit b (i - 8) else bit c (i - 16))" for i
    by (auto simp: bit_simps dest: bit_imp_le_length)
  have hi: "?s AND 0x800000 \<noteq> 0 \<longleftrightarrow> bit c 7"
  proof -
    have m: "(0x800000 :: racs_int32) = push_bit 23 1" by simp
    have "?s AND push_bit 23 1 \<noteq> 0 \<longleftrightarrow> bit ?s 23"
      by (simp add: bit_iff_and_push_bit_not_eq_0)
    then show ?thesis unfolding m s by simp
  qed
  have neg: "bit (NOT 0xffffff :: racs_int32) i \<longleftrightarrow> 24 \<le> i \<and> i < 32" for i
  proof -
    have "bit (NOT (mask 24) :: racs_int32) i \<longleftrightarrow> 24 \<le> i \<and> i < 32" by (auto simp: bit_simps)
    moreover have "(0xffffff :: racs_int32) = mask 24" by (simp add: mask_eq_exp_minus_1)
    ultimately show ?thesis by metis
  qed
  show ?thesis
    unfolding s24_s32_def Let_def prod.case if_distrib [of "\<lambda>w. bit w i"] hi bit_or_iff [of _ "NOT 0xffffff"] neg s
    by auto
qed

lemma s32_s24_bits:
  "s32_s24 s = (ucast s, ucast (signed_drop_bit 8 s), ucast (signed_drop_bit 16 s))"
proof -
  have m: "(0xff :: racs_int32) = mask 8" by (simp add: mask_eq_exp_minus_1)
  have "(ucast (w AND 0xff) :: racs_uint8) = ucast w" for w :: racs_int32
    unfolding m by (rule bit_word_eqI) (auto simp: bit_simps)
  then show ?thesis by (simp add: s32_s24_def)
qed

lemma s24_s32_inverse: "s32_s24 (s24_s32 x) = x"
proof -
  obtain a b c where x: "x = (a, b, c)" by (cases x)
  show ?thesis
    unfolding x s32_s24_bits by (simp, intro conjI; rule bit_word_eqI) (auto simp: bit_simps bit_s24_s32)
qed

lemma sign_bits:
  assumes "- (2 ^ k) \<le> sint s" "sint s < 2 ^ k" "k \<le> i" "i < 32"
  shows "bit (s :: racs_int32) i \<longleftrightarrow> bit s k"
proof -
  have "signed_take_bit k (sint s) = sint s"
    using assms(1,2) by (simp add: signed_take_bit_int_eq_self_iff)
  then have "bit (sint s) j = bit (sint s) (min k j)" for j
    using bit_signed_take_bit_iff [of k "sint s" j] by simp
  from this [of i] have "bit (sint s) i = bit (sint s) k" using assms(3) by (simp add: min_absorb1)
  then show ?thesis using assms(3,4) by (simp add: bit_simps)
qed

lemma s32_s16_inverse:
  assumes "- (2 ^ 15) \<le> sint s" "sint s < 2 ^ 15"
  shows "scast (ucast s :: racs_int16) = (s :: racs_int32)"
proof (rule bit_word_eqI)
  fix i assume i: "i < LENGTH(32)"
  then have "bit (scast (ucast s :: racs_int16) :: racs_int32) i = (if i < 15 then bit s i else bit s 15)"
    by (auto simp: bit_simps min_def)
  then show "bit (scast (ucast s :: racs_int16) :: racs_int32) i = bit s i"
    using sign_bits [OF assms, of i] i by auto
qed

lemma s32_s24_inverse:
  assumes "- (2 ^ 23) \<le> sint s" "sint s < 2 ^ 23"
  shows "s24_s32 (s32_s24 s) = s"
proof (rule bit_word_eqI)
  fix i assume i: "i < LENGTH(32)"
  note sign = sign_bits [OF assms, of i]
  consider "i < 8" | "8 \<le> i" "i < 16" | "16 \<le> i" "i < 24" | "24 \<le> i" by linarith
  then show "bit (s24_s32 (s32_s24 s)) i = bit s i"
  proof cases
    case 2
    then have "\<not> 24 \<le> i - 8" "i - 8 < 8" by linarith+
    with 2 i show ?thesis by (simp add: s32_s24_bits bit_s24_s32 bit_simps)
  next
    case 3
    then have "\<not> 16 \<le> i - 16" "i - 16 < 8" by linarith+
    with 3 i show ?thesis by (simp add: s32_s24_bits bit_s24_s32 bit_simps)
  qed (use i sign in \<open>simp_all add: s32_s24_bits bit_s24_s32 bit_simps\<close>)
qed

section \<open>The growing buffer\<close>

text \<open>
  \<open>ms_data\<close> holds the bytes written so far; the block behind them, up to \<open>ms_size\<close>, is uninitialised.
\<close>

record racs_memstream =
  ms_size :: nat
  ms_pos :: nat
  ms_data :: bytes

definition racs_memstream_init :: racs_memstream where
  "racs_memstream_init = \<lparr>ms_size = 0, ms_pos = 0, ms_data = []\<rparr>"

definition racs_memstream_write :: "racs_memstream \<Rightarrow> bytes \<Rightarrow> nat \<Rightarrow> racs_memstream option" where
  "racs_memstream_write s d n =
     do { src \<leftarrow> read_bin d 0 n;
          let pos = ms_pos s + n;
          let sz = (if ms_size s < pos then max pos (ms_size s * 2) else ms_size s);
          Some \<lparr>ms_size = sz, ms_pos = pos, ms_data = take (ms_pos s) (ms_data s) @ src\<rparr> }"

definition ms_ok :: "racs_memstream \<Rightarrow> bool" where
  "ms_ok s \<longleftrightarrow> length (ms_data s) = ms_pos s \<and> ms_pos s \<le> ms_size s \<and> ms_size s \<le> 2 * ms_pos s"

lemma memstream_init_ok: "ms_ok racs_memstream_init" "ms_data racs_memstream_init = []"
  by (simp_all add: ms_ok_def racs_memstream_init_def)

lemma memstream_write_ok:
  assumes "ms_ok s" "n \<le> length d"
  obtains s' where "racs_memstream_write s d n = Some s'" "ms_ok s'" "ms_data s' = ms_data s @ take n d"
  using that assms by (auto simp: racs_memstream_write_def read_bin_def slice_def ms_ok_def Let_def)

lemma memstream_write_None: "length d < n \<Longrightarrow> racs_memstream_write s d n = None"
  by (simp add: racs_memstream_write_def read_bin_def)

section \<open>The PCM writer\<close>

record racs_pcm =
  pcm_channels :: racs_uint8
  pcm_bit_depth :: racs_uint8
  pcm_sample_rate :: racs_uint32
  pcm_samples :: racs_uint64
  pcm_out :: racs_memstream

text \<open>The setters take 16 bits; the fields have 8.\<close>

definition racs_pcm_set_channels :: "racs_pcm \<Rightarrow> racs_uint16 \<Rightarrow> racs_pcm" where
  "racs_pcm_set_channels pcm channels = pcm\<lparr>pcm_channels := ucast channels\<rparr>"

definition racs_pcm_set_bit_depth :: "racs_pcm \<Rightarrow> racs_uint16 \<Rightarrow> racs_pcm" where
  "racs_pcm_set_bit_depth pcm bit_depth = pcm\<lparr>pcm_bit_depth := ucast bit_depth\<rparr>"

definition racs_pcm_set_sample_rate :: "racs_pcm \<Rightarrow> racs_uint32 \<Rightarrow> racs_pcm" where
  "racs_pcm_set_sample_rate pcm sample_rate = pcm\<lparr>pcm_sample_rate := sample_rate\<rparr>"

text \<open>Eight bytes of zeros come first, meant for the sample rate, the channels and the bit depth.\<close>

definition racs_pcm_init :: "racs_pcm \<Rightarrow> racs_pcm option" where
  "racs_pcm_init pcm =
     do { s \<leftarrow> racs_memstream_write racs_memstream_init (le_bytes 4 (0 :: racs_int32)) 4;
          s \<leftarrow> racs_memstream_write s (le_bytes 4 (0 :: racs_int32)) 4;
          Some (pcm\<lparr>pcm_samples := 0, pcm_out := s\<rparr>) }"

definition racs_pcm_write :: "racs_pcm \<Rightarrow> bytes \<Rightarrow> racs_uint64 \<Rightarrow> racs_pcm option" where
  "racs_pcm_write pcm d samples =
     do { let sz = ucast (pcm_channels pcm) * samples * ucast (pcm_bit_depth pcm) div 8;
          s \<leftarrow> racs_memstream_write (pcm_out pcm) d (unat sz);
          Some (pcm\<lparr>pcm_samples := pcm_samples pcm + samples, pcm_out := s\<rparr>) }"

definition racs_pcm_write_s16 :: "racs_pcm \<Rightarrow> bytes \<Rightarrow> racs_uint64 \<Rightarrow> racs_pcm option" where
  "racs_pcm_write_s16 pcm d samples = racs_pcm_write pcm d samples"

text \<open>The bytes of one sample of all channels.\<close>

definition frame_size :: "racs_pcm \<Rightarrow> nat" where
  "frame_size pcm = unat (pcm_channels pcm) * unat (pcm_bit_depth pcm) div 8"

definition pcm_ok :: "racs_pcm \<Rightarrow> bool" where
  "pcm_ok pcm \<longleftrightarrow> ms_ok (pcm_out pcm) \<and> pcm_channels pcm \<in> {1, 2} \<and> pcm_bit_depth pcm \<in> {16, 24} \<and>
     length (ms_data (pcm_out pcm)) = 8 + unat (pcm_samples pcm) * frame_size pcm"

lemma pcm_init_eq:
  obtains s where "racs_pcm_init pcm = Some (pcm\<lparr>pcm_samples := 0, pcm_out := s\<rparr>)" "ms_ok s" "ms_data s = replicate 8 0"
proof -
  have z: "le_bytes 4 (0 :: racs_int32) = [0, 0, 0, 0]" by (simp add: le_bytes_def numeral_eq_Suc)
  obtain s1 where s1: "racs_memstream_write racs_memstream_init (le_bytes 4 (0 :: racs_int32)) 4 = Some s1" "ms_ok s1"
    "ms_data s1 = [0, 0, 0, 0]"
    by (rule memstream_write_ok [OF memstream_init_ok(1), of 4 "le_bytes 4 (0 :: racs_int32)"])
       (simp_all add: z memstream_init_ok)
  obtain s2 where "racs_memstream_write s1 (le_bytes 4 (0 :: racs_int32)) 4 = Some s2" "ms_ok s2"
    "ms_data s2 = [0, 0, 0, 0] @ [0, 0, 0, 0]"
    by (rule memstream_write_ok [OF s1(2), of 4 "le_bytes 4 (0 :: racs_int32)"]) (simp_all add: z s1(3))
  then show thesis using that s1(1) by (simp add: racs_pcm_init_def numeral_eq_Suc)
qed

end
