(* ===== verification/Pack.thy ===== *)
theory Pack
  imports Metadata Samples
begin

text \<open>
  Values exchanged between commands and with clients, \<^verbatim>\<open>src/src/pack.c\<close>. The byte format is that of the
  msgpack library; the model has its objects, and a buffer is the list of the objects packed into it. A
  reply is an array whose first element names its type. The value of an object of another type than the
  one that is read is undefined.
\<close>

section \<open>Objects\<close>

datatype msgpack_object =
    MP_nil | MP_bool bool | MP_uint racs_uint64 | MP_neg racs_int64 | MP_f64 rat
  | MP_str string | MP_bin bytes | MP_array "msgpack_object list"

type_synonym sbuffer = "msgpack_object list"

datatype msgpack_object_type =
    MSGPACK_OBJECT_NIL | MSGPACK_OBJECT_BOOLEAN | MSGPACK_OBJECT_POSITIVE_INTEGER | MSGPACK_OBJECT_NEGATIVE_INTEGER
  | MSGPACK_OBJECT_FLOAT64 | MSGPACK_OBJECT_STR | MSGPACK_OBJECT_BIN | MSGPACK_OBJECT_ARRAY

fun type_of :: "msgpack_object \<Rightarrow> msgpack_object_type" where
  "type_of MP_nil = MSGPACK_OBJECT_NIL"
| "type_of (MP_bool b) = MSGPACK_OBJECT_BOOLEAN"
| "type_of (MP_uint n) = MSGPACK_OBJECT_POSITIVE_INTEGER"
| "type_of (MP_neg n) = MSGPACK_OBJECT_NEGATIVE_INTEGER"
| "type_of (MP_f64 x) = MSGPACK_OBJECT_FLOAT64"
| "type_of (MP_str s) = MSGPACK_OBJECT_STR"
| "type_of (MP_bin b) = MSGPACK_OBJECT_BIN"
| "type_of (MP_array xs) = MSGPACK_OBJECT_ARRAY"

text \<open>\<open>msgpack_pack_int64\<close>: a number that is not negative is unpacked as a positive integer.\<close>

definition msgpack_int64 :: "racs_int64 \<Rightarrow> msgpack_object" where
  "msgpack_int64 d = (if 0 \<le> sint d then MP_uint d else MP_neg d)"

text \<open>
  \<open>msgpack_unpack_next\<close> on a buffer of packed objects: the first object, and nil for an empty buffer. The
  parse error of \<open>racs_parse_buf\<close> does not occur on such a buffer.
\<close>

definition racs_parse_buf :: "sbuffer \<Rightarrow> msgpack_object" where
  "racs_parse_buf buf = (case buf of [] \<Rightarrow> MP_nil | x # _ \<Rightarrow> x)"

datatype racs_status = RACS_STATUS_OK | RACS_STATUS_NOT_FOUND | RACS_STATUS_ERROR

datatype racs_type =
    RACS_TYPE_STR | RACS_TYPE_INT | RACS_TYPE_FLOAT | RACS_TYPE_LIST | RACS_TYPE_NULL | RACS_TYPE_ERROR | RACS_TYPE_BOOL
  | RACS_TYPE_U8VEC | RACS_TYPE_S8VEC | RACS_TYPE_U16VEC | RACS_TYPE_S16VEC | RACS_TYPE_U32VEC | RACS_TYPE_S32VEC
  | RACS_TYPE_F32VEC | RACS_TYPE_C64VEC

fun racs_type_string :: "racs_type \<Rightarrow> string" where
  "racs_type_string RACS_TYPE_STR = ''string''"
| "racs_type_string RACS_TYPE_INT = ''int''"
| "racs_type_string RACS_TYPE_FLOAT = ''float''"
| "racs_type_string RACS_TYPE_LIST = ''list''"
| "racs_type_string RACS_TYPE_NULL = ''null''"
| "racs_type_string RACS_TYPE_ERROR = ''error''"
| "racs_type_string RACS_TYPE_BOOL = ''bool''"
| "racs_type_string RACS_TYPE_U8VEC = ''u8v''"
| "racs_type_string RACS_TYPE_S8VEC = ''s8v''"
| "racs_type_string RACS_TYPE_U16VEC = ''u16v''"
| "racs_type_string RACS_TYPE_S16VEC = ''s16v''"
| "racs_type_string RACS_TYPE_U32VEC = ''u32v''"
| "racs_type_string RACS_TYPE_S32VEC = ''s32v''"
| "racs_type_string RACS_TYPE_F32VEC = ''f32v''"
| "racs_type_string RACS_TYPE_C64VEC = ''c64v''"

definition racs_pack_type :: "racs_type \<Rightarrow> msgpack_object" where
  "racs_pack_type t = MP_str (racs_type_string t)"

section \<open>Packing\<close>

definition racs_pack_null_with_status_ok :: "sbuffer \<Rightarrow> racs_status \<times> sbuffer" where
  "racs_pack_null_with_status_ok buf = (RACS_STATUS_OK, buf @ [MP_array [racs_pack_type RACS_TYPE_NULL]])"

definition racs_pack_null_with_status_not_found :: "sbuffer \<Rightarrow> racs_status \<times> sbuffer" where
  "racs_pack_null_with_status_not_found buf = (RACS_STATUS_NOT_FOUND, buf @ [MP_array [racs_pack_type RACS_TYPE_NULL]])"

definition racs_pack_error :: "sbuffer \<Rightarrow> string \<Rightarrow> string \<Rightarrow> racs_status \<times> sbuffer" where
  "racs_pack_error buf command message =
     (RACS_STATUS_ERROR, buf @ [MP_array [racs_pack_type RACS_TYPE_ERROR, MP_str (command @ '': '' @ message)]])"

definition racs_pack_str :: "sbuffer \<Rightarrow> string \<Rightarrow> racs_status \<times> sbuffer" where
  "racs_pack_str buf str = (RACS_STATUS_OK, buf @ [MP_array [racs_pack_type RACS_TYPE_STR, MP_str str]])"

definition racs_pack_int64 :: "sbuffer \<Rightarrow> racs_int64 \<Rightarrow> racs_status \<times> sbuffer" where
  "racs_pack_int64 buf d = (RACS_STATUS_OK, buf @ [MP_array [racs_pack_type RACS_TYPE_INT, msgpack_int64 d]])"

definition racs_pack_uint64 :: "sbuffer \<Rightarrow> racs_uint64 \<Rightarrow> racs_status \<times> sbuffer" where
  "racs_pack_uint64 buf d = (RACS_STATUS_OK, buf @ [MP_array [racs_pack_type RACS_TYPE_INT, MP_uint d]])"

definition racs_pack_float64 :: "sbuffer \<Rightarrow> rat \<Rightarrow> racs_status \<times> sbuffer" where
  "racs_pack_float64 buf d = (RACS_STATUS_OK, buf @ [MP_array [racs_pack_type RACS_TYPE_FLOAT, MP_f64 d]])"

definition racs_pack_bool :: "sbuffer \<Rightarrow> bool \<Rightarrow> racs_status \<times> sbuffer" where
  "racs_pack_bool buf d = (RACS_STATUS_OK, buf @ [MP_array [racs_pack_type RACS_TYPE_BOOL, MP_bool d]])"

text \<open>Vectors: \<open>n\<close> elements are read from the array.\<close>

definition racs_pack_u8v :: "sbuffer \<Rightarrow> racs_uint8 list \<Rightarrow> nat \<Rightarrow> (racs_status \<times> sbuffer) option" where
  "racs_pack_u8v buf d n =
     (if n \<le> length d then Some (RACS_STATUS_OK, buf @ [MP_array [racs_pack_type RACS_TYPE_U8VEC, MP_bin (take n d)]]) else None)"

definition racs_pack_s8v :: "sbuffer \<Rightarrow> 8 word list \<Rightarrow> nat \<Rightarrow> (racs_status \<times> sbuffer) option" where
  "racs_pack_s8v buf d n =
     (if n \<le> length d then Some (RACS_STATUS_OK, buf @ [MP_array [racs_pack_type RACS_TYPE_S8VEC, MP_bin (take n d)]]) else None)"

definition racs_pack_s16v :: "sbuffer \<Rightarrow> racs_int16 list \<Rightarrow> nat \<Rightarrow> (racs_status \<times> sbuffer) option" where
  "racs_pack_s16v buf d n =
     (if n \<le> length d then Some (RACS_STATUS_OK, buf @ [MP_array [racs_pack_type RACS_TYPE_S16VEC, MP_bin (s16_bytes (take n d))]]) else None)"

definition racs_pack_u16v :: "sbuffer \<Rightarrow> racs_uint16 list \<Rightarrow> nat \<Rightarrow> (racs_status \<times> sbuffer) option" where
  "racs_pack_u16v buf d n =
     (if n \<le> length d then Some (RACS_STATUS_OK, buf @ [MP_array [racs_pack_type RACS_TYPE_U16VEC, MP_bin (s16_bytes (take n d))]]) else None)"

definition racs_pack_s32v :: "sbuffer \<Rightarrow> racs_int32 list \<Rightarrow> nat \<Rightarrow> (racs_status \<times> sbuffer) option" where
  "racs_pack_s32v buf d n =
     (if n \<le> length d then Some (RACS_STATUS_OK, buf @ [MP_array [racs_pack_type RACS_TYPE_S32VEC, MP_bin (s32_bytes (take n d))]]) else None)"

definition racs_pack_u32v :: "sbuffer \<Rightarrow> racs_uint32 list \<Rightarrow> nat \<Rightarrow> (racs_status \<times> sbuffer) option" where
  "racs_pack_u32v buf d n =
     (if n \<le> length d then Some (RACS_STATUS_OK, buf @ [MP_array [racs_pack_type RACS_TYPE_U32VEC, MP_bin (s32_bytes (take n d))]]) else None)"

text \<open>\<open>data + 8\<close> skips eight samples, while the size is reduced by eight bytes.\<close>

definition racs_pack_s32v_without_metadata :: "sbuffer \<Rightarrow> racs_int32 list \<Rightarrow> nat \<Rightarrow> (racs_status \<times> sbuffer) option" where
  "racs_pack_s32v_without_metadata buf d n =
     (if 2 \<le> n \<and> 32 + (n * 4 - 8) \<le> 4 * length d
      then Some (RACS_STATUS_OK, buf @ [MP_array [racs_pack_type RACS_TYPE_S32VEC, MP_bin (slice 32 (n * 4 - 8) (s32_bytes d))]])
      else None)"

text \<open>Floats and pairs of floats are given by their bits.\<close>

definition racs_pack_f32v :: "sbuffer \<Rightarrow> 32 word list \<Rightarrow> nat \<Rightarrow> (racs_status \<times> sbuffer) option" where
  "racs_pack_f32v buf d n =
     (if n \<le> length d then Some (RACS_STATUS_OK, buf @ [MP_array [racs_pack_type RACS_TYPE_F32VEC, MP_bin (s32_bytes (take n d))]]) else None)"

definition racs_pack_c64v :: "sbuffer \<Rightarrow> (32 word \<times> 32 word) list \<Rightarrow> nat \<Rightarrow> (racs_status \<times> sbuffer) option" where
  "racs_pack_c64v buf d n =
     (if n \<le> length d
      then Some (RACS_STATUS_OK, buf @ [MP_array [racs_pack_type RACS_TYPE_C64VEC, MP_bin (s32_bytes (concat (map (\<lambda>(re, im). [re, im]) (take n d))))]])
      else None)"

definition racs_pack_invalid_num_args :: "sbuffer \<Rightarrow> string \<Rightarrow> int \<Rightarrow> int \<Rightarrow> racs_status \<times> sbuffer" where
  "racs_pack_invalid_num_args buf command expected actual =
     racs_pack_error buf command (''Expected '' @ fmt_d expected @ '' args, but got '' @ fmt_d actual)"

definition racs_pack_streams :: "sbuffer \<Rightarrow> racs_streams \<Rightarrow> racs_status \<times> sbuffer" where
  "racs_pack_streams buf ss = (RACS_STATUS_OK, buf @ [MP_array (MP_str ''list'' # map MP_str (streams ss))])"

section \<open>Unpacking\<close>

text \<open>\<open>obj->via.array.ptr[n]\<close>\<close>

definition array_elem :: "msgpack_object \<Rightarrow> nat \<Rightarrow> msgpack_object option" where
  "array_elem obj n = (case obj of MP_array xs \<Rightarrow> if n < length xs then Some (xs ! n) else None | _ \<Rightarrow> None)"

definition racs_is_object_type :: "msgpack_object \<Rightarrow> msgpack_object_type \<Rightarrow> nat \<Rightarrow> bool option" where
  "racs_is_object_type obj t n = map_option (\<lambda>x. type_of x = t) (array_elem obj n)"

text \<open>
  The C string ends at the first zero. The copy, made by \<open>snprintf\<close> with \<^verbatim>\<open>%s\<close>, also scans the bytes behind the
  string for a zero, which the library does not promise to be there; what it finds there is cut off by the
  size. This read is not represented: here \<open>Some\<close> presumes a zero somewhere behind the string.
\<close>

definition racs_unpack_str :: "msgpack_object \<Rightarrow> nat \<Rightarrow> string option" where
  "racs_unpack_str obj n =
     do { x \<leftarrow> array_elem obj n; case x of MP_str s \<Rightarrow> Some (takeWhile (\<lambda>c. c \<noteq> CHR 0x00) s) | _ \<Rightarrow> None }"

definition racs_unpack_u8v :: "msgpack_object \<Rightarrow> nat \<Rightarrow> bytes option" where
  "racs_unpack_u8v obj n = do { x \<leftarrow> array_elem obj n; case x of MP_bin b \<Rightarrow> Some b | _ \<Rightarrow> None }"

definition racs_unpack_s16v :: "msgpack_object \<Rightarrow> nat \<Rightarrow> racs_int16 list option" where
  "racs_unpack_s16v obj n = map_option s16_of_bytes (racs_unpack_u8v obj n)"

definition racs_unpack_s32v :: "msgpack_object \<Rightarrow> nat \<Rightarrow> racs_int32 list option" where
  "racs_unpack_s32v obj n = map_option s32_of_bytes (racs_unpack_u8v obj n)"

definition racs_unpack_u8v_size :: "msgpack_object \<Rightarrow> nat \<Rightarrow> nat option" where
  "racs_unpack_u8v_size obj n = map_option length (racs_unpack_u8v obj n)"

definition racs_unpack_s16v_size :: "msgpack_object \<Rightarrow> nat \<Rightarrow> nat option" where
  "racs_unpack_s16v_size obj n = map_option (\<lambda>b. length b div 2) (racs_unpack_u8v obj n)"

definition racs_unpack_s32v_size :: "msgpack_object \<Rightarrow> nat \<Rightarrow> nat option" where
  "racs_unpack_s32v_size obj n = map_option (\<lambda>b. length b div 4) (racs_unpack_u8v obj n)"

definition racs_unpack_uint64 :: "msgpack_object \<Rightarrow> nat \<Rightarrow> racs_uint64 option" where
  "racs_unpack_uint64 obj n =
     do { x \<leftarrow> array_elem obj n; case x of MP_uint d \<Rightarrow> Some d | MP_neg d \<Rightarrow> Some d | _ \<Rightarrow> None }"

definition racs_unpack_int64 :: "msgpack_object \<Rightarrow> nat \<Rightarrow> racs_int64 option" where
  "racs_unpack_int64 obj n = racs_unpack_uint64 obj n"

definition racs_unpack_uint16 :: "msgpack_object \<Rightarrow> nat \<Rightarrow> racs_uint16 option" where
  "racs_unpack_uint16 obj n = map_option ucast (racs_unpack_uint64 obj n)"

definition racs_unpack_int32 :: "msgpack_object \<Rightarrow> nat \<Rightarrow> racs_int32 option" where
  "racs_unpack_int32 obj n = map_option ucast (racs_unpack_int64 obj n)"

definition racs_unpack_uint32 :: "msgpack_object \<Rightarrow> nat \<Rightarrow> racs_uint32 option" where
  "racs_unpack_uint32 obj n = map_option ucast (racs_unpack_uint64 obj n)"

definition racs_unpack_float64 :: "msgpack_object \<Rightarrow> nat \<Rightarrow> rat option" where
  "racs_unpack_float64 obj n = do { x \<leftarrow> array_elem obj n; case x of MP_f64 d \<Rightarrow> Some d | _ \<Rightarrow> None }"

definition racs_unpack_float32 :: "msgpack_object \<Rightarrow> nat \<Rightarrow> rat option" where
  "racs_unpack_float32 obj n = map_option single (racs_unpack_float64 obj n)"

section \<open>Well-formed replies\<close>

definition vector_body :: "nat \<Rightarrow> msgpack_object list \<Rightarrow> bool" where
  "vector_body k xs = (case xs of [x] \<Rightarrow> (case x of MP_bin b \<Rightarrow> k dvd length b | _ \<Rightarrow> False) | _ \<Rightarrow> False)"

definition scalar :: "msgpack_object \<Rightarrow> bool" where
  "scalar x \<longleftrightarrow> type_of x \<in> {MSGPACK_OBJECT_STR, MSGPACK_OBJECT_POSITIVE_INTEGER, MSGPACK_OBJECT_NEGATIVE_INTEGER,
     MSGPACK_OBJECT_FLOAT64, MSGPACK_OBJECT_BOOLEAN}"

definition reply_body :: "racs_type \<Rightarrow> msgpack_object list \<Rightarrow> bool" where
  "reply_body t xs =
     (case t of
        RACS_TYPE_STR \<Rightarrow> map type_of xs = [MSGPACK_OBJECT_STR]
      | RACS_TYPE_INT \<Rightarrow> map type_of xs = [MSGPACK_OBJECT_POSITIVE_INTEGER] \<or> map type_of xs = [MSGPACK_OBJECT_NEGATIVE_INTEGER]
      | RACS_TYPE_FLOAT \<Rightarrow> map type_of xs = [MSGPACK_OBJECT_FLOAT64]
      | RACS_TYPE_LIST \<Rightarrow> list_all scalar xs
      | RACS_TYPE_NULL \<Rightarrow> xs = []
      | RACS_TYPE_ERROR \<Rightarrow> map type_of xs = [MSGPACK_OBJECT_STR]
      | RACS_TYPE_BOOL \<Rightarrow> map type_of xs = [MSGPACK_OBJECT_BOOLEAN]
      | RACS_TYPE_U8VEC \<Rightarrow> vector_body 1 xs
      | RACS_TYPE_S8VEC \<Rightarrow> vector_body 1 xs
      | RACS_TYPE_U16VEC \<Rightarrow> vector_body 2 xs
      | RACS_TYPE_S16VEC \<Rightarrow> vector_body 2 xs
      | RACS_TYPE_U32VEC \<Rightarrow> vector_body 4 xs
      | RACS_TYPE_S32VEC \<Rightarrow> vector_body 4 xs
      | RACS_TYPE_F32VEC \<Rightarrow> vector_body 4 xs
      | RACS_TYPE_C64VEC \<Rightarrow> vector_body 8 xs)"

text \<open>A reply of type \<open>t\<close>.\<close>

definition reply_ok :: "racs_type \<Rightarrow> msgpack_object \<Rightarrow> bool" where
  "reply_ok t obj \<longleftrightarrow> (\<exists>body. obj = MP_array (MP_str (racs_type_string t) # body) \<and> reply_body t body)"

lemma racs_type_string_inject: "racs_type_string s = racs_type_string t \<longleftrightarrow> s = t"
  by (cases s; cases t) simp_all

lemma pack_reply [simp]:
  "reply_ok RACS_TYPE_NULL (MP_array [racs_pack_type RACS_TYPE_NULL])"
  "reply_ok RACS_TYPE_ERROR (MP_array [racs_pack_type RACS_TYPE_ERROR, MP_str s])"
  "reply_ok RACS_TYPE_STR (MP_array [racs_pack_type RACS_TYPE_STR, MP_str s])"
  "reply_ok RACS_TYPE_INT (MP_array [racs_pack_type RACS_TYPE_INT, msgpack_int64 d])"
  "reply_ok RACS_TYPE_U8VEC (MP_array [racs_pack_type RACS_TYPE_U8VEC, MP_bin b])"
  "reply_ok RACS_TYPE_S32VEC (MP_array [racs_pack_type RACS_TYPE_S32VEC, MP_bin (s32_bytes xs)])"
  "reply_ok RACS_TYPE_LIST (MP_array (MP_str ''list'' # map MP_str ss))"
  "reply_ok RACS_TYPE_FLOAT (MP_array [racs_pack_type RACS_TYPE_FLOAT, MP_f64 x])"
  "reply_ok RACS_TYPE_BOOL (MP_array [racs_pack_type RACS_TYPE_BOOL, MP_bool b'])"
  "reply_ok RACS_TYPE_S8VEC (MP_array [racs_pack_type RACS_TYPE_S8VEC, MP_bin b])"
  "reply_ok RACS_TYPE_S16VEC (MP_array [racs_pack_type RACS_TYPE_S16VEC, MP_bin (s16_bytes ys)])"
  "reply_ok RACS_TYPE_U16VEC (MP_array [racs_pack_type RACS_TYPE_U16VEC, MP_bin (s16_bytes ys)])"
  "reply_ok RACS_TYPE_U32VEC (MP_array [racs_pack_type RACS_TYPE_U32VEC, MP_bin (s32_bytes xs)])"
  "reply_ok RACS_TYPE_F32VEC (MP_array [racs_pack_type RACS_TYPE_F32VEC, MP_bin (s32_bytes xs)])"
  by (auto simp: reply_ok_def racs_pack_type_def msgpack_int64_def reply_body_def vector_body_def list_all_iff scalar_def)

lemma length_pairs: "length (concat (map (\<lambda>(re, im). [re, im]) zs)) = 2 * length zs"
  by (induction zs) auto

lemma pack_reply_complex [simp]:
  "reply_ok RACS_TYPE_C64VEC (MP_array [racs_pack_type RACS_TYPE_C64VEC, MP_bin (s32_bytes (concat (map (\<lambda>(re, im). [re, im]) zs)))])"
  using length_pairs [of zs] by (simp add: reply_ok_def racs_pack_type_def reply_body_def vector_body_def)

lemma pack_reply_list: "list_all scalar xs \<Longrightarrow> reply_ok RACS_TYPE_LIST (MP_array (racs_pack_type RACS_TYPE_LIST # xs))"
  by (simp add: reply_ok_def racs_pack_type_def reply_body_def)

lemma s32v_unpack:
  "racs_unpack_str (MP_array [racs_pack_type RACS_TYPE_S32VEC, MP_bin (s32_bytes xs)]) 0 = Some ''s32v''"
  "racs_unpack_s32v (MP_array [racs_pack_type RACS_TYPE_S32VEC, MP_bin (s32_bytes xs)]) 1 = Some xs"
  by (simp_all add: racs_unpack_str_def racs_unpack_s32v_def racs_unpack_u8v_def array_elem_def racs_pack_type_def)

text \<open>The reply that reading finds has the type it is announced with.\<close>

lemma reply_type: "reply_ok t obj \<Longrightarrow> racs_unpack_str obj 0 = Some (racs_type_string t)"
  by (cases t) (auto simp: reply_ok_def racs_unpack_str_def array_elem_def)

lemma reply_vector:
  assumes "reply_ok t obj" "racs_unpack_str obj 0 = Some ''s32v''"
  obtains b where "obj = MP_array [racs_pack_type RACS_TYPE_S32VEC, MP_bin b]" "4 dvd length b"
proof -
  have "racs_type_string t = racs_type_string RACS_TYPE_S32VEC" using reply_type [OF assms(1)] assms(2) by simp
  then have "t = RACS_TYPE_S32VEC" by (simp only: racs_type_string_inject)
  with assms(1) obtain body where "obj = MP_array (MP_str ''s32v'' # body)" "reply_body RACS_TYPE_S32VEC body"
    by (auto simp: reply_ok_def)
  moreover from this(2) obtain b where "body = [MP_bin b]" "4 dvd length b"
    by (auto simp: reply_body_def vector_body_def split: list.splits msgpack_object.splits)
  ultimately show thesis using that by (simp add: racs_pack_type_def)
qed

end
