(* ===== verification/Guile.thy ===== *)
theory Guile
  imports Pack
begin

text \<open>
  Scheme values and their replies, \<^verbatim>\<open>src/src/scm.c\<close>. The interpreter is that of the Guile library and is a
  parameter: given the primitives, an expression and a state, it returns what the expression evaluates to, or
  that it raised an error, with the text on the error port. The conversions follow the documented behaviour of
  the library: \<open>integer?\<close> holds of an inexact number without a fraction, but the conversion to a machine integer
  wants an exact one; a failing conversion raises a Scheme error. A Scheme error that is raised while a reply is
  packed has no handler and ends the process, which is \<open>None\<close> here. The theorem of this theory: a packed
  value is a well-formed reply.
\<close>

section \<open>Values\<close>

text \<open>\<open>SCM_num\<close> is a finite number that is not an exact integer; floats in vectors are given by their bits.\<close>

datatype scm =
    SCM_int int | SCM_num rat | SCM_complex rat rat | SCM_BOOL bool | SCM_EOL | SCM_cons scm scm | SCM_string string
  | SCM_s8 "8 word list" | SCM_u8 "racs_uint8 list" | SCM_s16 "racs_int16 list" | SCM_u16 "racs_uint16 list"
  | SCM_s32 "racs_int32 list" | SCM_u32 "racs_uint32 list" | SCM_f32 "32 word list" | SCM_c32 "(32 word \<times> 32 word) list"
  | SCM_other string

definition SCM_BOOL_F :: scm where "SCM_BOOL_F = SCM_BOOL False"

fun scm_is_integer :: "scm \<Rightarrow> bool" where
  "scm_is_integer (SCM_int i) = True"
| "scm_is_integer (SCM_num q) = (q = of_int (trunc_int q))"
| "scm_is_integer _ = False"

fun scm_is_number :: "scm \<Rightarrow> bool" where
  "scm_is_number (SCM_int i) = True"
| "scm_is_number (SCM_num q) = True"
| "scm_is_number (SCM_complex a b) = True"
| "scm_is_number _ = False"

fun scm_to_int64 :: "scm \<Rightarrow> racs_int64 option" where
  "scm_to_int64 (SCM_int i) = (if - (2 ^ 63) \<le> i \<and> i < 2 ^ 63 then Some (word_of_int i) else None)"
| "scm_to_int64 _ = None"

fun scm_to_double :: "scm \<Rightarrow> rat option" where
  "scm_to_double (SCM_int i) = Some (double (of_int i))"
| "scm_to_double (SCM_num q) = Some (double q)"
| "scm_to_double _ = None"

text \<open>A string with a character 0 is not a C string, and the conversion raises an error.\<close>

fun scm_to_locale_string :: "scm \<Rightarrow> string option" where
  "scm_to_locale_string (SCM_string s) = (if CHR 0x00 \<in> set s then None else Some s)"
| "scm_to_locale_string _ = None"

text \<open>\<open>scm_length\<close> raises an error on an improper list.\<close>

fun scm_length :: "scm \<Rightarrow> nat option" where
  "scm_length SCM_EOL = Some 0"
| "scm_length (SCM_cons v x) = map_option Suc (scm_length x)"
| "scm_length _ = None"

section \<open>Packing\<close>

text \<open>An element of a list; \<open>Some None\<close> is an element that cannot be packed.\<close>

definition racs_scm_pack_element :: "scm \<Rightarrow> msgpack_object option option" where
  "racs_scm_pack_element v =
     (case v of
        SCM_string _ \<Rightarrow> map_option (\<lambda>str. Some (MP_str str)) (scm_to_locale_string v)
      | _ \<Rightarrow>
          if scm_is_integer v then map_option (\<lambda>d. Some (msgpack_int64 d)) (scm_to_int64 v)
          else if scm_is_number v then map_option (\<lambda>d. Some (MP_f64 d)) (scm_to_double v)
          else case v of SCM_BOOL b \<Rightarrow> Some (Some (MP_bool b)) | _ \<Rightarrow> Some None)"

text \<open>The loop over the pairs.\<close>

fun pack_elements :: "scm \<Rightarrow> msgpack_object list option option" where
  "pack_elements (SCM_cons v x) =
     do { r \<leftarrow> racs_scm_pack_element v;
          case r of
            None \<Rightarrow> Some None
          | Some obj \<Rightarrow> map_option (map_option (Cons obj)) (pack_elements x) }"
| "pack_elements _ = Some (Some [])"

definition unsupported :: "racs_status \<times> sbuffer" where
  "unsupported = racs_pack_error [] ''EVAL'' ''Unsupported SCM type''"

text \<open>A list is shorter than 2^32, since the sandbox limits the memory. An error clears the buffer.\<close>

definition racs_scm_pack_list :: "sbuffer \<Rightarrow> scm \<Rightarrow> (racs_status \<times> sbuffer) option" where
  "racs_scm_pack_list buf x =
     do { n \<leftarrow> scm_length x;
          r \<leftarrow> pack_elements x;
          Some (case r of
                  None \<Rightarrow> unsupported
                | Some elems \<Rightarrow> (RACS_STATUS_OK, buf @ [MP_array (racs_pack_type RACS_TYPE_LIST # elems)])) }"

text \<open>\<open>null\<close> says whether the elements of an empty vector are at a null pointer.\<close>

definition racs_scm_pack_s32vector :: "bool \<Rightarrow> sbuffer \<Rightarrow> racs_int32 list \<Rightarrow> bool \<Rightarrow> (racs_status \<times> sbuffer) option" where
  "racs_scm_pack_s32vector null buf xs is_final =
     (if xs = [] \<and> null then racs_pack_s32v buf [] 0
      else if is_final then if length xs < 2 then None else racs_pack_s32v buf (drop 2 xs) (length xs - 2)
      else racs_pack_s32v buf xs (length xs))"

definition racs_scm_pack :: "bool \<Rightarrow> sbuffer \<Rightarrow> scm \<Rightarrow> bool \<Rightarrow> (racs_status \<times> sbuffer) option" where
  "racs_scm_pack null buf x is_final =
     (if scm_is_integer x then map_option (racs_pack_int64 buf) (scm_to_int64 x)
      else if scm_is_number x then map_option (racs_pack_float64 buf) (scm_to_double x)
      else case x of
             SCM_BOOL b \<Rightarrow> Some (racs_pack_bool buf b)
           | SCM_EOL \<Rightarrow> Some (racs_pack_null_with_status_ok buf)
           | SCM_cons v y \<Rightarrow> racs_scm_pack_list buf x
           | SCM_string s \<Rightarrow> map_option (racs_pack_str buf) (scm_to_locale_string x)
           | SCM_s8 v \<Rightarrow> racs_pack_s8v buf v (length v)
           | SCM_u8 v \<Rightarrow> racs_pack_u8v buf v (length v)
           | SCM_s16 v \<Rightarrow> racs_pack_s16v buf v (length v)
           | SCM_u16 v \<Rightarrow> racs_pack_u16v buf v (length v)
           | SCM_s32 v \<Rightarrow> racs_scm_pack_s32vector null buf v is_final
           | SCM_u32 v \<Rightarrow> racs_pack_u32v buf v (length v)
           | SCM_f32 v \<Rightarrow> racs_pack_f32v buf v (length v)
           | SCM_c32 v \<Rightarrow> racs_pack_c64v buf v (length v)
           | _ \<Rightarrow> Some unsupported)"

section \<open>Evaluation\<close>

text \<open>
  Escaped quotes lose their backslash. On the empty string the bound \<open>n - 1\<close> wraps and the loop runs
  through memory.
\<close>

fun unescape :: "string \<Rightarrow> string" where
  "unescape (c # d # s) = (if c = CHR 0x5C \<and> d = CHR 0x27 then CHR '' '' else c) # unescape (d # s)"
| "unescape s = s"

definition racs_unescape_single_quotes :: "string \<Rightarrow> string option" where
  "racs_unescape_single_quotes s = (if s = [] then None else Some (unescape s))"

datatype guile_error = Scm_misc_error string string | Scm_wrong_type_arg | Scm_out_of_range | Scm_unbound_variable | Scm_wrong_num_args

text \<open>
  A primitive gets its arguments and the state. The interpreter gets the primitives by name, an expression and
  the state; the result is the value, or none after an error, with the text on the error port.
\<close>

type_synonym 'c primitives = "string \<Rightarrow> scm list \<Rightarrow> 'c \<Rightarrow> ((guile_error + scm) \<times> 'c) option"

type_synonym 'c interpreter = "'c primitives \<Rightarrow> string \<Rightarrow> 'c \<Rightarrow> ((scm option \<times> string) \<times> 'c) option"

text \<open>The handler returns false after an error, so the value false is taken for one.\<close>

definition racs_scm_safe_eval_with_error_handling :: "'c interpreter \<Rightarrow> 'c primitives \<Rightarrow> string \<Rightarrow> 'c
    \<Rightarrow> (scm \<times> string option \<times> 'c) option" where
  "racs_scm_safe_eval_with_error_handling eval prims expr ctx =
     do { expr \<leftarrow> racs_unescape_single_quotes expr;
          ((v, port), ctx) \<leftarrow> eval prims expr ctx;
          let result = (case v of None \<Rightarrow> SCM_BOOL_F | Some x \<Rightarrow> x);
          Some (result, if SCM_BOOL_F = result then Some port else None, ctx) }"

section \<open>Replies of Scheme values\<close>

lemma pack_element_scalar: "racs_scm_pack_element v = Some (Some obj) \<Longrightarrow> scalar obj"
  by (cases v) (auto simp: racs_scm_pack_element_def scalar_def msgpack_int64_def split: if_splits)

lemma pack_elements_scalar: "pack_elements x = Some (Some objs) \<Longrightarrow> list_all scalar objs"
  by (induction x arbitrary: objs rule: pack_elements.induct)
    (auto simp: bind_eq_Some_conv pack_element_scalar split: option.splits)

text \<open>One well-formed reply that is an error if and only if the status is.\<close>

definition replied :: "racs_status \<times> sbuffer \<Rightarrow> bool" where
  "replied r \<longleftrightarrow> (\<exists>t obj. snd r = [obj] \<and> reply_ok t obj \<and>
     fst r = (if t = RACS_TYPE_ERROR then RACS_STATUS_ERROR else RACS_STATUS_OK))"

lemma replied_ok: "reply_ok t obj \<Longrightarrow> t \<noteq> RACS_TYPE_ERROR \<Longrightarrow> replied (RACS_STATUS_OK, [obj])"
  by (auto simp: replied_def)

lemma replied_pack:
  "replied (racs_pack_int64 [] d)" "replied (racs_pack_float64 [] q)" "replied (racs_pack_bool [] b)"
  "replied (racs_pack_null_with_status_ok [])" "replied (racs_pack_str [] s)"
  unfolding racs_pack_int64_def racs_pack_float64_def racs_pack_bool_def racs_pack_null_with_status_ok_def racs_pack_str_def
    append_Nil
  by (rule replied_ok, rule pack_reply, simp)+

lemma replied_error: "replied (racs_pack_error [] c m)"
  unfolding replied_def racs_pack_error_def append_Nil fst_conv snd_conv
  by (intro exI conjI, rule refl, rule pack_reply(2)) simp

lemma replied_vector:
  "racs_pack_s8v [] v8 n = Some r \<Longrightarrow> replied r" "racs_pack_u8v [] v n = Some r \<Longrightarrow> replied r"
  "racs_pack_s16v [] v16 n = Some r \<Longrightarrow> replied r" "racs_pack_u16v [] v16 n = Some r \<Longrightarrow> replied r"
  "racs_pack_s32v [] v32 n = Some r \<Longrightarrow> replied r" "racs_pack_u32v [] v32 n = Some r \<Longrightarrow> replied r"
  "racs_pack_f32v [] v32 n = Some r \<Longrightarrow> replied r" "racs_pack_c64v [] vc n = Some r \<Longrightarrow> replied r"
  by (auto simp: racs_pack_s8v_def racs_pack_u8v_def racs_pack_s16v_def racs_pack_u16v_def racs_pack_s32v_def racs_pack_u32v_def
      racs_pack_f32v_def racs_pack_c64v_def split: if_splits intro: replied_ok [OF pack_reply(5)] replied_ok [OF pack_reply(6)]
      replied_ok [OF pack_reply(10)] replied_ok [OF pack_reply(11)] replied_ok [OF pack_reply(12)] replied_ok [OF pack_reply(13)]
      replied_ok [OF pack_reply(14)] replied_ok [OF pack_reply_complex])

lemma scm_pack_replied:
  assumes "racs_scm_pack null [] x is_final = Some r"
  shows "replied r"
proof -
  have list: "replied r" if "racs_scm_pack_list [] y = Some r" for y
    using that replied_error replied_ok [OF pack_reply_list [OF pack_elements_scalar]]
    by (auto simp: racs_scm_pack_list_def unsupported_def bind_eq_Some_conv split: option.splits)
  show ?thesis
    using assms list replied_pack replied_error replied_vector
    by (cases x) (auto simp: racs_scm_pack_def racs_scm_pack_s32vector_def unsupported_def split: if_splits)
qed

section \<open>Where evaluation goes wrong\<close>

text \<open>
  Numbers that are integers but have no exact 64-bit value end the process; so do short vectors of samples at
  the end of a pipeline. The empty expression is undefined, and the value false is reported as an error.
\<close>

lemma pack_not_representable:
  "racs_scm_pack null buf (SCM_num (of_int i)) f = None"
  "2 ^ 63 \<le> i \<Longrightarrow> racs_scm_pack null buf (SCM_int i) f = None"
  "racs_scm_pack null buf (SCM_s32 [x]) True = None"
  by (simp_all add: racs_scm_pack_def racs_scm_pack_s32vector_def trunc_int_def)

lemma eval_empty: "racs_scm_safe_eval_with_error_handling eval prims [] ctx = None"
  by (simp add: racs_scm_safe_eval_with_error_handling_def racs_unescape_single_quotes_def)

lemma eval_false:
  "expr \<noteq> [] \<Longrightarrow> eval prims (unescape expr) ctx = Some ((Some (SCM_BOOL False), port), ctx') \<Longrightarrow>
   racs_scm_safe_eval_with_error_handling eval prims expr ctx = Some (SCM_BOOL_F, Some port, ctx')"
  by (simp add: racs_scm_safe_eval_with_error_handling_def racs_unescape_single_quotes_def SCM_BOOL_F_def)

end
