(* ===== verification/Wav.thy ===== *)
theory Wav
  imports Samples
begin

text \<open>
  The WAV writer of \<^verbatim>\<open>src/src/wav.c\<close> and the dispatch on the MIME type of \<^verbatim>\<open>src/src/encode.c\<close>. The MP3
  and Opus encoders are third-party libraries: what \<open>racs_mp3_write_s16\<close> and the Opus encoder write is a
  parameter. The theorem shows that a WAV file decodes to the samples it was made from, that its chunk
  sizes are those of the file and that it fits the buffer the caller allocates.
\<close>

section \<open>WAV\<close>

record racs_wav_header =
  wh_chunk_id :: bytes
  wh_chunk_size :: racs_uint32
  wh_format :: bytes

record racs_wav_format =
  wf_sub_chunk1_id :: bytes
  wf_sub_chunk1_size :: racs_uint32
  wf_audio_format :: racs_uint16
  wf_channels :: racs_uint16
  wf_sample_rate :: racs_uint32
  wf_byte_rate :: racs_uint32
  wf_block_align :: racs_uint16
  wf_bit_depth :: racs_uint16

record racs_wav_data =
  wd_sub_chunk2_id :: bytes
  wd_sub_chunk2_size :: racs_uint32

record racs_wav =
  wav_header :: racs_wav_header
  wav_format :: racs_wav_format
  wav_data :: racs_wav_data
  wav_pos :: nat

definition racs_wav_set_channels :: "racs_wav \<Rightarrow> racs_uint16 \<Rightarrow> racs_wav" where
  "racs_wav_set_channels wav x = wav\<lparr>wav_format := (wav_format wav)\<lparr>wf_channels := x\<rparr>\<rparr>"

definition racs_wav_set_sample_rate :: "racs_wav \<Rightarrow> racs_uint32 \<Rightarrow> racs_wav" where
  "racs_wav_set_sample_rate wav x = wav\<lparr>wav_format := (wav_format wav)\<lparr>wf_sample_rate := x\<rparr>\<rparr>"

definition racs_wav_set_bit_depth :: "racs_wav \<Rightarrow> racs_uint16 \<Rightarrow> racs_wav" where
  "racs_wav_set_bit_depth wav x = wav\<lparr>wav_format := (wav_format wav)\<lparr>wf_bit_depth := x\<rparr>\<rparr>"

text \<open>The four-letter tags.\<close>

definition RIFF :: bytes where "RIFF = [0x52, 0x49, 0x46, 0x46]"
definition WAVE :: bytes where "WAVE = [0x57, 0x41, 0x56, 0x45]"
definition FMT :: bytes where "FMT = [0x66, 0x6D, 0x74, 0x20]"
definition DATA :: bytes where "DATA = [0x64, 0x61, 0x74, 0x61]"

definition racs_wav_encode_header :: "bytes \<Rightarrow> racs_wav \<Rightarrow> racs_uint32 \<Rightarrow> (bytes \<times> racs_wav) option" where
  "racs_wav_encode_header out wav samples =
     do { let f = wav_format wav;
          let chunk_size = samples * ucast (wf_channels f) * ucast (wf_bit_depth f) div 8 + 36;
          let wav = wav\<lparr>wav_header := \<lparr>wh_chunk_id = RIFF, wh_chunk_size = chunk_size, wh_format = WAVE\<rparr>\<rparr>;
          (out, pos) \<leftarrow> racs_write_bin out RIFF 4 (wav_pos wav);
          (out, pos) \<leftarrow> racs_write_uint32 out chunk_size pos;
          (out, pos) \<leftarrow> racs_write_bin out WAVE 4 pos;
          Some (out, wav\<lparr>wav_pos := pos\<rparr>) }"

text \<open>
  The product of channels and bit depth is one of two promoted 16-bit values, in \<^verbatim>\<open>int\<close>: undefined when it
  overflows.
\<close>

definition racs_wav_encode_format :: "bytes \<Rightarrow> racs_wav \<Rightarrow> (bytes \<times> racs_wav) option" where
  "racs_wav_encode_format out wav =
     do { let f = wav_format wav;
          let product = uint (wf_channels f) * uint (wf_bit_depth f);
          align \<leftarrow> (if product < 2 ^ 31 then Some (word_of_int (product div 8) :: racs_uint16) else None);
          let f = f\<lparr>wf_block_align := align, wf_byte_rate := wf_sample_rate f * ucast align,
                    wf_sub_chunk1_size := 16, wf_audio_format := 1, wf_sub_chunk1_id := FMT\<rparr>;
          (out, pos) \<leftarrow> racs_write_bin out (wf_sub_chunk1_id f) 4 (wav_pos wav);
          (out, pos) \<leftarrow> racs_write_uint32 out (wf_sub_chunk1_size f) pos;
          (out, pos) \<leftarrow> racs_write_uint16 out (wf_audio_format f) pos;
          (out, pos) \<leftarrow> racs_write_uint16 out (wf_channels f) pos;
          (out, pos) \<leftarrow> racs_write_uint32 out (wf_sample_rate f) pos;
          (out, pos) \<leftarrow> racs_write_uint32 out (wf_byte_rate f) pos;
          (out, pos) \<leftarrow> racs_write_uint16 out (wf_block_align f) pos;
          (out, pos) \<leftarrow> racs_write_uint16 out (wf_bit_depth f) pos;
          Some (out, wav\<lparr>wav_format := f, wav_pos := pos\<rparr>) }"

text \<open>The size becomes the \<^verbatim>\<open>int\<close> parameter of \<open>racs_write_bin\<close>.\<close>

definition racs_wav_encode_data :: "bytes \<Rightarrow> racs_wav \<Rightarrow> bytes \<Rightarrow> racs_uint32 \<Rightarrow> (bytes \<times> racs_wav) option" where
  "racs_wav_encode_data out wav d samples =
     do { let f = wav_format wav;
          let sz = samples * ucast (wf_channels f) * ucast (wf_bit_depth f) div 8;
          (out, pos) \<leftarrow> racs_write_bin out DATA 4 (wav_pos wav);
          (out, pos) \<leftarrow> racs_write_uint32 out sz pos;
          (out, pos) \<leftarrow> racs_write_bin out d (sint sz) pos;
          Some (out, wav\<lparr>wav_data := \<lparr>wd_sub_chunk2_id = DATA, wd_sub_chunk2_size = sz\<rparr>, wav_pos := pos\<rparr>) }"

text \<open>The number of samples is a \<^verbatim>\<open>size_t\<close> that the encoders take as 32 bits. The size of the buffer is unused.\<close>

definition racs_wav_write :: "racs_wav \<Rightarrow> bytes \<Rightarrow> bytes \<Rightarrow> racs_uint64 \<Rightarrow> (bytes \<times> racs_wav) option" where
  "racs_wav_write wav d out samples =
     do { (out, wav) \<leftarrow> racs_wav_encode_header out (wav\<lparr>wav_pos := 0\<rparr>) (ucast samples);
          (out, wav) \<leftarrow> racs_wav_encode_format out wav;
          racs_wav_encode_data out wav d (ucast samples) }"

definition racs_wav_write_s16 :: "racs_wav \<Rightarrow> racs_int16 list \<Rightarrow> bytes \<Rightarrow> racs_uint64 \<Rightarrow> (bytes \<times> racs_wav) option" where
  "racs_wav_write_s16 wav xs out samples = racs_wav_write wav (s16_bytes xs) out samples"

definition racs_wav_write_s24 :: "racs_wav \<Rightarrow> racs_int24 list \<Rightarrow> bytes \<Rightarrow> racs_uint64 \<Rightarrow> (bytes \<times> racs_wav) option" where
  "racs_wav_write_s24 wav xs out samples = racs_wav_write wav (s24_bytes xs) out samples"

section \<open>Encoding\<close>

record racs_encode =
  enc_channels :: racs_uint16
  enc_sample_rate :: racs_uint32
  enc_bit_depth :: racs_uint16

text \<open>
  What the lossy encoders make of the 16-bit samples in the buffer: the new buffer and the number of
  bytes written.
\<close>

type_synonym codec = "racs_uint16 \<Rightarrow> racs_uint32 \<Rightarrow> racs_int16 list \<Rightarrow> bytes \<Rightarrow> racs_uint64 \<Rightarrow> (bytes \<times> nat) option"

definition fresh_wav :: "racs_encode \<Rightarrow> racs_wav \<Rightarrow> racs_wav" where
  "fresh_wav e junk = racs_wav_set_bit_depth (racs_wav_set_sample_rate (racs_wav_set_channels junk
     (enc_channels e)) (enc_sample_rate e)) (enc_bit_depth e)"

text \<open>
  \<open>junk\<close> is the uninitialised structure on the stack. For Ogg the encoder is destroyed for every number of bits, though only
  those of 16 and 24 have initialised it.
\<close>

definition racs_encode_pcm :: "codec \<Rightarrow> codec \<Rightarrow> racs_wav \<Rightarrow> racs_encode \<Rightarrow> racs_int32 list \<Rightarrow> bytes \<Rightarrow> racs_uint64 \<Rightarrow> string
    \<Rightarrow> (bytes \<times> nat) option" where
  "racs_encode_pcm mp3 ogg junk e xs out samples mime =
     (let n = unat (samples * ucast (enc_channels e));
          lossy = (\<lambda>codec.
            if enc_bit_depth e = 16
            then do { ys \<leftarrow> racs_s32_s16 xs n; codec (enc_channels e) (enc_sample_rate e) ys out samples }
            else if enc_bit_depth e = 24
            then do { ys \<leftarrow> racs_s32_s16_d8 xs n; codec (enc_channels e) (enc_sample_rate e) ys out samples }
            else Some (out, 0))
      in if mime = ''audio/wav''
         then if enc_bit_depth e = 16
              then do { ys \<leftarrow> racs_s32_s16 xs n;
                        (out, wav) \<leftarrow> racs_wav_write_s16 (fresh_wav e junk) ys out samples;
                        Some (out, wav_pos wav) }
              else if enc_bit_depth e = 24
              then do { ys \<leftarrow> racs_s32_s24 xs n;
                        (out, wav) \<leftarrow> racs_wav_write_s24 (fresh_wav e junk) ys out samples;
                        Some (out, wav_pos wav) }
              else Some (out, 0)
         else if mime = ''audio/mpeg'' \<or> mime = ''audio/mp3'' then lossy mp3
         else if mime = ''audio/ogg'' then if enc_bit_depth e = 16 \<or> enc_bit_depth e = 24 then lossy ogg else None
         else Some (out, 0))"

section \<open>What is written\<close>

definition wav_header_bytes :: "racs_uint16 \<Rightarrow> racs_uint32 \<Rightarrow> racs_uint16 \<Rightarrow> racs_uint32 \<Rightarrow> bytes" where
  "wav_header_bytes ch rate bd sz =
     RIFF @ le_bytes 4 (sz + 36) @ WAVE @ FMT @ le_bytes 4 (16 :: racs_uint32) @ le_bytes 2 (1 :: racs_uint16) @
     le_bytes 2 ch @ le_bytes 4 rate @ le_bytes 4 (rate * ucast (ch * bd div 8)) @ le_bytes 2 (ch * bd div 8) @
     le_bytes 2 bd @ DATA @ le_bytes 4 sz"

lemma length_wav_header [simp]: "length (wav_header_bytes ch rate bd sz) = 44"
  by (simp add: wav_header_bytes_def RIFF_def WAVE_def FMT_def DATA_def)


lemma wav_write_eq:
  fixes samples :: racs_uint64 and sz :: racs_uint32
  assumes f: "wf_channels (wav_format wav) = ch" "wf_sample_rate (wav_format wav) = rate" "wf_bit_depth (wav_format wav) = bd"
    and small: "uint ch * uint bd < 2 ^ 16" "sint sz = int (length d)" and room: "44 + length d \<le> length out"
    and sz: "ucast samples * ucast ch * ucast bd div 8 = sz"
  shows "\<exists>wav'. racs_wav_write wav d out samples = Some (wav_header_bytes ch rate bd sz @ d @ drop (44 + length d) out, wav') \<and>
    wav_pos wav' = 44 + length d"
proof -
  have tags: "length RIFF = 4" "length WAVE = 4" "length FMT = 4" "length DATA = 4"
    by (simp_all add: RIFF_def WAVE_def FMT_def DATA_def)
  have al: "word_of_int (uint ch * uint bd div 8) = ch * bd div 8"
  proof -
    have "uint (ch * bd) = uint ch * uint bd" using small(1) by (simp add: uint_word_ariths take_bit_int_eq_self)
    then show ?thesis by (simp add: word_div_def)
  qed
  have big: "uint ch * uint bd < 2147483648" using small(1) by simp
  have wr: "racs_write_bin (filled p r) t 4 off = Some (filled (p @ t) (drop 4 r), off + 4)"
    if "length t = 4" "off = length p" "4 \<le> length r" for p r t off
    using filled_write(4) [OF that(2), of 4 t r] that by simp
  have dw: "racs_write_bin (filled p r) d (int (length d)) off = Some (filled (p @ d) (drop (length d) r), off + length d)"
    if "off = length p" "length d \<le> length r" for p r off
    by (rule filled_write(4) [OF that(1) refl that(2)])
  have "\<exists>wav'. racs_wav_write wav d (filled [] out) samples =
      Some (filled (wav_header_bytes ch rate bd sz @ d) (drop (44 + length d) out), wav') \<and> wav_pos wav' = 44 + length d"
    using room big
    by (simp add: racs_wav_write_def racs_wav_encode_header_def racs_wav_encode_format_def racs_wav_encode_data_def
        Let_def f sz al small(2) wr dw filled_write(2,3) tags wav_header_bytes_def add.commute)
  then show ?thesis by (simp add: filled_def)
qed


section \<open>Reading a WAV file\<close>

text \<open>The canonical 44-byte header: the four tags, PCM, consistent sizes.\<close>

definition wav_decode :: "bytes \<Rightarrow> (racs_uint16 \<times> racs_uint32 \<times> racs_uint16 \<times> bytes) option" where
  "wav_decode file =
     (if 44 \<le> length file \<and> slice 0 4 file = RIFF \<and> slice 8 4 file = WAVE \<and> slice 12 4 file = FMT \<and> slice 36 4 file = DATA \<and>
         unat (of_le_bytes (slice 4 4 file) :: racs_uint32) = length file - 8 \<and>
         of_le_bytes (slice 16 4 file) = (16 :: racs_uint32) \<and> of_le_bytes (slice 20 2 file) = (1 :: racs_uint16) \<and>
         unat (of_le_bytes (slice 40 4 file) :: racs_uint32) = length file - 44
      then Some (of_le_bytes (slice 22 2 file), of_le_bytes (slice 24 4 file), of_le_bytes (slice 34 2 file), drop 44 file)
      else None)"

lemma wav_decode_bytes:
  assumes "unat sz = length d" "length d + 36 < 2 ^ 32"
  shows "wav_decode (wav_header_bytes ch rate bd sz @ d) = Some (ch, rate, bd, d)"
proof -
  have tags: "length RIFF = 4" "length WAVE = 4" "length FMT = 4" "length DATA = 4"
    by (simp_all add: RIFF_def WAVE_def FMT_def DATA_def)
  have u: "unat (sz + 36) = length d + 36" using assms by (simp add: unat_word_ariths take_bit_nat_eq_self)
  have whole: "slice 0 n t = t" if "n = length t" for n and t :: bytes using that by (simp add: slice_def)
  have dec: "of_le_bytes (le_bytes 4 w) = (w :: racs_uint32)" "of_le_bytes (le_bytes 2 v) = (v :: racs_uint16)" for w v
    by simp_all
  show ?thesis
    unfolding wav_decode_def wav_header_bytes_def
    by (simp add: slice_append_left slice_append_right whole tags dec u assms(1))
qed

text \<open>The samples of a decoded file, at 32 bits.\<close>

definition wav_samples :: "racs_uint16 \<Rightarrow> bytes \<Rightarrow> racs_int32 list" where
  "wav_samples bd d = (if bd = 16 then map scast (s16_of_bytes d) else map s24_s32 (s24_of_bytes d))"

definition sample_ok :: "racs_uint16 \<Rightarrow> racs_int32 \<Rightarrow> bool" where
  "sample_ok bd x \<longleftrightarrow> - (2 ^ (unat bd - 1)) \<le> sint x \<and> sint x < 2 ^ (unat bd - 1)"

text \<open>The samples as the bytes of the file.\<close>

definition wav_payload :: "racs_uint16 \<Rightarrow> racs_int32 list \<Rightarrow> bytes" where
  "wav_payload bd xs = (if bd = 16 then s16_bytes (map ucast xs) else s24_bytes (map s32_s24 xs))"

lemma length_wav_payload: "bd \<in> {16, 24} \<Longrightarrow> length (wav_payload bd xs) = length xs * (unat bd div 8)"
  by (auto simp: wav_payload_def)

lemma wav_samples_payload:
  assumes "bd \<in> {16, 24}" "\<forall>x\<in>set xs. sample_ok bd x"
  shows "wav_samples bd (wav_payload bd xs) = xs"
proof (cases "bd = 16")
  case True
  with assms(2) show ?thesis
    by (auto simp: wav_samples_def wav_payload_def sample_ok_def intro!: map_idI s32_s16_inverse)
next
  case False
  with assms have "bd = 24" by simp
  with assms(2) show ?thesis
    by (auto simp: wav_samples_def wav_payload_def sample_ok_def intro!: map_idI s32_s24_inverse)
qed

text \<open>
  C34: A WAV file decodes to the samples it was made from: for audio of less than 2^32 bits, encoding the 16- or 24-bit samples of one or two
  channels into the buffer that the command allocates stays inside the buffer and fills it, and reading
  the file back gives the channels, the rate, the bit depth and, sample by sample, the input.
\<close>

theorem wav_encode_roundtrip:
  assumes "enc_channels e \<in> {1, 2}" "enc_bit_depth e \<in> {16, 24}"
    and "length xs = frames * unat (enc_channels e)" "length xs * unat (enc_bit_depth e) < 2 ^ 32"
    and "\<forall>x\<in>set xs. sample_ok (enc_bit_depth e) x"
    and "length out = length xs * (unat (enc_bit_depth e) div 8) + 44"
  shows "\<exists>file d. racs_encode_pcm mp3 ogg junk e xs out (of_nat frames) ''audio/wav'' = Some (file, length out) \<and>
    length file = length out \<and>
    wav_decode file = Some (enc_channels e, enc_sample_rate e, enc_bit_depth e, d) \<and> wav_samples (enc_bit_depth e) d = xs"
proof -
  let ?ch = "enc_channels e" and ?bd = "enc_bit_depth e" and ?d = "wav_payload (enc_bit_depth e) xs"
  define sz :: racs_uint32 where "sz = of_nat (length ?d)"
  have fr: "frames \<le> length xs" using assms(1,3) by auto
  have b: "unat ?bd div 8 \<le> 3" "unat ?ch \<le> 2" "unat ?bd mod 8 = 0" "uint ?ch * uint ?bd < 2 ^ 16" using assms(1,2) by auto
  have ld: "length ?d = length xs * (unat ?bd div 8)" by (rule length_wav_payload [OF assms(2)])
  have "length ?d \<le> length xs * 3" unfolding ld using b(1) by (rule mult_le_mono2)
  moreover have "length xs * 16 \<le> length xs * unat ?bd" using assms(2) by auto
  then have "length xs * 16 < 2 ^ 32" using assms(4) by (rule le_less_trans)
  moreover from this have lx: "length xs < 268435456" by simp
  ultimately have small: "length ?d + 36 < 2 ^ 31" by simp
  have usz: "unat sz = length ?d" unfolding sz_def using small by (simp add: unsigned_of_nat take_bit_nat_eq_self)
  have ssz: "sint sz = int (length ?d)"
    unfolding sz_def using small by (simp add: signed_of_nat signed_take_bit_int_eq_self)
  have n: "unat (of_nat frames * ucast ?ch :: racs_uint64) = length xs"
    using assms(1,3) lx by (auto simp: unat_word_ariths unsigned_of_nat take_bit_nat_eq_self)
  have sz: "ucast (of_nat frames :: racs_uint64) * ucast ?ch * ucast ?bd div 8 = sz"
  proof -
    have "unat (ucast (of_nat frames :: racs_uint64) * ucast ?ch * ucast ?bd :: racs_uint32) = length xs * unat ?bd"
      using assms(1-4) lx by (auto simp: unat_word_ariths unsigned_of_nat unsigned_ucast_eq take_bit_nat_eq_self)
    then show ?thesis using assms(2) usz ld by (auto intro!: word_unat_eq_iff [THEN iffD2] simp: unat_div)
  qed
  have wv: "wf_channels (wav_format (fresh_wav e junk)) = ?ch" "wf_sample_rate (wav_format (fresh_wav e junk)) = enc_sample_rate e"
    "wf_bit_depth (wav_format (fresh_wav e junk)) = ?bd"
    by (simp_all add: fresh_wav_def racs_wav_set_channels_def racs_wav_set_sample_rate_def racs_wav_set_bit_depth_def)
  have room: "44 + length ?d \<le> length out" using assms(6) ld by simp
  obtain wav' where w: "racs_wav_write (fresh_wav e junk) ?d out (of_nat frames) =
      Some (wav_header_bytes ?ch (enc_sample_rate e) ?bd sz @ ?d @ drop (44 + length ?d) out, wav')" "wav_pos wav' = 44 + length ?d"
    using wav_write_eq [OF wv b(4) ssz room sz] by blast
  have full: "drop (44 + length ?d) out = []" using assms(6) ld by simp
  have dec: "wav_decode (wav_header_bytes ?ch (enc_sample_rate e) ?bd sz @ ?d) = Some (?ch, enc_sample_rate e, ?bd, ?d)"
    using small by (intro wav_decode_bytes [OF usz]) simp
  have "racs_encode_pcm mp3 ogg junk e xs out (of_nat frames) ''audio/wav'' =
      Some (wav_header_bytes ?ch (enc_sample_rate e) ?bd sz @ ?d, 44 + length ?d)"
  proof (cases "?bd = 16")
    case True
    then show ?thesis using w full
      by (simp add: racs_encode_pcm_def Let_def n racs_s32_s16_def racs_wav_write_s16_def wav_payload_def)
  next
    case False
    then have "?bd = 24" using assms(2) by simp
    then show ?thesis using w full
      by (simp add: racs_encode_pcm_def Let_def n racs_s32_s24_def racs_wav_write_s24_def wav_payload_def)
  qed
  then show ?thesis using dec wav_samples_payload [OF assms(2,5)] assms(6) ld by (auto simp: add.commute)
qed

theorem wav_encode_roundtrip_witness:
  "\<exists>file d. racs_encode_pcm (\<lambda>_ _ _ out _. Some (out, 0)) (\<lambda>_ _ _ out _. Some (out, 0))
      \<lparr>wav_header = \<lparr>wh_chunk_id = [], wh_chunk_size = 0, wh_format = []\<rparr>,
       wav_format = \<lparr>wf_sub_chunk1_id = [], wf_sub_chunk1_size = 0, wf_audio_format = 0, wf_channels = 0, wf_sample_rate = 0,
         wf_byte_rate = 0, wf_block_align = 0, wf_bit_depth = 0\<rparr>,
       wav_data = \<lparr>wd_sub_chunk2_id = [], wd_sub_chunk2_size = 0\<rparr>, wav_pos = 0\<rparr>
      \<lparr>enc_channels = 2, enc_sample_rate = 44100, enc_bit_depth = 24\<rparr> [-1, 8388607, -8388608, 7]
      (replicate 56 0) (of_nat 2) ''audio/wav'' = Some (file, length (replicate 56 (0 :: racs_uint8))) \<and>
    length file = length (replicate 56 (0 :: racs_uint8)) \<and>
    wav_decode file = Some (2, 44100, 24, d) \<and> wav_samples 24 d = [-1, 8388607, -8388608, 7]"
  using wav_encode_roundtrip [of "\<lparr>enc_channels = 2, enc_sample_rate = 44100, enc_bit_depth = 24\<rparr>"
      "[-1, 8388607, -8388608, 7]" 2 "replicate 56 0"]
  by (simp add: sample_ok_def)

text \<open>
  The sizes are computed in bits, modulo 2^32: beyond 512 MiB of audio they are wrong. For 2^27 frames of
  24-bit stereo (768 MiB) the data chunk is announced, and copied, with 256 MiB.
\<close>

lemma wav_size_wraps: "(ucast (2 ^ 27 :: racs_uint64) * ucast (2 :: racs_uint16) * ucast (24 :: racs_uint16) div 8 :: racs_uint32) = 2 ^ 28"
  by simp

end
