(* ===== verification/Codecs.thy ===== *)
theory Codecs
  imports Wav
begin

text \<open>
  The wrappers of the libraries for MP3, Ogg and Zstandard: \<^verbatim>\<open>src/src/mp3.c\<close>, \<^verbatim>\<open>src/src/ogg.c\<close> and
  \<^verbatim>\<open>src/src/zstd.c\<close>. The libraries are parameters. An encoder is what it makes of the samples it has been
  given so far. The theorem: the Ogg writer copies whole frames of 20 ms, so it reads beyond the samples
  unless their number is a multiple of a frame.
\<close>

section \<open>Zstandard\<close>

text \<open>\<open>None\<close> is an error, for the size also an unknown one. The second argument is the capacity.\<close>

record libzstd =
  ZSTD_getFrameContentSize :: "bytes \<Rightarrow> nat option"
  ZSTD_decompress :: "bytes \<Rightarrow> nat \<Rightarrow> bytes option"
  ZSTD_compressBound :: "nat \<Rightarrow> nat"
  ZSTD_compress :: "bytes \<Rightarrow> nat \<Rightarrow> int \<Rightarrow> bytes option"

definition racs_zstd_compress :: "libzstd \<Rightarrow> bytes \<Rightarrow> int \<Rightarrow> bytes option" where
  "racs_zstd_compress lib src level = ZSTD_compress lib src (ZSTD_compressBound lib (length src)) level"

definition racs_zstd_decompress :: "libzstd \<Rightarrow> bytes \<Rightarrow> bytes option" where
  "racs_zstd_decompress lib src =
     do { original_size \<leftarrow> ZSTD_getFrameContentSize lib src; ZSTD_decompress lib src original_size }"

section \<open>MP3\<close>

text \<open>
  The encoder gets the channels, the rate, the samples and the room in the buffer, and returns what it writes
  there and its result, which is negative for an error. Its last frames are never flushed.
\<close>

type_synonym liblame = "racs_uint16 \<Rightarrow> racs_uint32 \<Rightarrow> racs_int16 list \<Rightarrow> nat \<Rightarrow> bytes \<times> int"

definition racs_mp3_write :: "liblame \<Rightarrow> codec" where
  "racs_mp3_write lame channels sample_rate inp out samples =
     (if channels = 1 \<or> channels = 2
      then if length inp < unat samples * unat channels then None
           else let (written, pos) = lame channels sample_rate (take (unat samples * unat channels) inp) (length out)
                in if length written \<le> length out then Some (patch 0 written out, nat (pos mod 2 ^ 64)) else None
      else Some (out, 0))"

section \<open>Ogg\<close>

text \<open>
  Whether the encoder can be created; for the frames it has got so far, the last one included, the pieces it passes
  to the write callback for that one and whether it reports no error; and the pieces it still has at the end.
\<close>

record libopusenc =
  ope_encoder_create :: "racs_uint16 \<Rightarrow> racs_uint32 \<Rightarrow> bool"
  ope_encoder_write :: "racs_uint16 \<Rightarrow> racs_uint32 \<Rightarrow> racs_int16 list list \<Rightarrow> bytes list \<times> bool"
  ope_encoder_drain :: "racs_uint16 \<Rightarrow> racs_uint32 \<Rightarrow> racs_int16 list list \<Rightarrow> bytes list"

text \<open>What can go wrong: reads and writes outside the arrays, uses of a null or destroyed encoder, a loop without end.\<close>

datatype ogg_fault = Reads_beyond | Writes_beyond | Null_encoder | Destroyed_twice | Never_ends | Int_overflow

datatype enc_state = Enc_null | Enc_live | Enc_destroyed

record racs_ogg =
  og_channels :: racs_uint16
  og_rate :: racs_uint32
  og_enc :: enc_state
  og_frames :: "racs_int16 list list"
  og_out :: bytes
  og_w_pos :: nat

definition RACS_OGG_FRAMESIZE_20MS :: rat where
  "RACS_OGG_FRAMESIZE_20MS = double (2 / 100)"

text \<open>The callback copies without a look at the size of the buffer.\<close>

definition racs_ogg_write_callback :: "bytes \<Rightarrow> racs_ogg \<Rightarrow> ogg_fault + racs_ogg" where
  "racs_ogg_write_callback ptr og =
     (if og_w_pos og + length ptr \<le> length (og_out og)
      then Inr (og\<lparr>og_out := patch (og_w_pos og) ptr (og_out og), og_w_pos := og_w_pos og + length ptr\<rparr>)
      else Inl Writes_beyond)"

fun ogg_callbacks :: "bytes list \<Rightarrow> racs_ogg \<Rightarrow> ogg_fault + racs_ogg" where
  "ogg_callbacks [] og = Inr og"
| "ogg_callbacks (ptr # ptrs) og =
     (case racs_ogg_write_callback ptr og of Inl f \<Rightarrow> Inl f | Inr og \<Rightarrow> ogg_callbacks ptrs og)"

definition racs_ogg_init :: "libopusenc \<Rightarrow> racs_uint16 \<Rightarrow> racs_uint32 \<Rightarrow> bytes \<Rightarrow> racs_ogg" where
  "racs_ogg_init lib channels sample_rate out =
     \<lparr>og_channels = channels, og_rate = sample_rate,
      og_enc = (if ope_encoder_create lib channels sample_rate then Enc_live else Enc_null),
      og_frames = [], og_out = out, og_w_pos = 0\<rparr>"

definition racs_ogg_destroy :: "libopusenc \<Rightarrow> racs_ogg \<Rightarrow> ogg_fault + racs_ogg" where
  "racs_ogg_destroy lib og =
     (case og_enc og of
        Enc_null \<Rightarrow> Inl Null_encoder
      | Enc_destroyed \<Rightarrow> Inl Destroyed_twice
      | Enc_live \<Rightarrow>
          (case ogg_callbacks (ope_encoder_drain lib (og_channels og) (og_rate og) (og_frames og)) og of
             Inl f \<Rightarrow> Inl f | Inr og \<Rightarrow> Inr (og\<lparr>og_enc := Enc_destroyed\<rparr>)))"

definition samples_per_channel :: "racs_uint32 \<Rightarrow> nat" where
  "samples_per_channel sample_rate = nat (trunc_int (double (RACS_OGG_FRAMESIZE_20MS * of_nat (unat sample_rate))))"

text \<open>\<open>ope_encoder_write\<close> on the next frame; the second component is whether it reports no error.\<close>

definition ogg_encode_frame :: "libopusenc \<Rightarrow> racs_int16 list \<Rightarrow> racs_ogg \<Rightarrow> ogg_fault + racs_ogg \<times> bool" where
  "ogg_encode_frame lib pcm og =
     (if og_enc og \<noteq> Enc_live then Inl Null_encoder
      else let og = og\<lparr>og_frames := og_frames og @ [pcm]\<rparr>;
               (pieces, ok) = ope_encoder_write lib (og_channels og) (og_rate og) (og_frames og)
           in case ogg_callbacks pieces og of Inl f \<Rightarrow> Inl f | Inr og \<Rightarrow> Inr (og, ok))"

text \<open>
  The loop, with positions counted in samples. A whole frame is copied, whatever is left. After an error the encoder
  is destroyed and the loop left. A frame of no samples, which the encoder accepts, does not move the position.
\<close>

function ogg_loop :: "libopusenc \<Rightarrow> racs_int16 list \<Rightarrow> nat \<Rightarrow> nat \<Rightarrow> nat \<Rightarrow> racs_ogg \<Rightarrow> ogg_fault + racs_ogg" where
  "ogg_loop lib inp frame count r_pos og =
     (if count \<le> r_pos then Inr og
      else if length inp < r_pos + frame then Inl Reads_beyond
      else case ogg_encode_frame lib (take frame (drop r_pos inp)) og of
             Inl f \<Rightarrow> Inl f
           | Inr (og, ok) \<Rightarrow>
               if \<not> ok then racs_ogg_destroy lib og
               else if frame = 0 then Inl Never_ends
               else ogg_loop lib inp frame count (r_pos + frame) og)"
  by pat_completeness auto
termination
  by (relation "measure (\<lambda>(lib, inp, frame, count, r_pos, og). count - r_pos)") auto

declare ogg_loop.simps [simp del]

text \<open>The number of bytes is returned before the caller destroys, and so drains, the encoder.\<close>

definition racs_ogg_write :: "libopusenc \<Rightarrow> racs_uint16 \<Rightarrow> racs_uint32 \<Rightarrow> racs_int16 list \<Rightarrow> bytes \<Rightarrow> racs_uint64
    \<Rightarrow> ogg_fault + racs_ogg \<times> nat" where
  "racs_ogg_write lib channels sample_rate inp out samples =
     (let og = racs_ogg_init lib channels sample_rate out;
          frame = samples_per_channel sample_rate * unat channels
      in if 2 ^ 31 \<le> frame then Inl Int_overflow
         else case ogg_loop lib inp frame (unat samples * unat channels) 0 og of
                Inl f \<Rightarrow> Inl f | Inr og \<Rightarrow> Inr (og, og_w_pos og))"

text \<open>The branch of \<open>racs_encode_pcm\<close> for Ogg: the samples are written, then the encoder is destroyed.\<close>

definition racs_encode_ogg :: "libopusenc \<Rightarrow> codec" where
  "racs_encode_ogg lib channels sample_rate inp out samples =
     (case racs_ogg_write lib channels sample_rate inp out samples of
        Inl _ \<Rightarrow> None
      | Inr (og, n) \<Rightarrow>
          (case racs_ogg_destroy lib og of Inl _ \<Rightarrow> None | Inr og \<Rightarrow> Some (og_out og, n)))"

section \<open>Frames\<close>

text \<open>The whole frames of some samples, and the bytes that the encoder makes of a sequence of frames as it gets them.\<close>

definition whole_frames :: "nat \<Rightarrow> racs_int16 list \<Rightarrow> racs_int16 list list" where
  "whole_frames n xs = map (\<lambda>i. take n (drop (i * n) xs)) [0..<length xs div n]"

definition opus_bytes :: "libopusenc \<Rightarrow> racs_uint16 \<Rightarrow> racs_uint32 \<Rightarrow> racs_int16 list list \<Rightarrow> bytes" where
  "opus_bytes lib ch rate frames =
     concat (map (\<lambda>i. concat (fst (ope_encoder_write lib ch rate (take (Suc i) frames)))) [0..<length frames])"

lemma opus_bytes_snoc:
  "opus_bytes lib ch rate (frames @ [f]) =
     opus_bytes lib ch rate frames @ concat (fst (ope_encoder_write lib ch rate (frames @ [f])))"
proof -
  have "map (\<lambda>i. concat (fst (ope_encoder_write lib ch rate (take (Suc i) (frames @ [f]))))) [0..<length frames] =
      map (\<lambda>i. concat (fst (ope_encoder_write lib ch rate (take (Suc i) frames)))) [0..<length frames]"
    by (intro map_cong refl) auto
  then show ?thesis unfolding opus_bytes_def by (simp del: take_append map_eq_conv)
qed

lemma callbacks_append:
  "og_w_pos og + length (concat pieces) \<le> length (og_out og) \<Longrightarrow>
   \<exists>out. ogg_callbacks pieces og = Inr (og\<lparr>og_out := out, og_w_pos := og_w_pos og + length (concat pieces)\<rparr>) \<and>
     length out = length (og_out og) \<and>
     take (og_w_pos og + length (concat pieces)) out = take (og_w_pos og) (og_out og) @ concat pieces"
proof (induction pieces arbitrary: og)
  case Nil
  then show ?case by (intro exI [of _ "og_out og"]) simp
next
  case (Cons p pieces)
  let ?og = "og\<lparr>og_out := patch (og_w_pos og) p (og_out og), og_w_pos := og_w_pos og + length p\<rparr>"
  have fits: "og_w_pos og + length p \<le> length (og_out og)" using Cons.prems by simp
  then have "take (og_w_pos og + length p) (og_out ?og) = take (og_w_pos og) (og_out og) @ p"
    "length (og_out ?og) = length (og_out og)"
    by (simp_all add: patch_def)
  then show ?case
    using Cons.IH [of ?og] Cons.prems fits by (auto simp: racs_ogg_write_callback_def add.assoc)
qed

text \<open>The state after some frames have been encoded without an error.\<close>

definition ogg_at :: "libopusenc \<Rightarrow> racs_uint16 \<Rightarrow> racs_uint32 \<Rightarrow> nat \<Rightarrow> racs_int16 list list \<Rightarrow> racs_ogg \<Rightarrow> bool" where
  "ogg_at lib ch rate room frames og \<longleftrightarrow> og_channels og = ch \<and> og_rate og = rate \<and> og_enc og = Enc_live \<and>
     og_frames og = frames \<and> length (og_out og) = room \<and> og_w_pos og = length (opus_bytes lib ch rate frames) \<and>
     take (og_w_pos og) (og_out og) = opus_bytes lib ch rate frames"

lemma encode_frame_at:
  assumes "ogg_at lib ch rate room frames og" "snd (ope_encoder_write lib ch rate (frames @ [pcm]))"
    "length (opus_bytes lib ch rate (frames @ [pcm])) \<le> room"
  shows "\<exists>og'. ogg_encode_frame lib pcm og = Inr (og', True) \<and> ogg_at lib ch rate room (frames @ [pcm]) og'"
proof -
  obtain pieces where p: "ope_encoder_write lib ch rate (frames @ [pcm]) = (pieces, True)"
    using assms(2) by (cases "ope_encoder_write lib ch rate (frames @ [pcm])") simp
  have at: "og_channels og = ch" "og_rate og = rate" "og_enc og = Enc_live" "og_frames og = frames" "length (og_out og) = room"
    "og_w_pos og = length (opus_bytes lib ch rate frames)" "take (og_w_pos og) (og_out og) = opus_bytes lib ch rate frames"
    using assms(1) unfolding ogg_at_def by blast+
  let ?og = "og\<lparr>og_frames := frames @ [pcm]\<rparr>"
  have "og_w_pos ?og + length (concat pieces) \<le> length (og_out ?og)"
    using assms(3) at by (simp add: opus_bytes_snoc p)
  from callbacks_append [OF this] obtain out where out:
    "ogg_callbacks pieces ?og = Inr (?og\<lparr>og_out := out, og_w_pos := og_w_pos og + length (concat pieces)\<rparr>)"
    "length out = room" "take (og_w_pos og + length (concat pieces)) out = opus_bytes lib ch rate frames @ concat pieces"
    using at(5,7) by auto
  have "ogg_encode_frame lib pcm og = Inr (?og\<lparr>og_out := out, og_w_pos := og_w_pos og + length (concat pieces)\<rparr>, True)"
    using at out(1) p by (simp add: ogg_encode_frame_def Let_def)
  moreover have "ogg_at lib ch rate room (frames @ [pcm]) (?og\<lparr>og_out := out, og_w_pos := og_w_pos og + length (concat pieces)\<rparr>)"
    using at out(2,3) by (simp add: ogg_at_def opus_bytes_snoc p)
  ultimately show ?thesis by blast
qed

lemma opus_bytes_take: "length (opus_bytes lib ch rate (take k frames)) \<le> length (opus_bytes lib ch rate frames)"
proof (induction frames rule: rev_induct)
  case (snoc f frames)
  then show ?case
    by (cases "k \<le> length frames") (auto simp: opus_bytes_snoc le_Suc_eq not_le)
qed simp

lemma whole_frames_nth:
  "k < length xs div n \<Longrightarrow> take (Suc k) (whole_frames n xs) = take k (whole_frames n xs) @ [take n (drop (k * n) xs)]"
  by (simp add: whole_frames_def take_map take_Suc_conv_app_nth)

lemma ogg_loop_whole:
  assumes frame: "0 < frame" and ok: "\<forall>fs. snd (ope_encoder_write lib ch rate fs)"
    and room: "length (opus_bytes lib ch rate (whole_frames frame inp)) \<le> room"
  shows "k \<le> length inp div frame \<Longrightarrow> ogg_at lib ch rate room (take k (whole_frames frame inp)) og \<Longrightarrow>
    (if frame dvd length inp
     then \<exists>og'. ogg_loop lib inp frame (length inp) (k * frame) og = Inr og' \<and>
       ogg_at lib ch rate room (whole_frames frame inp) og'
     else ogg_loop lib inp frame (length inp) (k * frame) og = Inl Reads_beyond)"
proof (induction "length inp div frame - k" arbitrary: k og)
  case 0
  then have k: "k = length inp div frame" by simp
  have all: "take k (whole_frames frame inp) = whole_frames frame inp" by (simp add: k whole_frames_def)
  show ?case
  proof (cases "frame dvd length inp")
    case True
    then have "length inp \<le> k * frame" by (simp add: k)
    then show ?thesis using True 0(3) all by (simp add: ogg_loop.simps)
  next
    case False
    have m: "length inp = k * frame + length inp mod frame" unfolding k by simp
    have "0 < length inp mod frame" "length inp mod frame < frame" using False frame by (auto simp: mod_greater_zero_iff_not_dvd)
    then have "\<not> length inp \<le> k * frame" "length inp < k * frame + frame" using m by linarith+
    then show ?thesis using False by (simp add: ogg_loop.simps)
  qed
next
  case (Suc d)
  then have k: "k < length inp div frame" by simp
  have "Suc k * frame \<le> length inp div frame * frame" using k by (intro mult_le_mono1) simp
  also have "\<dots> \<le> length inp" by simp
  finally have in_range: "\<not> length inp \<le> k * frame" "\<not> length inp < k * frame + frame" using frame by simp_all
  let ?f = "take frame (drop (k * frame) inp)"
  have step: "take (Suc k) (whole_frames frame inp) = take k (whole_frames frame inp) @ [?f]" by (rule whole_frames_nth [OF k])
  have "length (opus_bytes lib ch rate (take k (whole_frames frame inp) @ [?f])) \<le> room"
    using opus_bytes_take [of lib ch rate "Suc k" "whole_frames frame inp"] room unfolding step by simp
  then obtain og' where og': "ogg_encode_frame lib ?f og = Inr (og', True)" "ogg_at lib ch rate room (take (Suc k) (whole_frames frame inp)) og'"
    using encode_frame_at [OF Suc.prems(2)] ok unfolding step by blast
  have loop: "ogg_loop lib inp frame (length inp) (k * frame) og = ogg_loop lib inp frame (length inp) (Suc k * frame) og'"
    using in_range og'(1) frame by (simp add: ogg_loop.simps [of lib inp frame "length inp" "k * frame" og] add.commute)
  have "d = length inp div frame - Suc k" "Suc k \<le> length inp div frame" using Suc.hyps(2) k by simp_all
  from Suc.hyps(1) [OF this og'(2)] show ?case unfolding loop .
qed

text \<open>After an error the encoder is destroyed in the loop and once more by the caller.\<close>

lemma ogg_error_destroys_twice:
  assumes "ogg_encode_frame lib (take frame inp) (racs_ogg_init lib channels sample_rate out) = Inr (og, False)"
    and "frame = samples_per_channel sample_rate * unat channels" "frame < 2 ^ 31" "frame \<le> length inp"
    and "0 < unat samples * unat channels" "racs_ogg_write lib channels sample_rate inp out samples = Inr (og', n)"
  shows "racs_ogg_destroy lib og' = Inl Destroyed_twice"
proof -
  have "ogg_loop lib inp frame (unat samples * unat channels) 0 (racs_ogg_init lib channels sample_rate out) = racs_ogg_destroy lib og"
    using assms(1,4,5) by (simp add: ogg_loop.simps [of _ _ _ _ 0])
  then have "racs_ogg_destroy lib og = Inr og'"
    using assms(2,3,6) by (auto simp: racs_ogg_write_def Let_def split: sum.splits)
  then have "og_enc og' = Enc_destroyed" by (auto simp: racs_ogg_destroy_def split: enc_state.splits sum.splits)
  then show ?thesis by (simp add: racs_ogg_destroy_def)
qed

section \<open>Properties\<close>

text \<open>
  C40: The Ogg writer encodes whole frames only. Take an encoder that can be created and reports no error, and a buffer
  with room for what it makes of the whole frames of 20 ms. If the number of samples is a multiple of the samples of a
  frame, the writer puts exactly these bytes at the start of the buffer and returns their number, with the encoder still
  to be destroyed; for any other number of samples it reads beyond the array.
\<close>

theorem ogg_whole_frames:
  assumes "length inp = unat samples * unat channels" "frame = samples_per_channel sample_rate * unat channels"
    and "0 < frame" "frame < 2 ^ 31" "ope_encoder_create lib channels sample_rate"
    and "\<forall>fs. snd (ope_encoder_write lib channels sample_rate fs)"
    and "encoded = opus_bytes lib channels sample_rate (whole_frames frame inp)" "length encoded \<le> length out"
  shows "if frame dvd length inp
    then \<exists>og. racs_ogg_write lib channels sample_rate inp out samples = Inr (og, length encoded) \<and>
      take (length encoded) (og_out og) = encoded \<and> og_enc og = Enc_live \<and> og_frames og = whole_frames frame inp
    else racs_ogg_write lib channels sample_rate inp out samples = Inl Reads_beyond"
proof -
  have start: "ogg_at lib channels sample_rate (length out) (take 0 (whole_frames frame inp)) (racs_ogg_init lib channels sample_rate out)"
    using assms(5) by (simp add: ogg_at_def racs_ogg_init_def opus_bytes_def)
  have "length (opus_bytes lib channels sample_rate (whole_frames frame inp)) \<le> length out" using assms(7,8) by simp
  from ogg_loop_whole [OF assms(3,6) this _ start] show ?thesis
    using assms(1,2,4,7) by (auto simp: racs_ogg_write_def Let_def ogg_at_def)
qed

definition example_opus :: libopusenc where
  "example_opus = \<lparr>ope_encoder_create = \<lambda>_ _. True, ope_encoder_write = \<lambda>_ _ fs. ([[of_nat (length fs)]], True),
     ope_encoder_drain = \<lambda>_ _ _. []\<rparr>"

theorem ogg_whole_frames_witness:
  "(\<exists>og. racs_ogg_write example_opus 1 400 (replicate 16 0) [0, 0, 0] 16 = Inr (og, 2) \<and> take 2 (og_out og) = [1, 2]) \<and>
   racs_ogg_write example_opus 1 400 (replicate 10 0) [0, 0, 0] 10 = Inl Reads_beyond"
proof -
  have spc: "samples_per_channel 400 = 8" by code_simp
  have enc: "opus_bytes example_opus 1 400 (whole_frames 8 (replicate 16 0)) = [1, 2]"
    "opus_bytes example_opus 1 400 (whole_frames 8 (replicate 10 0)) = [1]"
    by (simp_all add: opus_bytes_def whole_frames_def example_opus_def upt_rec)
  have lib: "ope_encoder_create example_opus 1 400" "\<forall>fs. snd (ope_encoder_write example_opus 1 400 fs)"
    by (simp_all add: example_opus_def)
  have len: "length (replicate 10 (0 :: racs_int16)) = unat (10 :: racs_uint64) * unat (1 :: racs_uint16)"
    "length (replicate 16 (0 :: racs_int16)) = unat (16 :: racs_uint64) * unat (1 :: racs_uint16)"
    "8 = samples_per_channel 400 * unat (1 :: racs_uint16)" "(0 :: nat) < 8" "(8 :: nat) < 2 ^ 31"
    by (simp_all add: spc)
  have room: "length [1 :: racs_uint8] \<le> length [0, 0, 0 :: racs_uint8]" "length [1, 2 :: racs_uint8] \<le> length [0, 0, 0 :: racs_uint8]"
    by simp_all
  have "\<not> 8 dvd length (replicate 10 (0 :: racs_int16))" "8 dvd length (replicate 16 (0 :: racs_int16))" by simp_all
  with ogg_whole_frames [OF len(1,3-5) lib enc(2) [symmetric] room(1)] ogg_whole_frames [OF len(2-5) lib enc(1) [symmetric] room(2)]
  show ?thesis by (auto simp: numeral_2_eq_2)
qed

end
