(* ===== verification/Ops.thy ===== *)
theory Ops
  imports Samples
begin

text \<open>
  The sample operations of \<^verbatim>\<open>src/src/ops.c\<close>. An array with its length is a list. The first two elements
  hold the sample rate, and the number of channels (upper half) with the bit depth (lower half); the
  samples follow, interleaved. \<open>Some None\<close> is the null pointer that an operation returns for an input
  it refuses; \<open>None\<close> is undefined behaviour: an access outside an array, or a floating-point number
  converted to an integer type that cannot hold it.

  The lemmas show that splitting and merging are inverse, that trimming undoes padding, that mixing is
  exact on audio of up to 24 bits, and that fading and panning never amplify and never leave the range.
\<close>

section \<open>Conversions\<close>

definition to_s32 :: "rat \<Rightarrow> racs_int32 option" where
  "to_s32 x = (let t = trunc_int x in if - (2 ^ 31) \<le> t \<and> t < 2 ^ 31 then Some (word_of_int t) else None)"

definition to_size :: "rat \<Rightarrow> racs_uint64 option" where
  "to_size x = (let t = trunc_int x in if 0 \<le> t \<and> t < 2 ^ 64 then Some (word_of_int t) else None)"

definition s_val :: "racs_int32 \<Rightarrow> rat" where
  "s_val x = of_int (sint x)"

text \<open>\<open>(racs_uint16) (in[1] >> 16)\<close>\<close>

definition channels_of :: "racs_int32 \<Rightarrow> racs_uint16" where
  "channels_of x = ucast (signed_drop_bit 16 x)"

text \<open>\<open>(size_t) (seconds * sample_rate * channels)\<close>, with the sample rate read as unsigned.\<close>

definition seconds_len :: "rat \<Rightarrow> racs_int32 \<Rightarrow> racs_uint16 \<Rightarrow> racs_uint64 option" where
  "seconds_len seconds rate channels =
     to_size (double (double (seconds * of_nat (unat rate)) * of_nat (unat channels)))"

section \<open>Operations\<close>

definition mix_sample :: "racs_int32 list \<Rightarrow> racs_int32 list \<Rightarrow> nat \<Rightarrow> racs_int32 option" where
  "mix_sample a b i =
     to_s32 (single ((if i < length a then single (s_val (a ! i)) else 0) + (if i < length b then single (s_val (b ! i)) else 0)))"

definition racs_ops_mix :: "racs_int32 list \<Rightarrow> racs_int32 list \<Rightarrow> racs_int32 list option" where
  "racs_ops_mix a b =
     (let n = max (length a) (length b)
      in if length a < 2 then None
         else do { xs \<leftarrow> those (map (mix_sample a b) [2..<n]); Some (a ! 0 # a ! 1 # xs) })"

definition racs_ops_gain :: "racs_int32 list \<Rightarrow> rat \<Rightarrow> racs_int32 list option" where
  "racs_ops_gain xs gain =
     (if length xs < 2 then None
      else do { ys \<leftarrow> those (map (\<lambda>i. to_s32 (double (gain * s_val (xs ! i)))) [2..<length xs]);
                Some (xs ! 0 # xs ! 1 # ys) })"

definition racs_ops_trim :: "racs_int32 list \<Rightarrow> rat \<Rightarrow> rat \<Rightarrow> racs_int32 list option option" where
  "racs_ops_trim xs left_seconds right_seconds =
     (if length xs < 2 then Some None
      else do { let len = (of_nat (length xs) - 2 :: racs_uint64);
                l \<leftarrow> seconds_len left_seconds (xs ! 0) (channels_of (xs ! 1));
                r \<leftarrow> seconds_len right_seconds (xs ! 0) (channels_of (xs ! 1));
                if len \<le> l + r then Some None
                else do { let n = unat (len - l - r);
                          if 2 + unat l + n \<le> length xs
                          then Some (Some (xs ! 0 # xs ! 1 # slice (2 + unat l) n xs))
                          else None } })"

text \<open>The factor of sample \<open>i\<close> of \<open>len\<close>.\<close>

definition fade_gain :: "nat \<Rightarrow> nat \<Rightarrow> nat \<Rightarrow> nat \<Rightarrow> rat" where
  "fade_gain len fade_in fade_out i =
     (let gain = (if i < fade_in then double (double (of_nat i) / double (of_nat fade_in)) else 1)
      in if len - fade_out \<le> i
         then let g = double (1 - double (double (of_nat (i - (len - fade_out))) / double (of_nat fade_out)))
              in if g < gain then g else gain
         else gain)"

definition racs_ops_fade :: "racs_int32 list \<Rightarrow> rat \<Rightarrow> rat \<Rightarrow> racs_int32 list option option" where
  "racs_ops_fade xs fade_in_seconds fade_out_seconds =
     (if length xs < 2 then Some None
      else do { let len = length xs - 2;
                a \<leftarrow> seconds_len fade_in_seconds (xs ! 0) (channels_of (xs ! 1));
                b \<leftarrow> seconds_len fade_out_seconds (xs ! 0) (channels_of (xs ! 1));
                let fade_in = min (unat a) len;
                let fade_out = min (unat b) len;
                ys \<leftarrow> those (map (\<lambda>i. to_s32 (double (s_val (xs ! (2 + i)) * fade_gain len fade_in fade_out i))) [0..<len]);
                Some (Some (xs ! 0 # xs ! 1 # ys)) })"

text \<open>The loop over the frames; \<open>i\<close> is the position of the frame. Channels above the second stay zero.\<close>

function pan_frames :: "nat \<Rightarrow> rat \<Rightarrow> rat \<Rightarrow> racs_int32 list \<Rightarrow> nat \<Rightarrow> racs_int32 list \<Rightarrow> racs_int32 list option" where
  "pan_frames channels left_gain right_gain xs i out =
     (if 2 \<le> channels \<and> 2 + i < length xs
      then if 2 + i + 1 < length xs
           then do { l \<leftarrow> to_s32 (double (s_val (xs ! (2 + i)) * left_gain));
                     r \<leftarrow> to_s32 (double (s_val (xs ! (2 + i + 1)) * right_gain));
                     pan_frames channels left_gain right_gain xs (i + channels) (out[2 + i := l, 2 + i + 1 := r]) }
           else None
      else Some out)"
  by pat_completeness auto
termination by (relation "measure (\<lambda>(_, _, _, xs, i, _). length xs - i)") auto

declare pan_frames.simps [simp del]

definition racs_ops_pan :: "racs_int32 list \<Rightarrow> rat \<Rightarrow> racs_int32 list option option" where
  "racs_ops_pan xs pan =
     (if length xs < 2 then Some None
      else let channels = channels_of (xs ! 1)
           in if channels < 2 then Some None
              else map_option Some (pan_frames (unat channels) (if pan \<le> 0 then 1 else double (1 - pan))
                     (if 0 \<le> pan then 1 else double (1 + pan)) xs 0 (xs ! 0 # xs ! 1 # replicate (length xs - 2) 0)))"

definition racs_ops_pad :: "racs_int32 list \<Rightarrow> rat \<Rightarrow> rat \<Rightarrow> racs_int32 list option option" where
  "racs_ops_pad xs left_seconds right_seconds =
     (if length xs < 2 then Some None
      else do { let len = length xs - 2;
                l \<leftarrow> seconds_len left_seconds (xs ! 0) (channels_of (xs ! 1));
                r \<leftarrow> seconds_len right_seconds (xs ! 0) (channels_of (xs ! 1));
                let n = unat (2 + l + of_nat len + r);
                if 2 \<le> n \<and> 2 + unat l + len \<le> n
                then Some (Some (patch (2 + unat l) (drop 2 xs) (xs ! 0 # xs ! 1 # replicate (n - 2) 0)))
                else None })"

definition racs_ops_clip :: "racs_int32 list \<Rightarrow> racs_int32 \<Rightarrow> racs_int32 \<Rightarrow> racs_int32 list option" where
  "racs_ops_clip xs min_val max_val =
     (if length xs < 2 then None
      else if sint max_val < sint min_val then None
      else Some (xs ! 0 # xs ! 1 # map (\<lambda>x. if sint x < sint min_val then min_val else if sint max_val < sint x then max_val else x)
                   (drop 2 xs)))"

definition racs_ops_split :: "racs_int32 list \<Rightarrow> racs_uint16 \<Rightarrow> racs_int32 list option option" where
  "racs_ops_split xs channel =
     (if length xs < 2 then Some None
      else if channels_of (xs ! 1) \<noteq> 2 then Some None
      else let frames = (length xs - 2) div 2
           in if frames = 0 \<or> 2 + (frames - 1) * 2 + unat channel < length xs
              then Some (Some (xs ! 0 # (xs ! 1 AND 0xffff OR push_bit 16 1)
                     # map (\<lambda>f. xs ! (2 + f * 2 + unat channel)) [0..<frames]))
              else None)"

definition merge_frame :: "racs_int32 list \<Rightarrow> racs_int32 list \<Rightarrow> nat \<Rightarrow> racs_int32 list" where
  "merge_frame a b f = [if f < length a then a ! f else 0, if f < length b then b ! f else 0]"

definition racs_ops_merge :: "racs_int32 list \<Rightarrow> racs_int32 list \<Rightarrow> racs_int32 list option" where
  "racs_ops_merge a b =
     (if length a < 2 \<or> length b < 2 then None
      else if channels_of (a ! 1) \<noteq> 1 \<or> channels_of (b ! 1) \<noteq> 1 then None
      else if a ! 0 \<noteq> b ! 0 \<or> a ! 1 AND 0xffff \<noteq> b ! 1 AND 0xffff then None
      else let frames = max (length a - 2) (length b - 2)
           in Some (a ! 0 # (a ! 1 AND 0xffff OR push_bit 16 2)
                # concat (map (merge_frame (drop 2 a) (drop 2 b)) [0..<frames])))"


section \<open>Mixing\<close>

text \<open>The value of an array at a position, with silence behind its end.\<close>

definition val_at :: "racs_int32 list \<Rightarrow> nat \<Rightarrow> int" where
  "val_at xs i = (if i < length xs then sint (xs ! i) else 0)"

lemma those_map_Some: "(\<And>x. x \<in> set xs \<Longrightarrow> f x = Some (g x)) \<Longrightarrow> those (map f xs) = Some (map g xs)"
  by (induction xs) auto

lemma take_two: "2 \<le> length xs \<Longrightarrow> take 2 xs = [xs ! 0, xs ! 1]"
  by (cases xs rule: remdups_adj.cases) simp_all

lemma nth_header: "2 \<le> i \<Longrightarrow> i < n \<Longrightarrow> (x # y # map f [2..<n]) ! i = f i"
proof -
  assume i: "2 \<le> i" "i < n"
  then obtain j where "i = Suc (Suc j)" by (metis add_2_eq_Suc le_Suc_ex)
  with i show ?thesis by simp
qed

lemma to_s32_int: "- (2 ^ 31) \<le> t \<Longrightarrow> t < 2 ^ 31 \<Longrightarrow> to_s32 (of_int t) = Some (word_of_int t)"
  by (simp add: to_s32_def trunc_int_def)

lemma sint_word32: "- (2 ^ 31) \<le> t \<Longrightarrow> t < 2 ^ 31 \<Longrightarrow> sint (word_of_int t :: racs_int32) = t"
  by (simp add: signed_of_int signed_take_bit_int_eq_self)

lemma single_24: "single (- 16777216) = - 16777216"
  by code_simp

lemma single_exact: "- (2 ^ 24) \<le> n \<Longrightarrow> n < 2 ^ 24 \<Longrightarrow> single (of_int n) = of_int n"
  using single_24 rnd_int [of n 24] by (cases "n = - (2 ^ 24)") auto

definition small_samples :: "racs_int32 list \<Rightarrow> bool" where
  "small_samples xs \<longleftrightarrow> (\<forall>x\<in>set (drop 2 xs). - (2 ^ 23) \<le> sint x \<and> sint x < 2 ^ 23)"

lemma val_at_small:
  assumes "small_samples xs" "2 \<le> i"
  shows "- (2 ^ 23) \<le> val_at xs i \<and> val_at xs i < 2 ^ 23"
proof (cases "i < length xs")
  case True
  obtain j where j: "i = 2 + j" using assms(2) le_Suc_ex by blast
  have "drop 2 xs ! j \<in> set (drop 2 xs)" using True j by (intro nth_mem) simp
  then have "xs ! i \<in> set (drop 2 xs)" using True j by simp
  with True assms(1) show ?thesis by (simp add: small_samples_def val_at_def)
qed (simp add: val_at_def)

lemma mix_sample_exact:
  assumes "small_samples a" "small_samples b" "2 \<le> i"
  shows "mix_sample a b i = Some (word_of_int (val_at a i + val_at b i))"
proof -
  note v = val_at_small [OF assms(1,3)] val_at_small [OF assms(2,3)]
  have s: "(if i < length x then single (s_val (x ! i)) else 0) = of_int (val_at x i)"
    if "- (2 ^ 23) \<le> val_at x i \<and> val_at x i < 2 ^ 23" for x
    using that single_exact [of "val_at x i"] by (auto simp: val_at_def s_val_def)
  define t where "t = val_at a i + val_at b i"
  have t: "- (2 ^ 24) \<le> t" "t < 2 ^ 24" using v by (simp_all add: t_def)
  have "to_s32 (single (of_int t)) = Some (word_of_int t)"
    unfolding single_exact [OF t] using t by (intro to_s32_int) simp_all
  then show ?thesis
    unfolding mix_sample_def s [OF v(1)] s [OF v(2)] of_int_add [symmetric] t_def .
qed

lemma sum_small:
  assumes "small_samples a" "small_samples b" "2 \<le> i"
  shows "sint (word_of_int (val_at a i + val_at b i) :: racs_int32) = val_at a i + val_at b i"
  using val_at_small [OF assms(1,3)] val_at_small [OF assms(2,3)] by (intro sint_word32) simp_all

text \<open>
  Mixing audio of at most 24 bits is exact: the sums are computed in single precision, and for such
  samples no sum is rounded, wraps or leaves the range of the conversion. The shorter input is continued
  with silence, and the header is that of the first.
\<close>

theorem ops_mix_exact:
  assumes "2 \<le> length a" "small_samples a" "small_samples b"
  shows "\<exists>out. racs_ops_mix a b = Some out \<and> length out = max (length a) (length b) \<and> take 2 out = take 2 a \<and>
    (\<forall>i. 2 \<le> i \<longrightarrow> val_at out i = val_at a i + val_at b i)"
proof -
  let ?n = "max (length a) (length b)"
  let ?out = "a ! 0 # a ! 1 # map (\<lambda>i. word_of_int (val_at a i + val_at b i)) [2..<?n]"
  have "those (map (mix_sample a b) [2..<?n]) = Some (map (\<lambda>i. word_of_int (val_at a i + val_at b i)) [2..<?n])"
    by (rule those_map_Some) (simp add: mix_sample_exact [OF assms(2,3)] del: of_int_add)
  then have "racs_ops_mix a b = Some ?out" using assms(1) by (simp add: racs_ops_mix_def)
  moreover have "take 2 ?out = take 2 a"
    by (simp only: take_two [OF assms(1)]) simp
  moreover have len: "length ?out = ?n" using assms(1) by auto
  moreover have "val_at ?out i = val_at a i + val_at b i" if "2 \<le> i" for i
  proof (cases "i < ?n")
    case True
    have "?out ! i = word_of_int (val_at a i + val_at b i)" by (rule nth_header [OF that True])
    then have "sint (?out ! i) = val_at a i + val_at b i" using sum_small [OF assms(2,3) that] by (simp del: of_int_add)
    moreover have "i < length ?out" unfolding len by (rule True)
    ultimately show ?thesis unfolding val_at_def [of ?out] by (simp only: if_True)
  next
    case False
    then have "\<not> i < length ?out" "\<not> i < length a" "\<not> i < length b" unfolding len by simp_all
    then show ?thesis by (simp only: val_at_def if_False)
  qed
  ultimately show ?thesis by blast
qed

theorem ops_mix_exact_witness:
  "\<exists>out. racs_ops_mix [44100, 131096, 8388607, -5] [44100, 131096, -8388608] = Some out \<and>
    length out = max (length [44100, 131096, 8388607, -5 :: racs_int32]) (length [44100, 131096, -8388608 :: racs_int32]) \<and>
    take 2 out = take 2 [44100, 131096, 8388607, -5] \<and>
    (\<forall>i. 2 \<le> i \<longrightarrow> val_at out i = val_at [44100, 131096, 8388607, -5] i + val_at [44100, 131096, -8388608] i)"
  by (rule ops_mix_exact) (simp_all add: small_samples_def)


section \<open>Padding and trimming\<close>

lemma nth_two_map: "j < n \<Longrightarrow> (x # y # map f [0..<n]) ! (2 + j) = f j"
  by simp

lemma unat_len: "2 \<le> n \<Longrightarrow> n < 2 ^ 64 \<Longrightarrow> unat (of_nat n - 2 :: racs_uint64) = n - 2"
  by (simp add: unat_sub_if' unsigned_of_nat take_bit_nat_eq_self)

text \<open>
  Trimming undoes padding: if an array with samples is padded by two durations and the result trimmed
  by the same durations, the original array comes back, whatever the rounding of the durations to samples.
\<close>

theorem ops_pad_trim:
  assumes "2 < length xs" "seconds_len l (xs ! 0) (channels_of (xs ! 1)) = Some a" "seconds_len r (xs ! 0) (channels_of (xs ! 1)) = Some b"
    and "length xs + unat a + unat b < 2 ^ 64"
  shows "\<exists>ys. racs_ops_pad xs l r = Some (Some ys) \<and> length ys = length xs + unat a + unat b \<and>
    racs_ops_trim ys l r = Some (Some xs)"
proof -
  let ?len = "length xs - 2"
  have n: "unat (2 + a + of_nat ?len + b :: racs_uint64) = length xs + unat a + unat b"
    using assms(1,4) by (simp add: unat_word_ariths unsigned_of_nat take_bit_nat_eq_self mod_simps)
  let ?ys = "patch (2 + unat a) (drop 2 xs) (xs ! 0 # xs ! 1 # replicate (?len + unat a + unat b) 0)"
  have ys: "?ys = xs ! 0 # xs ! 1 # replicate (unat a) 0 @ drop 2 xs @ replicate (unat b) 0"
    using assms(1) by (cases xs rule: remdups_adj.cases) (simp_all add: patch_def min_def)
  have pad: "racs_ops_pad xs l r = Some (Some ?ys)"
    using assms(1-3) n by (simp add: racs_ops_pad_def Let_def add.commute add.left_commute)
  define ys where "ys = ?ys"
  have y: "length ys = length xs + unat a + unat b" "ys ! 0 = xs ! 0" "ys ! 1 = xs ! 1"
    "slice (2 + unat a) ?len ys = drop 2 xs"
    using assms(1) unfolding ys_def ys by (simp_all add: slice_def)
  have len: "unat (of_nat (length ys) - 2 :: racs_uint64) = ?len + unat a + unat b"
    using assms(1,4) y(1) unat_len [of "length ys"] by simp
  have sum: "unat (a + b) = unat a + unat b" using assms(4) by (simp add: unat_word_ariths take_bit_nat_eq_self)
  have keep: "unat (of_nat (length ys) - 2 - a - b :: racs_uint64) = ?len"
    using len assms(1) by (simp add: unat_sub_if')
  have lt: "\<not> (of_nat (length ys) - 2 :: racs_uint64) \<le> a + b"
    using len sum assms(1) by (simp add: word_le_nat_alt)
  have xs: "xs ! 0 # xs ! 1 # drop 2 xs = xs"
    using assms(1) by (cases xs rule: remdups_adj.cases) simp_all
  have "racs_ops_trim ys l r = Some (Some xs)"
    using assms(1-3) lt keep y xs by (simp add: racs_ops_trim_def Let_def)
  with pad y(1) show ?thesis unfolding ys_def by blast
qed

theorem ops_pad_trim_witness:
  "\<exists>ys. racs_ops_pad [4, 65552, 1, 2] 1 1 = Some (Some ys) \<and>
    length ys = length [4, 65552, 1, 2 :: racs_int32] + unat (4 :: racs_uint64) + unat (4 :: racs_uint64) \<and>
    racs_ops_trim ys 1 1 = Some (Some [4, 65552, 1, 2])"
proof -
  have d: "double (double (1 * of_nat (unat (4 :: racs_int32))) * of_nat (unat (1 :: racs_uint16))) = 4"
    using rnd_int [of 4 53] by simp
  have sec: "seconds_len 1 ([4, 65552, 1, 2 :: racs_int32] ! 0) (channels_of ([4, 65552, 1, 2] ! 1)) = Some 4"
    using d by (simp add: seconds_len_def channels_of_def to_size_def trunc_int_def)
  show ?thesis by (rule ops_pad_trim [OF _ sec sec]) simp_all
qed

text \<open>
  The sum of the two lengths can wrap: with 2^63 samples on either side nothing is refused, and the copy
  starts far behind the array.
\<close>

lemma trim_wraps:
  assumes "2 < length xs" "length xs < 2 ^ 62" "seconds_len l (xs ! 0) (channels_of (xs ! 1)) = Some (2 ^ 63)"
  shows "racs_ops_trim xs l l = None"
proof -
  have n: "unat (of_nat (length xs) - 2 :: racs_uint64) = length xs - 2"
    using assms(1,2) by (intro unat_len) simp_all
  have s: "(2 ^ 63 + 2 ^ 63 :: racs_uint64) = 0" by simp
  have "\<not> (of_nat (length xs) - 2 :: racs_uint64) \<le> 2 ^ 63 + 2 ^ 63"
    unfolding s using n assms(1) by (simp add: word_le_nat_alt)
  then show ?thesis using assms by (simp add: racs_ops_trim_def Let_def)
qed

section \<open>Fading\<close>

lemma fade_gain_range:
  assumes "i < len" "fade_in \<le> len" "fade_out \<le> len" "len < 2 ^ 53"
  shows "0 \<le> fade_gain len fade_in fade_out i \<and> fade_gain len fade_in fade_out i \<le> 1"
proof -
  have q: "0 \<le> double (double (of_nat k) / double (of_nat m)) \<and> double (double (of_nat k) / double (of_nat m)) \<le> 1"
    if "k \<le> m" for k m
  proof -
    have "(0 :: rat) \<le> double (of_nat k)" "double (of_nat k) \<le> double (of_nat m :: rat)"
      using that by (auto intro: rnd_nonneg rnd_mono)
    then have r: "0 \<le> double (of_nat k) / double (of_nat m)" "double (of_nat k) / double (of_nat m) \<le> (1 :: rat)"
      by (auto simp: divide_le_eq_1)
    have "double (double (of_nat k) / double (of_nat m)) \<le> double 1" by (rule rnd_mono [OF r]) simp
    with rnd_nonneg [OF r(1), of 53] show ?thesis by simp
  qed
  have p: "0 \<le> double (1 - x) \<and> double (1 - x) \<le> 1" if "0 \<le> x \<and> x \<le> 1" for x
  proof -
    have "double (1 - x) \<le> double 1" using that by (intro rnd_mono) auto
    then show ?thesis using that rnd_nonneg [of "1 - x" 53] by simp
  qed
  have "i - (len - fade_out) \<le> fade_out" using assms by linarith
  then show ?thesis
    using q [of i fade_in] p [OF q [of "i - (len - fade_out)" fade_out]]
    by (auto simp: fade_gain_def Let_def)
qed

lemma double_sample: "double (s_val x) = s_val x"
proof -
  have "\<bar>sint x\<bar> < 2 ^ 53" using sint_ge [of x] sint_lt [of x] by simp
  then show ?thesis unfolding s_val_def by (intro rnd_int) simp_all
qed

lemma s_val_sign: "0 \<le> s_val x \<longleftrightarrow> 0 \<le> sint x" "s_val x \<le> 0 \<longleftrightarrow> sint x \<le> 0"
  unfolding s_val_def by (rule of_int_0_le_iff, rule of_int_le_0_iff)

lemma attenuated:
  assumes "0 \<le> g" "g \<le> 1"
  shows "\<exists>y. to_s32 (double (s_val x * g)) = Some y \<and> \<bar>sint y\<bar> \<le> \<bar>sint x\<bar> \<and> 0 \<le> sint y * sint x"
proof -
  let ?v = "double (s_val x * g)"
  have "\<bar>s_val x * g\<bar> \<le> \<bar>s_val x\<bar>" using assms by (simp add: abs_mult mult_left_le)
  then have le: "\<bar>?v\<bar> \<le> \<bar>s_val x\<bar>" using rnd_abs_le [of "s_val x * g" "s_val x" 53] by (simp add: double_sample)
  have sgn: "0 \<le> sint x \<Longrightarrow> 0 \<le> ?v" "sint x \<le> 0 \<Longrightarrow> ?v \<le> 0"
    using assms(1) by (auto intro!: rnd_sign mult_nonneg_nonneg mult_nonpos_nonneg simp: s_val_sign)
  have t: "\<bar>trunc_int ?v\<bar> \<le> \<bar>sint x\<bar>" "0 \<le> trunc_int ?v * sint x"
  proof -
    have "\<bar>?v\<bar> \<le> of_int \<bar>sint x\<bar>" using le unfolding s_val_def of_int_abs .
    then have "?v \<le> of_int \<bar>sint x\<bar>" "- ?v \<le> of_int \<bar>sint x\<bar>" by linarith+
    then have "\<lfloor>?v\<rfloor> \<le> \<bar>sint x\<bar>" "\<lfloor>- ?v\<rfloor> \<le> \<bar>sint x\<bar>" by (metis floor_mono floor_of_int)+
    then show "\<bar>trunc_int ?v\<bar> \<le> \<bar>sint x\<bar>" by (auto simp: trunc_int_def)
    show "0 \<le> trunc_int ?v * sint x"
    proof (cases "0 \<le> sint x")
      case True
      then show ?thesis using sgn(1) by (simp add: trunc_int_def)
    next
      case False
      then have "?v \<le> 0" using sgn(2) by simp
      then have "trunc_int ?v \<le> 0" by (auto simp: trunc_int_def)
      with False show ?thesis by (simp add: mult_nonpos_nonpos)
    qed
  qed
  have b: "- (2 ^ 31) \<le> trunc_int ?v" "trunc_int ?v < 2 ^ 31 \<or> sint x = - (2 ^ 31)"
    using t sint_ge [of x] sint_lt [of x] by auto
  moreover have "trunc_int ?v \<le> 0" if "sint x = - (2 ^ 31)" using t(2) that by (simp add: zero_le_mult_iff)
  ultimately have r: "- (2 ^ 31) \<le> trunc_int ?v" "trunc_int ?v < 2 ^ 31" by auto
  show ?thesis using t r sint_word32 [OF r] by (simp add: to_s32_def Let_def)
qed

text \<open>
  C36: A fade never amplifies: once its two durations are in range, the result exists, has the length and
  the header of the input, no sample is larger in magnitude than the input's or of the other sign, the
  samples outside the two ramps are unchanged, and a fade-in starts from silence.
\<close>

theorem ops_fade_attenuates:
  assumes "2 \<le> length xs" "length xs < 2 ^ 53"
    and "seconds_len fi (xs ! 0) (channels_of (xs ! 1)) = Some a" "seconds_len fo (xs ! 0) (channels_of (xs ! 1)) = Some b"
  shows "\<exists>ys. racs_ops_fade xs fi fo = Some (Some ys) \<and> length ys = length xs \<and> take 2 ys = take 2 xs \<and>
    (\<forall>i. 2 \<le> i \<longrightarrow> i < length xs \<longrightarrow> \<bar>sint (ys ! i)\<bar> \<le> \<bar>sint (xs ! i)\<bar> \<and> 0 \<le> sint (ys ! i) * sint (xs ! i) \<and>
      (unat a \<le> i - 2 \<and> i + unat b < length xs \<longrightarrow> ys ! i = xs ! i) \<and> (i = 2 \<and> a \<noteq> 0 \<longrightarrow> ys ! i = 0))"
proof -
  let ?len = "length xs - 2"
  let ?g = "fade_gain ?len (min (unat a) ?len) (min (unat b) ?len)"
  let ?f = "\<lambda>i. to_s32 (double (s_val (xs ! (2 + i)) * ?g i))"
  have att: "\<exists>y. ?f i = Some y \<and> \<bar>sint y\<bar> \<le> \<bar>sint (xs ! (2 + i))\<bar> \<and> 0 \<le> sint y * sint (xs ! (2 + i))" if "i < ?len" for i
    using attenuated fade_gain_range [of i ?len "min (unat a) ?len" "min (unat b) ?len"] that assms(2) by simp
  define y where "y i = the (?f i)" for i
  have y: "?f i = Some (y i) \<and> \<bar>sint (y i)\<bar> \<le> \<bar>sint (xs ! (2 + i))\<bar> \<and> 0 \<le> sint (y i) * sint (xs ! (2 + i))" if "i < ?len" for i
    using att [OF that] by (auto simp: y_def)
  let ?ys = "xs ! 0 # xs ! 1 # map y [0..<?len]"
  have "those (map ?f [0..<?len]) = Some (map y [0..<?len])" by (rule those_map_Some) (use y in simp)
  then have res: "racs_ops_fade xs fi fo = Some (Some ?ys)"
    using assms by (simp add: racs_ops_fade_def Let_def)
  have same: "y i = xs ! (2 + i)" if "i < ?len" "unat a \<le> i" "i + unat b < ?len" for i
  proof -
    have "\<not> ?len - min (unat b) ?len \<le> i" "\<not> i < min (unat a) ?len" using that by linarith+
    then have "?g i = 1" by (simp only: fade_gain_def Let_def if_False)
    then have "?f i = to_s32 (of_int (sint (xs ! (2 + i))))" by (simp only: mult_1_right double_sample) (simp only: s_val_def)
    also have "\<dots> = Some (xs ! (2 + i))"
      using to_s32_int [of "sint (xs ! (2 + i))"] sint_ge [of "xs ! (2 + i)"] sint_lt [of "xs ! (2 + i)"] by simp
    finally show ?thesis by (simp only: y_def option.sel)
  qed
  have silent: "y 0 = 0" if "0 < ?len" "a \<noteq> 0"
  proof -
    have "0 < min (unat a) ?len" using that by (simp add: unat_gt_0)
    moreover have "0 \<le> ?g 0" using fade_gain_range [of 0 ?len "min (unat a) ?len" "min (unat b) ?len"] that(1) assms(2) by simp
    ultimately have "?g 0 = 0" by (auto simp: fade_gain_def Let_def split: if_splits)
    then show ?thesis by (simp only: y_def mult_zero_right rnd_zero) (simp add: to_s32_def trunc_int_def)
  qed
  have "\<bar>sint (?ys ! i)\<bar> \<le> \<bar>sint (xs ! i)\<bar> \<and> 0 \<le> sint (?ys ! i) * sint (xs ! i) \<and>
      (unat a \<le> i - 2 \<and> i + unat b < length xs \<longrightarrow> ?ys ! i = xs ! i) \<and> (i = 2 \<and> a \<noteq> 0 \<longrightarrow> ?ys ! i = 0)"
    if "2 \<le> i" "i < length xs" for i
  proof -
    note i = that
    obtain j where j: "i = 2 + j" using le_Suc_ex [OF i(1)] by blast
    then have lt: "j < ?len" using i(2) by simp
    have nth: "?ys ! (2 + j) = y j" by (rule nth_two_map [OF lt])
    have sm: "unat a \<le> j \<and> 2 + j + unat b < length xs \<longrightarrow> y j = xs ! (2 + j)"
      by (intro impI same [OF lt]; linarith)
    have si: "j = 0 \<and> a \<noteq> 0 \<longrightarrow> y j = 0" using silent lt by auto
    have ab: "\<bar>sint (y j)\<bar> \<le> \<bar>sint (xs ! (2 + j))\<bar>" "0 \<le> sint (y j) * sint (xs ! (2 + j))" using y [OF lt] by blast+
    show ?thesis unfolding j nth add_diff_cancel_left' using ab sm si by auto
  qed
  moreover have "length ?ys = length xs" "take 2 ?ys = take 2 xs"
    using assms(1) by (simp_all add: take_two)
  ultimately show ?thesis using res by blast
qed

text \<open>Eight samples of mono at four per second, faded in and out over one second.\<close>

theorem ops_fade_attenuates_witness:
  "\<exists>ys. racs_ops_fade [4, 65552, 8, 8, 8, 8, 8, 8, 8, 8] 1 1 = Some (Some ys) \<and>
    length ys = length [4, 65552, 8, 8, 8, 8, 8, 8, 8, 8 :: racs_int32] \<and>
    take 2 ys = take 2 [4, 65552, 8, 8, 8, 8, 8, 8, 8, 8] \<and>
    \<bar>sint (ys ! 3)\<bar> \<le> \<bar>sint ([4, 65552, 8, 8, 8, 8, 8, 8, 8, 8 :: racs_int32] ! 3)\<bar> \<and> ys ! 2 = 0"
proof -
  have d: "double (double (1 * of_nat (unat (4 :: racs_int32))) * of_nat (unat (1 :: racs_uint16))) = 4"
    using rnd_int [of 4 53] by simp
  have sec: "seconds_len 1 ([4, 65552, 8, 8, 8, 8, 8, 8, 8, 8 :: racs_int32] ! 0)
      (channels_of ([4, 65552, 8, 8, 8, 8, 8, 8, 8, 8] ! 1)) = Some 4"
    using d by (simp add: seconds_len_def channels_of_def to_size_def trunc_int_def)
  from ops_fade_attenuates [OF _ _ sec sec] obtain ys where ys:
    "racs_ops_fade [4, 65552, 8, 8, 8, 8, 8, 8, 8, 8] 1 1 = Some (Some ys)"
    "length ys = length [4, 65552, 8, 8, 8, 8, 8, 8, 8, 8 :: racs_int32]"
    "take 2 ys = take 2 [4, 65552, 8, 8, 8, 8, 8, 8, 8, 8]"
    "\<forall>i. 2 \<le> i \<longrightarrow> i < length [4, 65552, 8, 8, 8, 8, 8, 8, 8, 8 :: racs_int32] \<longrightarrow>
      \<bar>sint (ys ! i)\<bar> \<le> \<bar>sint ([4, 65552, 8, 8, 8, 8, 8, 8, 8, 8 :: racs_int32] ! i)\<bar> \<and>
      (i = 2 \<and> (4 :: racs_uint64) \<noteq> 0 \<longrightarrow> ys ! i = 0)"
    by auto
  have "\<bar>sint (ys ! 3)\<bar> \<le> \<bar>sint ([4, 65552, 8, 8, 8, 8, 8, 8, 8, 8 :: racs_int32] ! 3)\<bar>"
    using ys(4) [THEN spec, of 3] by simp
  moreover have "ys ! 2 = 0" using ys(4) [THEN spec, of 2] by simp
  ultimately show ?thesis using ys(1-3) by blast
qed

section \<open>Panning\<close>

text \<open>An array of two channels that ends in the middle of a frame makes the loop read and write behind it.\<close>

lemma pan_odd_length:
  "racs_ops_pan [44100, 131088, 7] 0 = None"
  by (simp add: racs_ops_pan_def Let_def channels_of_def pan_frames.simps)

section \<open>Splitting and merging\<close>

lemma split_header:
  assumes "channels_of h = 2"
  shows "channels_of (h AND 0xffff OR push_bit 16 1) = 1" "h AND 0xffff OR push_bit 16 2 = h"
    "(h AND 0xffff OR push_bit 16 1) AND 0xffff = h AND 0xffff"
    "(h AND 0xffff OR push_bit 16 1) AND 0xffff OR push_bit 16 2 = h"
proof -
  have m: "(0xffff :: racs_int32) = mask 16" by (simp add: mask_eq_exp_minus_1)
  have hi: "bit h (16 + i) = bit (2 :: racs_uint16) i" if "i < 16" for i
  proof -
    have "bit (channels_of h) i = bit (2 :: racs_uint16) i" using assms by simp
    then show ?thesis using that by (simp add: channels_of_def bit_simps add.commute)
  qed
  have join: "h AND mask 16 OR push_bit 16 w = h" if "\<And>i. i < 16 \<Longrightarrow> bit h (16 + i) = bit (w :: racs_int32) i" for w
  proof (rule bit_word_eqI)
    fix i assume i: "i < LENGTH(32)"
    show "bit (h AND mask 16 OR push_bit 16 w) i = bit h i"
    proof (cases "i < 16")
      case True
      then show ?thesis using i by (simp add: bit_simps)
    next
      case False
      then have "i = 16 + (i - 16)" by simp
      then show ?thesis using i that [of "i - 16"] False by (auto simp: bit_simps)
    qed
  qed
  have "bit h (16 + i) = bit (2 :: racs_int32) i" if "i < 16" for i
    using hi [OF that] that by (auto simp: bit_simps)
  from join [OF this] show 1: "h AND 0xffff OR push_bit 16 2 = h" unfolding m .
  have low: "(h AND mask 16 OR push_bit 16 w) AND mask 16 = h AND mask 16" for w
    by (rule bit_word_eqI) (auto simp: bit_simps)
  show "(h AND 0xffff OR push_bit 16 1) AND 0xffff = h AND 0xffff" unfolding m by (rule low)
  then show "(h AND 0xffff OR push_bit 16 1) AND 0xffff OR push_bit 16 2 = h" using 1 by simp
  have top: "channels_of (h AND mask 16 OR push_bit 16 w) = ucast w" for w
    by (rule bit_word_eqI) (auto simp: channels_of_def bit_simps)
  show "channels_of (h AND 0xffff OR push_bit 16 1) = 1" unfolding m top by simp
qed

lemma split_frames:
  "concat (map (\<lambda>f. [xs ! (2 * f), xs ! (2 * f + 1)]) [0..<k]) = take (2 * k) xs" if "2 * k \<le> length xs"
  using that
proof (induction k)
  case (Suc k)
  have "take (2 * Suc k) xs = take (2 * k) xs @ [xs ! (2 * k), xs ! (2 * k + 1)]"
    using Suc.prems by (simp add: take_Suc_conv_app_nth)
  then show ?case using Suc by simp
qed simp

text \<open>
  C35: Splitting a stereo array into its two channels and merging them gives the array back: every sample,
  the sample rate, the bit depth and the number of channels.
\<close>

theorem ops_split_merge:
  assumes "length xs = 2 + 2 * k" "channels_of (xs ! 1) = 2"
  shows "\<exists>left right. racs_ops_split xs 0 = Some (Some left) \<and> racs_ops_split xs 1 = Some (Some right) \<and>
    channels_of (left ! 1) = 1 \<and> length left = 2 + k \<and> racs_ops_merge left right = Some xs"
proof -
  let ?h = "xs ! 1 AND 0xffff OR push_bit 16 1"
  define side where "side c = xs ! 0 # ?h # map (\<lambda>f. xs ! (2 + f * 2 + c)) [0..<k]" for c
  have split: "racs_ops_split xs 0 = Some (Some (side 0))" "racs_ops_split xs 1 = Some (Some (side 1))"
    using assms by (auto simp: racs_ops_split_def Let_def side_def)
  have s: "side c ! 0 = xs ! 0" "side c ! 1 = ?h" "side c ! Suc 0 = ?h" "length (side c) = 2 + k" "drop 2 (side c) = map (\<lambda>f. xs ! (2 + f * 2 + c)) [0..<k]" for c
    by (simp_all add: side_def)
  have fr: "map (merge_frame (drop 2 (side 0)) (drop 2 (side 1))) [0..<k] =
      map (\<lambda>f. [drop 2 xs ! (2 * f), drop 2 xs ! (2 * f + 1)]) [0..<k]"
    using assms(1) by (auto simp: merge_frame_def s mult.commute)
  have body: "concat (map (merge_frame (drop 2 (side 0)) (drop 2 (side 1))) [0..<k]) = drop 2 xs"
    unfolding fr using split_frames [of k "drop 2 xs"] assms(1) by simp
  have xs: "xs ! 0 # xs ! 1 # drop 2 xs = xs"
    using assms(1) by (cases xs rule: remdups_adj.cases) simp_all
  have "racs_ops_merge (side 0) (side 1) = Some xs"
    using split_header [OF assms(2)] body xs by (simp add: racs_ops_merge_def s Let_def)
  moreover have "channels_of (side 0 ! 1) = 1" unfolding s(2) by (rule split_header(1) [OF assms(2)])
  ultimately show ?thesis using split s(4) [of 0] by blast
qed

theorem ops_split_merge_witness:
  "\<exists>left right. racs_ops_split [44100, 131088, 1, 2, 3, 4] 0 = Some (Some left) \<and>
    racs_ops_split [44100, 131088, 1, 2, 3, 4] 1 = Some (Some right) \<and>
    channels_of (left ! 1) = 1 \<and> length left = 2 + 2 \<and> racs_ops_merge left right = Some [44100, 131088, 1, 2, 3, 4]"
  by (rule ops_split_merge [of _ 2]) (simp_all add: channels_of_def)

end
