(* ===== verification/Kvstore.thy ===== *)
theory Kvstore
  imports Murmur3 "HOL-Library.Multiset"
begin

text \<open>
  The chained hash table of \<^verbatim>\<open>src/src/kvstore.c\<close>. The hash and comparison callbacks are fields of
  the record, as in the C structure; the destroy callback is modelled by the list of the entries it
  is called on, which the deleting operations return. An operation is \<open>None\<close> where the C code divides
  by a zero capacity or leaves the array of bins. The locale \<open>kv_callbacks\<close> states what the table
  requires of its callbacks, \<open>kv_map\<close> what it promises its clients; the second is a consequence of
  the first (a \<open>sublocale\<close>), and each client interprets the first on its own callbacks.
\<close>

section \<open>Data\<close>

text \<open>The nodes of a bin in the order of its singly linked list, head first.\<close>

record ('k, 'v) racs_kvstore_bin =
  bin_count :: racs_uint64
  bin_node :: "('k \<times> 'v) list"

record ('k, 'v) racs_kvstore =
  kv_capacity :: nat
  kv_hash :: "'k \<Rightarrow> racs_uint64"
  kv_cmp :: "'k \<Rightarrow> 'k \<Rightarrow> bool"
  kv_bins :: "('k, 'v) racs_kvstore_bin list"

section \<open>Operations\<close>

definition racs_kvstore_bin_init :: "('k, 'v) racs_kvstore_bin" where
  "racs_kvstore_bin_init = \<lparr>bin_count = 0, bin_node = []\<rparr>"

definition racs_kvstore_create :: "nat \<Rightarrow> ('k \<Rightarrow> racs_uint64) \<Rightarrow> ('k \<Rightarrow> 'k \<Rightarrow> bool)
    \<Rightarrow> ('k, 'v) racs_kvstore" where
  "racs_kvstore_create cap hash cmp =
     \<lparr>kv_capacity = cap, kv_hash = hash, kv_cmp = cmp,
      kv_bins = replicate cap racs_kvstore_bin_init\<rparr>"

definition racs_kvstore_bin_append :: "('k, 'v) racs_kvstore_bin \<Rightarrow> 'k \<Rightarrow> 'v
    \<Rightarrow> ('k, 'v) racs_kvstore_bin" where
  "racs_kvstore_bin_append bin key v =
     \<lparr>bin_count = bin_count bin + 1, bin_node = (key, v) # bin_node bin\<rparr>"

text \<open>The index of the bin that \<open>racs_kvstore_get_bin\<close> returns the address of.\<close>

definition racs_kvstore_get_bin :: "('k, 'v) racs_kvstore \<Rightarrow> 'k \<Rightarrow> nat option" where
  "racs_kvstore_get_bin kv key =
     (if kv_capacity kv = 0 then None
      else let i = unat (kv_hash kv key) mod kv_capacity kv
           in if i < length (kv_bins kv) then Some i else None)"

fun bin_find :: "('k \<Rightarrow> 'k \<Rightarrow> bool) \<Rightarrow> 'k \<Rightarrow> ('k \<times> 'v) list \<Rightarrow> 'v option" where
  "bin_find cmp key [] = None"
| "bin_find cmp key ((k, v) # nxt) = (if cmp k key then Some v else bin_find cmp key nxt)"

fun bin_unlink :: "('k \<Rightarrow> 'k \<Rightarrow> bool) \<Rightarrow> 'k \<Rightarrow> ('k \<times> 'v) list
    \<Rightarrow> (('k \<times> 'v) list \<times> ('k \<times> 'v)) option" where
  "bin_unlink cmp key [] = None"
| "bin_unlink cmp key ((k, v) # nxt) =
     (if cmp k key then Some (nxt, (k, v))
      else map_option (\<lambda>(rest, e). ((k, v) # rest, e)) (bin_unlink cmp key nxt))"

definition racs_kvstore_get :: "('k, 'v) racs_kvstore \<Rightarrow> 'k \<Rightarrow> 'v option option" where
  "racs_kvstore_get kv key =
     do { i \<leftarrow> racs_kvstore_get_bin kv key;
          Some (bin_find (kv_cmp kv) key (bin_node (kv_bins kv ! i))) }"

definition racs_kvstore_delete :: "('k, 'v) racs_kvstore \<Rightarrow> 'k
    \<Rightarrow> (('k, 'v) racs_kvstore \<times> ('k \<times> 'v) list) option" where
  "racs_kvstore_delete kv key =
     do { i \<leftarrow> racs_kvstore_get_bin kv key;
          let bin = kv_bins kv ! i;
          case bin_unlink (kv_cmp kv) key (bin_node bin) of
            None \<Rightarrow> Some (kv, [])
          | Some (rest, e) \<Rightarrow>
              Some (kv\<lparr>kv_bins := (kv_bins kv)[i := \<lparr>bin_count = bin_count bin - 1, bin_node = rest\<rparr>]\<rparr>,
                    [e]) }"

definition racs_kvstore_put :: "('k, 'v) racs_kvstore \<Rightarrow> 'k \<Rightarrow> 'v
    \<Rightarrow> (('k, 'v) racs_kvstore \<times> ('k \<times> 'v) list) option" where
  "racs_kvstore_put kv key v =
     do { i \<leftarrow> racs_kvstore_get_bin kv key;
          (kv, freed) \<leftarrow>
            (case bin_find (kv_cmp kv) key (bin_node (kv_bins kv ! i)) of
               Some _ \<Rightarrow> racs_kvstore_delete kv key
             | None \<Rightarrow> Some (kv, []));
          Some (kv\<lparr>kv_bins := (kv_bins kv)[i := racs_kvstore_bin_append (kv_bins kv ! i) key v]\<rparr>,
                freed) }"

text \<open>The entries the destroy callback is called on, in the order of the calls.\<close>

definition racs_kvstore_destroy :: "('k, 'v) racs_kvstore \<Rightarrow> ('k \<times> 'v) list" where
  "racs_kvstore_destroy kv = concat (map bin_node (kv_bins kv))"

section \<open>Linked lists of a bin\<close>

lemma bin_unlink_None_iff: "bin_unlink cmp key xs = None \<longleftrightarrow> bin_find cmp key xs = None"
  by (induction xs) (auto split: if_splits)

lemma bin_unlink_SomeD:
  "bin_unlink cmp key xs = Some (rest, e) \<Longrightarrow>
   mset xs = add_mset e (mset rest) \<and> length xs = Suc (length rest) \<and>
   cmp (fst e) key \<and> bin_find cmp key xs = Some (snd e)"
  by (induction xs arbitrary: rest) (auto split: if_splits)

lemma bin_find_SomeD: "bin_find cmp key xs = Some v \<Longrightarrow> \<exists>k. (k, v) \<in> set xs \<and> cmp k key"
  by (induction xs) (auto split: if_splits)

lemma bin_find_None_iff: "bin_find cmp key xs = None \<longleftrightarrow> (\<forall>(k, v)\<in>set xs. \<not> cmp k key)"
  by (induction xs) (auto split: if_splits)

section \<open>The contract of the callbacks\<close>

text \<open>The keys of one bin are pairwise different for the comparison.\<close>

fun cmp_distinct :: "('k \<Rightarrow> 'k \<Rightarrow> bool) \<Rightarrow> ('k \<times> 'v) list \<Rightarrow> bool" where
  "cmp_distinct cmp [] = True"
| "cmp_distinct cmp ((k, v) # xs) = ((\<forall>(k', v')\<in>set xs. \<not> cmp k' k) \<and> cmp_distinct cmp xs)"

definition bin_wf :: "('k \<Rightarrow> bool) \<Rightarrow> ('k \<Rightarrow> racs_uint64) \<Rightarrow> ('k \<Rightarrow> 'k \<Rightarrow> bool) \<Rightarrow> nat \<Rightarrow> nat
    \<Rightarrow> ('k, 'v) racs_kvstore_bin \<Rightarrow> bool" where
  "bin_wf valid hash cmp cap i bin \<longleftrightarrow>
     bin_count bin = of_nat (length (bin_node bin)) \<and>
     cmp_distinct cmp (bin_node bin) \<and>
     (\<forall>(k, v)\<in>set (bin_node bin). valid k \<and> unat (hash k) mod cap = i)"

definition kv_wf :: "('k \<Rightarrow> bool) \<Rightarrow> ('k \<Rightarrow> racs_uint64) \<Rightarrow> ('k \<Rightarrow> 'k \<Rightarrow> bool)
    \<Rightarrow> ('k, 'v) racs_kvstore \<Rightarrow> bool" where
  "kv_wf valid hash cmp kv \<longleftrightarrow>
     0 < kv_capacity kv \<and> length (kv_bins kv) = kv_capacity kv \<and>
     kv_hash kv = hash \<and> kv_cmp kv = cmp \<and>
     (\<forall>i < kv_capacity kv. bin_wf valid hash cmp (kv_capacity kv) i (kv_bins kv ! i))"

lemma cmp_distinct_unlink:
  "cmp_distinct cmp xs \<Longrightarrow> bin_unlink cmp key xs = Some (rest, e) \<Longrightarrow>
   cmp_distinct cmp rest \<and> set rest \<subseteq> set xs"
  by (induction xs arbitrary: rest) (fastforce split: if_splits)+

lemma kv_wf_create:
  assumes "0 < cap"
  shows "kv_wf valid hash cmp (racs_kvstore_create cap hash cmp)"
  using assms
  by (simp add: kv_wf_def racs_kvstore_create_def bin_wf_def racs_kvstore_bin_init_def)

lemma get_bin_Some:
  "kv_wf valid hash cmp kv \<Longrightarrow>
   racs_kvstore_get_bin kv k = Some (unat (hash k) mod kv_capacity kv)"
  by (simp add: racs_kvstore_get_bin_def kv_wf_def)

text \<open>
  What the clients use: a well-formed table with total operations, whose lookups change at the keys
  that the comparison identifies with the written key and nowhere else.
\<close>

locale kv_map =
  fixes valid :: "'k \<Rightarrow> bool"
    and cmp :: "'k \<Rightarrow> 'k \<Rightarrow> bool"
    and inv :: "('k, 'v) racs_kvstore \<Rightarrow> bool"
    and lookup :: "('k, 'v) racs_kvstore \<Rightarrow> 'k \<Rightarrow> 'v option"
  assumes get_lookup: "inv kv \<Longrightarrow> racs_kvstore_get kv k = Some (lookup kv k)"
    and put_law: "inv kv \<Longrightarrow> valid k \<Longrightarrow>
      \<exists>kv' freed. racs_kvstore_put kv k v = Some (kv', freed) \<and> inv kv' \<and>
        kv_capacity kv' = kv_capacity kv \<and>
        (\<forall>k'. valid k' \<longrightarrow> lookup kv' k' = (if cmp k k' then Some v else lookup kv k')) \<and>
        lookup kv k = (if freed = [] then None else Some (snd (hd freed))) \<and>
        length freed \<le> 1 \<and>
        add_mset (k, v) (mset (racs_kvstore_destroy kv)) =
          mset (racs_kvstore_destroy kv') + mset freed"
    and delete_law: "inv kv \<Longrightarrow> valid k \<Longrightarrow>
      \<exists>kv' freed. racs_kvstore_delete kv k = Some (kv', freed) \<and> inv kv' \<and>
        kv_capacity kv' = kv_capacity kv \<and>
        (\<forall>k'. valid k' \<longrightarrow> lookup kv' k' = (if cmp k k' then None else lookup kv k')) \<and>
        lookup kv k = (if freed = [] then None else Some (snd (hd freed))) \<and>
        length freed \<le> 1 \<and>
        mset (racs_kvstore_destroy kv) = mset (racs_kvstore_destroy kv') + mset freed"
begin

text \<open>The last write wins, and a deleted key is gone, in any sequence of operations.\<close>

lemma put_lookup_same:
  assumes "inv kv" "valid k" "cmp k k" "racs_kvstore_put kv k v = Some (kv', freed)"
  shows "lookup kv' k = Some v"
  using put_law [OF assms(1,2), of v] assms by auto

lemma put_lookup_other:
  assumes "inv kv" "valid k" "valid k'" "\<not> cmp k k'" "racs_kvstore_put kv k v = Some (kv', freed)"
  shows "lookup kv' k' = lookup kv k'"
  using put_law [OF assms(1,2), of v] assms by auto

lemma put_inv:
  assumes "inv kv" "valid k" "racs_kvstore_put kv k v = Some (kv', freed)"
  shows "inv kv'"
  using put_law [OF assms(1,2), of v] assms by auto

lemma put_fresh:
  assumes "inv kv" "valid k" "lookup kv k = None"
  obtains kv' where "racs_kvstore_put kv k v = Some (kv', [])" "inv kv'"
    "\<And>k'. valid k' \<Longrightarrow> lookup kv' k' = (if cmp k k' then Some v else lookup kv k')"
    "kv_capacity kv' = kv_capacity kv"
  using put_law [OF assms(1,2), of v] assms(3) by (auto split: if_splits)

lemma delete_present:
  assumes "inv kv" "valid k" "lookup kv k = Some w"
  obtains kv' a where "racs_kvstore_delete kv k = Some (kv', [(a, w)])" "inv kv'"
    "\<And>k'. valid k' \<Longrightarrow> lookup kv' k' = (if cmp k k' then None else lookup kv k')"
    "kv_capacity kv' = kv_capacity kv"
proof -
  obtain kv' freed where d: "racs_kvstore_delete kv k = Some (kv', freed)" "inv kv'"
    "\<And>k'. valid k' \<Longrightarrow> lookup kv' k' = (if cmp k k' then None else lookup kv k')"
    "kv_capacity kv' = kv_capacity kv" "length freed \<le> 1"
    "lookup kv k = (if freed = [] then None else Some (snd (hd freed)))"
    using delete_law [OF assms(1,2)] by blast
  then obtain a where "freed = [(a, w)]" using assms(3) by (cases freed) auto
  with d that show thesis by blast
qed

lemma put_total:
  assumes "inv kv" "valid k"
  obtains kv' freed where "racs_kvstore_put kv k v = Some (kv', freed)" "inv kv'"
    "\<And>k'. valid k' \<Longrightarrow> lookup kv' k' = (if cmp k k' then Some v else lookup kv k')"
  using put_law [OF assms, of v] by blast

end

definition kv_lookup :: "('k, 'v) racs_kvstore \<Rightarrow> 'k \<Rightarrow> 'v option" where
  "kv_lookup kv k =
     bin_find (kv_cmp kv) k (bin_node (kv_bins kv ! (unat (kv_hash kv k) mod kv_capacity kv)))"

lemma mset_concat_update:
  "i < length xs \<Longrightarrow>
   mset (concat (map f (xs[i := y]))) + mset (f (xs ! i)) = mset (concat (map f xs)) + mset (f y)"
  by (induction xs arbitrary: i) (auto split: nat.split simp: union_ac)

locale kv_callbacks =
  fixes valid :: "'k \<Rightarrow> bool"
    and hash :: "'k \<Rightarrow> racs_uint64"
    and cmp :: "'k \<Rightarrow> 'k \<Rightarrow> bool"
    and create :: "nat \<Rightarrow> ('k, 'v) racs_kvstore"
  assumes cmp_refl: "valid a \<Longrightarrow> cmp a a"
    and cmp_sym: "valid a \<Longrightarrow> valid b \<Longrightarrow> cmp a b \<Longrightarrow> cmp b a"
    and cmp_trans: "valid a \<Longrightarrow> valid b \<Longrightarrow> valid c \<Longrightarrow> cmp a b \<Longrightarrow> cmp b c \<Longrightarrow> cmp a c"
    and hash_cmp: "valid a \<Longrightarrow> valid b \<Longrightarrow> cmp a b \<Longrightarrow> hash a = hash b"
    and create_eq: "create cap = racs_kvstore_create cap hash cmp"
begin

lemma create_wf: "0 < cap \<Longrightarrow> kv_wf valid hash cmp (create cap)"
  by (simp add: create_eq kv_wf_create)

lemma create_lookup: "0 < cap \<Longrightarrow> kv_lookup (create cap) k = None"
  by (simp add: create_eq kv_lookup_def racs_kvstore_create_def racs_kvstore_bin_init_def)

lemma cmp_cong: "valid k \<Longrightarrow> valid k' \<Longrightarrow> valid a \<Longrightarrow> cmp k k' \<Longrightarrow> cmp a k = cmp a k'"
  using cmp_trans cmp_sym by blast

lemma bin_find_unlink:
  "cmp_distinct cmp xs \<Longrightarrow> \<forall>(a, v)\<in>set xs. valid a \<Longrightarrow> valid k \<Longrightarrow> valid k' \<Longrightarrow>
   bin_unlink cmp k xs = Some (rest, e) \<Longrightarrow>
   bin_find cmp k' rest = (if cmp k k' then None else bin_find cmp k' xs)"
proof (induction xs arbitrary: rest)
  case Nil
  then show ?case by simp
next
  case (Cons x xs)
  obtain a v where x: "x = (a, v)" by fastforce
  with Cons.prems have a: "valid a" and tl: "\<forall>(b, w)\<in>set xs. valid b \<and> \<not> cmp b a" by auto
  show ?case
  proof (cases "cmp a k")
    case True
    have none: "bin_find cmp k' xs = None" if "cmp k k'"
    proof -
      have "cmp k' a" using that True a Cons.prems cmp_trans cmp_sym by blast
      then have "\<not> cmp b k'" if "(b, w) \<in> set xs" for b w
        using that tl a Cons.prems cmp_trans by blast
      then show ?thesis by (auto simp: bin_find_None_iff)
    qed
    have "\<not> cmp a k'" if "\<not> cmp k k'"
      using that True a Cons.prems cmp_trans cmp_sym by blast
    with none show ?thesis using True Cons.prems x by auto
  next
    case False
    with Cons.prems x obtain r where r: "bin_unlink cmp k xs = Some (r, e)" "rest = (a, v) # r"
      by auto
    have "\<not> cmp a k'" if "cmp k k'"
      using that False a Cons.prems cmp_cong by blast
    with Cons.IH [OF _ _ _ _ r(1)] Cons.prems x r(2) show ?thesis by auto
  qed
qed

lemma lookup_None_congD:
  assumes "\<forall>(a, v)\<in>set xs. valid a" "valid k" "valid k'" "cmp k k'" "bin_find cmp k xs = None"
  shows "bin_find cmp k' xs = None"
  using assms cmp_cong [of k k'] by (fastforce simp: bin_find_None_iff)

lemma wf_bin:
  assumes "kv_wf valid hash cmp kv"
  shows "bin_wf valid hash cmp (kv_capacity kv) (unat (hash k) mod kv_capacity kv)
           (kv_bins kv ! (unat (hash k) mod kv_capacity kv))"
  using assms by (simp add: kv_wf_def)

lemma wf_upd:
  assumes "kv_wf valid hash cmp kv" "bin_wf valid hash cmp (kv_capacity kv) i b"
  shows "kv_wf valid hash cmp (kv\<lparr>kv_bins := (kv_bins kv)[i := b]\<rparr>)"
  using assms by (cases "i < length (kv_bins kv)") (auto simp: kv_wf_def nth_list_update)

lemma lookup_upd:
  assumes "kv_wf valid hash cmp kv"
  shows "kv_lookup (kv\<lparr>kv_bins := (kv_bins kv)[i := b]\<rparr>) k =
    (if i = unat (hash k) mod kv_capacity kv then bin_find cmp k (bin_node b) else kv_lookup kv k)"
  using assms by (auto simp: kv_lookup_def kv_wf_def nth_list_update)

lemma get_eq:
  "kv_wf valid hash cmp kv \<Longrightarrow> racs_kvstore_get kv k = Some (kv_lookup kv k)"
  by (simp add: racs_kvstore_get_def get_bin_Some kv_lookup_def) (simp add: kv_wf_def)

lemma delete_correct:
  assumes wf: "kv_wf valid hash cmp kv" and k: "valid k"
  shows "\<exists>kv' freed. racs_kvstore_delete kv k = Some (kv', freed) \<and> kv_wf valid hash cmp kv' \<and>
    kv_capacity kv' = kv_capacity kv \<and>
    (\<forall>k'. valid k' \<longrightarrow> kv_lookup kv' k' = (if cmp k k' then None else kv_lookup kv k')) \<and>
    kv_lookup kv k = (if freed = [] then None else Some (snd (hd freed))) \<and>
        length freed \<le> 1 \<and>
    mset (racs_kvstore_destroy kv) = mset (racs_kvstore_destroy kv') + mset freed"
proof -
  define i where "i = unat (hash k) mod kv_capacity kv"
  define bin where "bin = kv_bins kv ! i"
  note bwf = wf_bin [OF wf, of k, folded i_def, folded bin_def]
  then have dist: "cmp_distinct cmp (bin_node bin)" and val: "\<forall>(a, v)\<in>set (bin_node bin). valid a"
    by (auto simp: bin_wf_def)
  have fields: "kv_cmp kv = cmp" "kv_hash kv = hash" "i < length (kv_bins kv)"
    using wf by (simp_all add: kv_wf_def i_def)
  have look: "kv_lookup kv k = bin_find cmp k (bin_node bin)"
    by (simp add: kv_lookup_def fields i_def bin_def)
  have same_bin: "i = unat (hash k') mod kv_capacity kv" if "valid k'" "cmp k k'" for k'
    using hash_cmp [OF k that] by (simp add: i_def)
  show ?thesis
  proof (cases "bin_unlink cmp k (bin_node bin)")
    case None
    then have none: "bin_find cmp k (bin_node bin) = None" by (simp add: bin_unlink_None_iff)
    have "kv_lookup kv k' = None" if "valid k'" "cmp k k'" for k'
      using lookup_None_congD [OF val k that none] same_bin [OF that]
      by (simp add: kv_lookup_def fields bin_def)
    with None none wf show ?thesis
      by (auto simp: racs_kvstore_delete_def get_bin_Some [OF wf] Let_def look fields
          simp flip: i_def bin_def)
  next
    case (Some r)
    then obtain rest e where r: "bin_unlink cmp k (bin_node bin) = Some (rest, e)"
      by (cases r) auto
    note rD = bin_unlink_SomeD [OF r]
    let ?b = "\<lparr>bin_count = bin_count bin - 1, bin_node = rest\<rparr>"
    let ?kv = "kv\<lparr>kv_bins := (kv_bins kv)[i := ?b]\<rparr>"
    have b: "bin_wf valid hash cmp (kv_capacity kv) i ?b"
      using bwf rD cmp_distinct_unlink [OF dist r] by (auto simp: bin_wf_def)
    have "kv_lookup ?kv k' = (if cmp k k' then None else kv_lookup kv k')" if "valid k'" for k'
      using lookup_upd [OF wf, of i ?b k'] bin_find_unlink [OF dist val k that r]
        same_bin [OF that] by (auto simp: kv_lookup_def fields bin_def)
    moreover have "mset (racs_kvstore_destroy kv) = mset (racs_kvstore_destroy ?kv) + mset [e]"
      using mset_concat_update [OF fields(3), of bin_node ?b] rD
      by (simp add: racs_kvstore_destroy_def bin_def)
    ultimately show ?thesis
      using r rD wf_upd [OF wf b]
      by (simp add: racs_kvstore_delete_def get_bin_Some [OF wf] Let_def look fields
          flip: i_def bin_def)
  qed
qed

lemma append_correct:
  assumes wf: "kv_wf valid hash cmp kv" and k: "valid k"
    and none: "\<forall>k'. valid k' \<longrightarrow> cmp k k' \<longrightarrow> kv_lookup kv k' = None"
    and i: "i = unat (hash k) mod kv_capacity kv"
    and kv': "kv' = kv\<lparr>kv_bins := (kv_bins kv)[i := racs_kvstore_bin_append (kv_bins kv ! i) k v]\<rparr>"
  shows "kv_wf valid hash cmp kv' \<and> kv_capacity kv' = kv_capacity kv \<and>
    (\<forall>k'. valid k' \<longrightarrow> kv_lookup kv' k' = (if cmp k k' then Some v else kv_lookup kv k')) \<and>
    mset (racs_kvstore_destroy kv') = add_mset (k, v) (mset (racs_kvstore_destroy kv))"
proof -
  let ?b = "racs_kvstore_bin_append (kv_bins kv ! i) k v"
  note bwf = wf_bin [OF wf, of k, folded i]
  have fields: "kv_cmp kv = cmp" "kv_hash kv = hash" "i < length (kv_bins kv)"
    using wf by (simp_all add: kv_wf_def i)
  have "bin_find cmp k (bin_node (kv_bins kv ! i)) = None"
    using none cmp_refl [OF k] k by (auto simp: kv_lookup_def fields i)
  then have b: "bin_wf valid hash cmp (kv_capacity kv) i ?b"
    using bwf k by (auto simp: bin_wf_def racs_kvstore_bin_append_def i bin_find_None_iff)
  have "kv_lookup kv' k' = (if cmp k k' then Some v else kv_lookup kv k')" if "valid k'" for k'
    unfolding kv' lookup_upd [OF wf]
    using hash_cmp [OF k that] i
    by (auto simp: racs_kvstore_bin_append_def kv_lookup_def fields)
  moreover have "mset (racs_kvstore_destroy kv') = add_mset (k, v) (mset (racs_kvstore_destroy kv))"
    using mset_concat_update [OF fields(3), of bin_node ?b]
    by (simp add: racs_kvstore_destroy_def kv' racs_kvstore_bin_append_def)
  ultimately show ?thesis using wf_upd [OF wf b] by (simp add: kv')
qed

lemma put_correct:
  assumes wf: "kv_wf valid hash cmp kv" and k: "valid k"
  shows "\<exists>kv' freed. racs_kvstore_put kv k v = Some (kv', freed) \<and> kv_wf valid hash cmp kv' \<and>
    kv_capacity kv' = kv_capacity kv \<and>
    (\<forall>k'. valid k' \<longrightarrow> kv_lookup kv' k' = (if cmp k k' then Some v else kv_lookup kv k')) \<and>
    kv_lookup kv k = (if freed = [] then None else Some (snd (hd freed))) \<and>
        length freed \<le> 1 \<and>
    add_mset (k, v) (mset (racs_kvstore_destroy kv)) = mset (racs_kvstore_destroy kv') + mset freed"
proof -
  define i where "i = unat (hash k) mod kv_capacity kv"
  obtain kv1 freed where
    del: "racs_kvstore_delete kv k = Some (kv1, freed)" and wf1: "kv_wf valid hash cmp kv1" and
    cap1: "kv_capacity kv1 = kv_capacity kv" and
    look1: "\<forall>k'. valid k' \<longrightarrow> kv_lookup kv1 k' = (if cmp k k' then None else kv_lookup kv k')" and
    old1: "kv_lookup kv k = (if freed = [] then None else Some (snd (hd freed)))" and
    len1: "length freed \<le> 1" and
    ms1: "mset (racs_kvstore_destroy kv) = mset (racs_kvstore_destroy kv1) + mset freed"
    using delete_correct [OF wf k] by auto
  have find: "bin_find (kv_cmp kv) k (bin_node (kv_bins kv ! i)) = kv_lookup kv k"
    using wf by (simp add: kv_lookup_def kv_wf_def i_def)
  have step: "(case kv_lookup kv k of Some _ \<Rightarrow> racs_kvstore_delete kv k | None \<Rightarrow> Some (kv, []))
      = Some (kv1, freed)"
  proof (cases "kv_lookup kv k")
    case None
    then have "bin_unlink (kv_cmp kv) k (bin_node (kv_bins kv ! i)) = None"
      using find by (simp add: bin_unlink_None_iff)
    with del None show ?thesis
      by (simp add: racs_kvstore_delete_def get_bin_Some [OF wf] i_def [symmetric] Let_def)
  qed (simp add: del)
  let ?kv = "kv1\<lparr>kv_bins := (kv_bins kv1)[i := racs_kvstore_bin_append (kv_bins kv1 ! i) k v]\<rparr>"
  have "racs_kvstore_put kv k v = Some (?kv, freed)"
    by (simp add: racs_kvstore_put_def get_bin_Some [OF wf] i_def [symmetric] find step)
  moreover have "\<forall>k'. valid k' \<longrightarrow> cmp k k' \<longrightarrow> kv_lookup kv1 k' = None"
    using look1 by simp
  from append_correct [OF wf1 k this, of i ?kv v] have
    "kv_wf valid hash cmp ?kv \<and> kv_capacity ?kv = kv_capacity kv1 \<and>
     (\<forall>k'. valid k' \<longrightarrow> kv_lookup ?kv k' = (if cmp k k' then Some v else kv_lookup kv1 k')) \<and>
     mset (racs_kvstore_destroy ?kv) = add_mset (k, v) (mset (racs_kvstore_destroy kv1))"
    by (simp add: cap1 i_def)
  ultimately show ?thesis using look1 old1 len1 ms1 cap1 by auto
qed

end

sublocale kv_callbacks \<subseteq> kv_map valid cmp "kv_wf valid hash cmp" kv_lookup
  by unfold_locales (rule get_eq put_correct delete_correct; assumption)+

end
