(* ===== verification/Cache.thy ===== *)
theory Cache
  imports Kvstore
begin

text \<open>
  The cache of \<^verbatim>\<open>src/src/cache.c\<close>: a hash table from keys to nodes that are also threaded on a
  doubly linked list, most recently used first. The nodes live in an explicit heap (a map from
  addresses), so that a load or store through a null or freed pointer is \<open>None\<close>. The write lock makes
  the changes of every operation atomic. \<open>racs_cache_get\<close> loads the value from the node after it has released the
  lock, which is the same only while no other thread evicts the node in between; the server runs
  its commands on one thread, and the histories here are sequential. The development shows that for a capacity of at least two every history of
  operations behaves as the abstract bounded list \<open>lru_put\<close>, \<open>lru_get\<close>, and that a cache of capacity
  one follows a freed pointer.
\<close>

section \<open>Data\<close>

type_synonym addr = nat

record 'v racs_cache_node =
  entry_key :: racs_key
  entry_value :: 'v
  node_prev :: "addr option"
  node_next :: "addr option"

record 'v racs_cache =
  c_size :: racs_uint64
  c_capacity :: nat
  c_head :: "addr option"
  c_tail :: "addr option"
  c_kv :: "(racs_key, addr) racs_kvstore"
  c_heap :: "addr \<rightharpoonup> 'v racs_cache_node"
  c_fresh :: addr

section \<open>Callbacks\<close>

definition racs_cache_hash :: "racs_key \<Rightarrow> racs_uint64" where
  "racs_cache_hash key = fst (murmur3_x64_128 (key_bytes key) 0)"

definition racs_cache_cmp :: "racs_key \<Rightarrow> racs_key \<Rightarrow> bool" where
  "racs_cache_cmp a b \<longleftrightarrow> fst a = fst b \<and> snd a = snd b"

definition racs_cache_kv :: "nat \<Rightarrow> (racs_key, addr) racs_kvstore" where
  "racs_cache_kv cap = racs_kvstore_create cap racs_cache_hash racs_cache_cmp"

text \<open>\<open>racs_scache_destroy\<close> frees the node of a deleted entry (and its key and value).\<close>

definition racs_scache_destroy :: "(racs_key \<times> addr) list \<Rightarrow> 'v racs_cache \<Rightarrow> 'v racs_cache" where
  "racs_scache_destroy freed c = c\<lparr>c_heap := foldl (\<lambda>h e. h(snd e := None)) (c_heap c) freed\<rparr>"

section \<open>Operations\<close>

definition racs_scache_create :: "nat \<Rightarrow> 'v racs_cache" where
  "racs_scache_create cap =
     \<lparr>c_size = 0, c_capacity = cap, c_head = None, c_tail = None, c_kv = racs_cache_kv cap,
      c_heap = Map.empty, c_fresh = 0\<rparr>"

text \<open>Stores \<open>node->next = q\<close> and \<open>node->prev = q\<close>.\<close>

definition set_next :: "addr \<Rightarrow> addr option \<Rightarrow> 'v racs_cache \<Rightarrow> 'v racs_cache option" where
  "set_next a q c = do { n \<leftarrow> c_heap c a; Some (c\<lparr>c_heap := (c_heap c)(a \<mapsto> n\<lparr>node_next := q\<rparr>)\<rparr>) }"

definition set_prev :: "addr \<Rightarrow> addr option \<Rightarrow> 'v racs_cache \<Rightarrow> 'v racs_cache option" where
  "set_prev a q c = do { n \<leftarrow> c_heap c a; Some (c\<lparr>c_heap := (c_heap c)(a \<mapsto> n\<lparr>node_prev := q\<rparr>)\<rparr>) }"

definition racs_cache_node_create :: "racs_key \<Rightarrow> 'v \<Rightarrow> 'v racs_cache \<Rightarrow> addr \<times> 'v racs_cache" where
  "racs_cache_node_create key v c =
     (c_fresh c,
      c\<lparr>c_heap := (c_heap c)(c_fresh c \<mapsto>
          \<lparr>entry_key = key, entry_value = v, node_prev = None, node_next = None\<rparr>),
        c_fresh := Suc (c_fresh c)\<rparr>)"

definition racs_cache_move_to_head :: "addr \<Rightarrow> 'v racs_cache \<Rightarrow> 'v racs_cache option" where
  "racs_cache_move_to_head node c =
     (case c_head c of
        None \<Rightarrow>
          do { c \<leftarrow> set_prev node None (c\<lparr>c_head := Some node, c_tail := Some node\<rparr>);
               set_next node None c }
      | Some h \<Rightarrow>
          if h = node then Some c
          else do {
            c \<leftarrow> (if c_tail c = Some node
                  then do { n \<leftarrow> c_heap c node;
                            let c = c\<lparr>c_tail := node_prev n\<rparr>;
                            case c_tail c of None \<Rightarrow> Some c | Some t \<Rightarrow> set_next t None c }
                  else Some c);
            n \<leftarrow> c_heap c node;
            c \<leftarrow> (case node_prev n of None \<Rightarrow> Some c | Some p \<Rightarrow> set_next p (node_next n) c);
            c \<leftarrow> (case node_next n of None \<Rightarrow> Some c | Some q \<Rightarrow> set_prev q (node_prev n) c);
            c \<leftarrow> set_prev node None c;
            c \<leftarrow> set_next node (c_head c) c;
            c \<leftarrow> set_prev h (Some node) c;
            Some (c\<lparr>c_head := Some node\<rparr>) })"

definition racs_cache_evict :: "'v racs_cache \<Rightarrow> 'v racs_cache option" where
  "racs_cache_evict c =
     do { tail \<leftarrow> c_tail c;
          n \<leftarrow> c_heap c tail;
          (kv, freed) \<leftarrow> racs_kvstore_delete (c_kv c) (entry_key n);
          let c = racs_scache_destroy freed (c\<lparr>c_kv := kv\<rparr>);
          let c = c\<lparr>c_tail := node_prev n\<rparr>;
          c \<leftarrow> (case c_tail c of None \<Rightarrow> Some c | Some t \<Rightarrow> set_next t None c);
          Some (c\<lparr>c_size := c_size c - 1\<rparr>) }"

definition racs_cache_put :: "racs_key \<Rightarrow> 'v \<Rightarrow> 'v racs_cache \<Rightarrow> 'v racs_cache option" where
  "racs_cache_put key v c =
     do { found \<leftarrow> racs_kvstore_get (c_kv c) key;
          case found of
            Some node \<Rightarrow> racs_cache_move_to_head node c
          | None \<Rightarrow>
              do { c \<leftarrow> (if c_capacity c \<le> unat (c_size c) then racs_cache_evict c else Some c);
                   let (node, c) = racs_cache_node_create key v c;
                   c \<leftarrow> racs_cache_move_to_head node c;
                   (kv, freed) \<leftarrow> racs_kvstore_put (c_kv c) key node;
                   let c = racs_scache_destroy freed (c\<lparr>c_kv := kv\<rparr>);
                   Some (c\<lparr>c_size := c_size c + 1\<rparr>) } }"

definition racs_cache_get :: "racs_key \<Rightarrow> 'v racs_cache \<Rightarrow> ('v option \<times> 'v racs_cache) option" where
  "racs_cache_get key c =
     do { found \<leftarrow> racs_kvstore_get (c_kv c) key;
          case found of
            None \<Rightarrow> Some (None, c)
          | Some node \<Rightarrow>
              do { c \<leftarrow> racs_cache_move_to_head node c;
                   n \<leftarrow> c_heap c node;
                   Some (Some (entry_value n), c) } }"

definition racs_cache_destroy :: "'v racs_cache \<Rightarrow> 'v racs_cache" where
  "racs_cache_destroy c = racs_scache_destroy (racs_kvstore_destroy (c_kv c)) c"

section \<open>Doubly linked segments\<close>

definition seg_first :: "addr list \<Rightarrow> addr option \<Rightarrow> addr option" where
  "seg_first xs q = (case xs of [] \<Rightarrow> q | x # _ \<Rightarrow> Some x)"

definition seg_last :: "addr option \<Rightarrow> addr list \<Rightarrow> addr option" where
  "seg_last p xs = (if xs = [] then p else Some (last xs))"

fun dseg :: "(addr \<rightharpoonup> 'v racs_cache_node) \<Rightarrow> addr option \<Rightarrow> addr list \<Rightarrow> addr option \<Rightarrow> bool" where
  "dseg h p [] q = True"
| "dseg h p (a # xs) q =
     ((case h a of None \<Rightarrow> False | Some n \<Rightarrow> node_prev n = p \<and> node_next n = seg_first xs q) \<and>
      dseg h (Some a) xs q)"

lemma dseg_append:
  "dseg h p (xs @ ys) q \<longleftrightarrow> dseg h p xs (seg_first ys q) \<and> dseg h (seg_last p xs) ys q"
  by (induction xs arbitrary: p)
     (auto simp: seg_first_def seg_last_def split: option.splits list.splits)

lemma dseg_frame: "a \<notin> set xs \<Longrightarrow> dseg (h(a := n)) p xs q = dseg h p xs q"
  by (induction xs arbitrary: p) auto

lemma dseg_mem: "dseg h p xs q \<Longrightarrow> a \<in> set xs \<Longrightarrow> \<exists>n. h a = Some n"
  by (induction xs arbitrary: p) (auto split: option.splits)

lemma dseg_set_last:
  assumes "dseg h p xs q" "xs \<noteq> []" "distinct xs" "h (last xs) = Some n"
  shows "dseg (h(last xs \<mapsto> n\<lparr>node_next := q'\<rparr>)) p xs q'"
proof -
  obtain us x where xs: "xs = us @ [x]" using assms(2) by (cases xs rule: rev_cases) auto
  with assms show ?thesis
    by (auto simp: dseg_append dseg_frame seg_first_def)
qed

lemma dseg_set_first:
  assumes "dseg h p xs q" "xs \<noteq> []" "distinct xs" "h (hd xs) = Some n"
  shows "dseg (h(hd xs \<mapsto> n\<lparr>node_prev := p'\<rparr>)) p' xs q"
  using assms by (cases xs) (auto simp: dseg_frame)

section \<open>Link updates\<close>

text \<open>The part of the state that relinking leaves alone.\<close>

definition ent :: "'v racs_cache \<Rightarrow> addr \<rightharpoonup> racs_key \<times> 'v" where
  "ent c a = map_option (\<lambda>n. (entry_key n, entry_value n)) (c_heap c a)"

lemma ent_upd [simp]:
  "ent (c\<lparr>c_head := x\<rparr>) = ent c" "ent (c\<lparr>c_tail := x\<rparr>) = ent c" "ent (c\<lparr>c_kv := kv\<rparr>) = ent c"
  "ent (c\<lparr>c_size := n\<rparr>) = ent c" "ent (c\<lparr>c_fresh := f\<rparr>) = ent c"
  by (simp_all add: ent_def fun_eq_iff)

definition same_data :: "'v racs_cache \<Rightarrow> 'v racs_cache \<Rightarrow> bool" where
  "same_data c c' \<longleftrightarrow> c_kv c' = c_kv c \<and> c_size c' = c_size c \<and> c_capacity c' = c_capacity c \<and>
     c_fresh c' = c_fresh c \<and> ent c' = ent c"

lemma same_data_refl [simp]: "same_data c c"
  by (simp add: same_data_def)

lemma same_data_trans [trans]: "same_data a b \<Longrightarrow> same_data b c \<Longrightarrow> same_data a c"
  by (simp add: same_data_def)

lemma same_data_ends [simp]:
  "same_data c (c'\<lparr>c_head := x\<rparr>) = same_data c c'" "same_data c (c'\<lparr>c_tail := x\<rparr>) = same_data c c'"
  "same_data (c\<lparr>c_tail := x\<rparr>) c' = same_data c c'"
  by (simp_all add: same_data_def ent_def fun_eq_iff)

text \<open>A relinking step from \<open>c\<close> to \<open>c'\<close> that writes one node only.\<close>

definition relink :: "addr \<Rightarrow> 'v racs_cache \<Rightarrow> 'v racs_cache \<Rightarrow> bool" where
  "relink a c c' \<longleftrightarrow> same_data c c' \<and> c_head c' = c_head c \<and> c_tail c' = c_tail c \<and>
     (\<forall>b. b \<noteq> a \<longrightarrow> c_heap c' b = c_heap c b)"

lemma dseg_relink:
  "relink a c c' \<Longrightarrow> a \<notin> set xs \<Longrightarrow> dseg (c_heap c') p xs q = dseg (c_heap c) p xs q"
  by (induction xs arbitrary: p) (auto simp: relink_def)

lemma set_next_last:
  assumes "dseg (c_heap c) p xs q" "xs \<noteq> []" "distinct xs" "a = last xs"
  obtains c' where "set_next a q' c = Some c'" "relink a c c'" "dseg (c_heap c') p xs q'"
proof -
  obtain n where "c_heap c (last xs) = Some n" using dseg_mem [OF assms(1)] assms(2) by force
  then show ?thesis
    using dseg_set_last [OF assms(1-3)] assms(4)
    by (intro that) (auto simp: set_next_def relink_def same_data_def ent_def fun_eq_iff)
qed

lemma set_prev_first:
  assumes "dseg (c_heap c) p xs q" "xs \<noteq> []" "distinct xs" "a = hd xs"
  obtains c' where "set_prev a p' c = Some c'" "relink a c c'" "dseg (c_heap c') p' xs q"
proof -
  obtain n where "c_heap c (hd xs) = Some n" using dseg_mem [OF assms(1)] assms(2) by force
  then show ?thesis
    using dseg_set_first [OF assms(1-3)] assms(4)
    by (intro that) (auto simp: set_prev_def relink_def same_data_def ent_def fun_eq_iff)
qed

section \<open>The recency list\<close>

text \<open>The nodes reachable from the head, in order, are \<open>xs\<close>, and no other node is allocated.\<close>

definition links :: "'v racs_cache \<Rightarrow> addr list \<Rightarrow> bool" where
  "links c xs \<longleftrightarrow> distinct xs \<and> dseg (c_heap c) None xs None \<and>
     c_head c = seg_first xs None \<and> c_tail c = seg_last None xs \<and>
     dom (c_heap c) = set xs \<and> (\<forall>a\<in>set xs. a < c_fresh c)"

lemma dom_ent: "dom (ent c) = dom (c_heap c)"
  by (auto simp: ent_def dom_def)

lemma same_data_dom: "same_data c c' \<Longrightarrow> dom (c_heap c') = dom (c_heap c)"
  by (simp add: same_data_def flip: dom_ent)

text \<open>The last three stores of \<open>racs_cache_move_to_head\<close>: a detached node becomes the head.\<close>

lemma push_head:
  assumes a: "dseg (c_heap c) p [a] q" and zs: "dseg (c_heap c) None zs None" "zs \<noteq> []"
    and dist: "distinct (a # zs)" and hd: "c_head c = Some (hd zs)"
  obtains c' where
    "do { c \<leftarrow> set_prev a None c; c \<leftarrow> set_next a (c_head c) c; c \<leftarrow> set_prev (hd zs) (Some a) c;
          Some (c\<lparr>c_head := Some a\<rparr>) } = Some c'"
    "same_data c c'" "c_head c' = Some a" "c_tail c' = c_tail c" "dseg (c_heap c') None (a # zs) None"
proof -
  have notin: "a \<notin> set zs" "hd zs \<noteq> a" using dist zs(2) by auto
  obtain c1 where c1: "set_prev a None c = Some c1" "relink a c c1" "dseg (c_heap c1) None [a] q"
    using set_prev_first [OF a, of a None] by auto
  have h1: "c_head c1 = Some (hd zs)" using c1(2) hd by (simp add: relink_def)
  obtain c2 where c2: "set_next a (Some (hd zs)) c1 = Some c2" "relink a c1 c2"
      "dseg (c_heap c2) None [a] (Some (hd zs))"
    using set_next_last [OF c1(3), of a "Some (hd zs)"] by auto
  have "dseg (c_heap c2) None zs None"
    using zs(1) dseg_relink [OF c1(2) notin(1)] dseg_relink [OF c2(2) notin(1)] by simp
  from set_prev_first [OF this zs(2) _ refl, of "Some a"] obtain c3 where
    c3: "set_prev (hd zs) (Some a) c2 = Some c3" "relink (hd zs) c2 c3"
      "dseg (c_heap c3) (Some a) zs None" using dist by auto
  have "dseg (c_heap c3) None [a] (Some (hd zs))"
    using c2(3) dseg_relink [OF c3(2), of "[a]"] notin(2) by simp
  with c3(3) zs(2) have "dseg (c_heap c3) None (a # zs) None"
    by (auto simp: seg_first_def neq_Nil_conv split: option.splits)
  moreover have "same_data c c3" "c_tail c3 = c_tail c"
    using c1(2) c2(2) c3(2) by (simp_all add: relink_def same_data_def)
  ultimately show ?thesis
    using c1(1) c2(1) c3(1) h1 by (intro that [of "c3\<lparr>c_head := Some a\<rparr>"]) auto
qed

lemma move_to_head_new:
  assumes l: "links c' xs" and c: "c = c'\<lparr>c_heap := (c_heap c')(a \<mapsto> n), c_fresh := Suc (c_fresh c')\<rparr>"
    and a: "a = c_fresh c'" and n: "node_prev n = None" "node_next n = None"
  shows "\<exists>d. racs_cache_move_to_head a c = Some d \<and> same_data c d \<and> links d (a # xs)"
proof -
  have dist: "distinct (a # xs)" using l a by (auto simp: links_def)
  then have dx: "dseg (c_heap c) None xs None"
    using l c by (simp add: links_def dseg_frame)
  have da: "dseg (c_heap c) None [a] None" using c n by (simp add: seg_first_def)
  have dom: "dom (c_heap c) = insert a (set xs)" "\<forall>b\<in>set (a # xs). b < c_fresh c"
    using l c a by (auto simp: links_def)
  show ?thesis
  proof (cases "xs = []")
    case True
    then have hd: "c_head c = None" using l c by (simp add: links_def seg_first_def)
    let ?c = "c\<lparr>c_head := Some a, c_tail := Some a\<rparr>"
    obtain c1 where c1: "set_prev a None ?c = Some c1" "relink a ?c c1" "dseg (c_heap c1) None [a] None"
      using set_prev_first [of ?c None "[a]" None a None] da by auto
    obtain c2 where c2: "set_next a None c1 = Some c2" "relink a c1 c2" "dseg (c_heap c2) None [a] None"
      using set_next_last [OF c1(3), of a None] by auto
    have sd: "same_data c c2" using c1(2) c2(2) by (simp add: relink_def same_data_def ent_def)
    then have "links c2 [a]"
      using c2 c1(2) same_data_dom [OF sd] dom True
      by (auto simp: links_def relink_def seg_first_def seg_last_def same_data_def)
    with hd sd c1(1) c2(1) True show ?thesis
      by (auto simp: racs_cache_move_to_head_def)
  next
    case False
    have hd: "c_head c = Some (hd xs)" "c_tail c = Some (last xs)"
      using l c False by (auto simp: links_def seg_first_def seg_last_def split: list.splits)
    have ne: "hd xs \<noteq> a" "last xs \<noteq> a" using dist False by auto
    obtain d where d: "do { c \<leftarrow> set_prev a None c; c \<leftarrow> set_next a (c_head c) c;
          c \<leftarrow> set_prev (hd xs) (Some a) c; Some (c\<lparr>c_head := Some a\<rparr>) } = Some d"
      "same_data c d" "c_head d = Some a" "c_tail d = c_tail c" "dseg (c_heap d) None (a # xs) None"
      using push_head [OF da dx False dist hd(1)] by blast
    have "c_heap c a = Some n" using c by simp
    then have "racs_cache_move_to_head a c = Some d"
      using d(1) hd ne n by (simp add: racs_cache_move_to_head_def)
    moreover have "links d (a # xs)"
      using d dist same_data_dom [OF d(2)] dom False hd
      by (auto simp: links_def seg_first_def seg_last_def same_data_def)
    ultimately show ?thesis using d(2) by blast
  qed
qed

lemma links_split:
  assumes "links c (us @ a # vs)" "us \<noteq> []"
  shows "dseg (c_heap c) None us (Some a)" "dseg (c_heap c) (Some (last us)) [a] (seg_first vs None)"
    "dseg (c_heap c) (Some a) vs None" "c_head c = Some (hd us)"
    "c_tail c = Some (if vs = [] then a else last vs)" "distinct (a # us @ vs)"
  using assms
  by (auto simp: links_def dseg_append seg_first_def seg_last_def neq_Nil_conv split: option.splits)

text \<open>The first statements of \<open>racs_cache_move_to_head\<close>, which retract the tail from the node.\<close>

lemma retract_tail:
  assumes l: "links c (us @ a # vs)" and us: "us \<noteq> []"
  obtains d q where
    "(if c_tail c = Some a
      then do { n \<leftarrow> c_heap c a; let c = c\<lparr>c_tail := node_prev n\<rparr>;
                case c_tail c of None \<Rightarrow> Some c | Some t \<Rightarrow> set_next t None c }
      else Some c) = Some d"
    "same_data c d" "c_head d = Some (hd us)" "c_tail d = Some (if vs = [] then last us else last vs)"
    "dseg (c_heap d) None us q" "dseg (c_heap d) (Some (last us)) [a] (seg_first vs None)"
    "dseg (c_heap d) (Some a) vs None"
proof -
  note s = links_split [OF l us]
  show ?thesis
  proof (cases "vs = []")
    case True
    obtain n where n: "c_heap c a = Some n" "node_prev n = Some (last us)"
      using s(2) by (auto split: option.splits)
    let ?c = "c\<lparr>c_tail := Some (last us)\<rparr>"
    have "dseg (c_heap ?c) None us (Some a)" using s(1) by simp
    from set_next_last [OF this us _ refl] s(6) obtain d where
      d: "set_next (last us) None ?c = Some d" "relink (last us) ?c d" "dseg (c_heap d) None us None"
      by auto
    have "last us \<noteq> a" using s(6) us by auto
    then have "dseg (c_heap d) (Some (last us)) [a] (seg_first vs None)"
      using s(2) dseg_relink [OF d(2), of "[a]"] by simp
    with n d True s show ?thesis
      by (intro that [of d None]) (auto simp: relink_def)
  next
    case False
    then have "c_tail c \<noteq> Some a" using s(5,6) by auto
    with False s show ?thesis by (intro that [of c "Some a"]) auto
  qed
qed

lemma move_to_head_mem:
  assumes l: "links c (us @ a # vs)" and us: "us \<noteq> []"
  shows "\<exists>d. racs_cache_move_to_head a c = Some d \<and> same_data c d \<and> links d (a # us @ vs)"
proof -
  have dist: "distinct (a # us @ vs)" and hd: "c_head c = Some (hd us)" "hd us \<noteq> a"
    using links_split [OF l us] us by auto
  obtain d q where d: "(if c_tail c = Some a
      then do { n \<leftarrow> c_heap c a; let c = c\<lparr>c_tail := node_prev n\<rparr>;
                case c_tail c of None \<Rightarrow> Some c | Some t \<Rightarrow> set_next t None c }
      else Some c) = Some d" "same_data c d" "c_head d = Some (hd us)"
      "c_tail d = Some (if vs = [] then last us else last vs)"
      "dseg (c_heap d) None us q" "dseg (c_heap d) (Some (last us)) [a] (seg_first vs None)"
      "dseg (c_heap d) (Some a) vs None"
    using retract_tail [OF l us] by blast
  obtain n where n: "c_heap d a = Some n" "node_prev n = Some (last us)" "node_next n = seg_first vs None"
    using d(6) by (auto simp: seg_first_def split: option.splits)
  obtain e where e: "set_next (last us) (seg_first vs None) d = Some e" "relink (last us) d e"
      "dseg (c_heap e) None us (seg_first vs None)"
    using set_next_last [OF d(5) us _ refl, of "seg_first vs None"] dist by auto
  have last: "last us \<noteq> a" "last us \<notin> set vs" using dist last_in_set [OF us] by auto
  have e': "dseg (c_heap e) (Some (last us)) [a] (seg_first vs None)" "dseg (c_heap e) (Some a) vs None"
    using d(6,7) dseg_relink [OF e(2), of "[a]"] dseg_relink [OF e(2), of vs] last by auto
  obtain f where f: "(case seg_first vs None of None \<Rightarrow> Some e | Some q \<Rightarrow> set_prev q (Some (last us)) e)
        = Some f" "same_data e f" "c_head f = c_head e" "c_tail f = c_tail e"
      "dseg (c_heap f) None (us @ vs) None" "dseg (c_heap f) (Some (last us)) [a] (seg_first vs None)"
  proof (cases "vs = []")
    case True
    with e e' that [of e] show ?thesis by (simp add: seg_first_def)
  next
    case False
    obtain f where f: "set_prev (hd vs) (Some (last us)) e = Some f" "relink (hd vs) e f"
        "dseg (c_heap f) (Some (last us)) vs None"
      using set_prev_first [OF e'(2) False _ refl, of "Some (last us)"] dist by auto
    have "hd vs \<noteq> a" "hd vs \<notin> set us" using False dist by auto
    then have "dseg (c_heap f) None us (seg_first vs None)"
      "dseg (c_heap f) (Some (last us)) [a] (seg_first vs None)"
      using e(3) e'(1) dseg_relink [OF f(2), of us] dseg_relink [OF f(2), of "[a]"] by auto
    with f False us that [of f] show ?thesis
      by (auto simp: dseg_append seg_last_def relink_def seg_first_def neq_Nil_conv)
  qed
  have "c_head f = Some (hd (us @ vs))" using f(3) e(2) d(3) us by (simp add: relink_def)
  from push_head [OF f(6,5) _ dist this] us obtain g where
    g: "do { c \<leftarrow> set_prev a None f; c \<leftarrow> set_next a (c_head c) c; c \<leftarrow> set_prev (hd us) (Some a) c;
          Some (c\<lparr>c_head := Some a\<rparr>) } = Some g"
      "same_data f g" "c_head g = Some a" "c_tail g = c_tail f"
      "dseg (c_heap g) None (a # us @ vs) None" by auto
  have sd: "same_data c g"
    using d(2) e(2) f(2) g(2) by (simp add: relink_def same_data_def)
  have "racs_cache_move_to_head a c = Some g"
    unfolding racs_cache_move_to_head_def hd(1) option.case if_not_P [OF hd(2)] d(1)
    using n e(1) f(1) [folded n(2)] g(1) by simp
  moreover have "links g (a # us @ vs)"
    using g dist same_data_dom [OF sd] sd l d(4) e(2) f(4) us
    by (auto simp: links_def seg_first_def seg_last_def relink_def same_data_def)
  ultimately show ?thesis using sd by blast
qed

lemma move_to_head_links:
  assumes "links c xs" "a \<in> set xs"
  shows "\<exists>d. racs_cache_move_to_head a c = Some d \<and> same_data c d \<and> links d (a # remove1 a xs)"
proof -
  obtain us vs where xs: "xs = us @ a # vs" "a \<notin> set us"
    using assms(2) split_list_first by metis
  show ?thesis
  proof (cases "us = []")
    case True
    with assms xs show ?thesis
      by (auto simp: racs_cache_move_to_head_def links_def seg_first_def)
  next
    case False
    with move_to_head_mem [of c us a vs] assms xs show ?thesis
      by (simp add: remove1_append)
  qed
qed

section \<open>The cache is a bounded recency list\<close>

text \<open>The abstract cache: a list of key-value pairs, most recently used first.\<close>

definition lru_touch :: "racs_key \<Rightarrow> 'v \<Rightarrow> (racs_key \<times> 'v) list \<Rightarrow> (racs_key \<times> 'v) list" where
  "lru_touch k v l = (k, v) # filter (\<lambda>e. fst e \<noteq> k) l"

definition lru_get :: "racs_key \<Rightarrow> (racs_key \<times> 'v) list \<Rightarrow> 'v option \<times> (racs_key \<times> 'v) list" where
  "lru_get k l = (map_of l k, case map_of l k of None \<Rightarrow> l | Some v \<Rightarrow> lru_touch k v l)"

definition lru_put :: "nat \<Rightarrow> racs_key \<Rightarrow> 'v \<Rightarrow> (racs_key \<times> 'v) list \<Rightarrow> (racs_key \<times> 'v) list" where
  "lru_put cap k v l =
     (case map_of l k of None \<Rightarrow> (k, v) # take (cap - 1) l | Some w \<Rightarrow> lru_touch k w l)"

interpretation ck: kv_callbacks "\<lambda>_. True" racs_cache_hash racs_cache_cmp racs_cache_kv
  by unfold_locales (auto simp: racs_cache_cmp_def racs_cache_kv_def prod_eq_iff)

lemma racs_cache_cmp_eq [simp]: "racs_cache_cmp = (=)"
  by (auto simp: fun_eq_iff racs_cache_cmp_def prod_eq_iff)

definition cache_inv :: "'v racs_cache \<Rightarrow> addr list \<Rightarrow> bool" where
  "cache_inv c xs \<longleftrightarrow> links c xs \<and> kv_wf (\<lambda>_. True) racs_cache_hash racs_cache_cmp (c_kv c) \<and>
     (\<forall>k a. kv_lookup (c_kv c) k = Some a \<longleftrightarrow> a \<in> set xs \<and> (\<exists>v. ent c a = Some (k, v))) \<and>
     unat (c_size c) = length xs \<and> length xs \<le> c_capacity c \<and> c_capacity c < 2 ^ 64"

definition contents :: "'v racs_cache \<Rightarrow> addr list \<Rightarrow> (racs_key \<times> 'v) list" where
  "contents c xs = map (\<lambda>a. the (ent c a)) xs"

definition cache_rep :: "'v racs_cache \<Rightarrow> (racs_key \<times> 'v) list \<Rightarrow> bool" where
  "cache_rep c l \<longleftrightarrow> (\<exists>xs. cache_inv c xs \<and> contents c xs = l)"

lemma ent_mem:
  assumes "links c xs" "a \<in> set xs"
  shows "\<exists>k v. ent c a = Some (k, v)"
proof -
  obtain n where "c_heap c a = Some n" using assms by (auto simp: links_def dom_def)
  then have "ent c a = Some (entry_key n, entry_value n)" by (simp add: ent_def)
  then show ?thesis by blast
qed

lemma cache_lookup:
  "cache_inv c xs \<Longrightarrow>
   kv_lookup (c_kv c) k = Some a \<longleftrightarrow> a \<in> set xs \<and> (\<exists>v. ent c a = Some (k, v))"
  unfolding cache_inv_def by blast

lemma key_inj:
  assumes "cache_inv c xs" "a \<in> set xs" "b \<in> set xs" "ent c a = Some (k, v)" "ent c b = Some (k, w)"
  shows "a = b"
  using assms unfolding cache_inv_def by (metis option.inject)

lemma contents_filter:
  assumes "cache_inv c xs" "a \<in> set xs" "ent c a = Some (k, v)"
  shows "contents c (filter (\<lambda>b. b \<noteq> a) xs) = filter (\<lambda>e. fst e \<noteq> k) (contents c xs)"
proof -
  have "b \<noteq> a \<longleftrightarrow> fst (the (ent c b)) \<noteq> k" if "b \<in> set xs" for b
    using ent_mem [of c xs b] key_inj [OF assms(1,2) that assms(3)] assms that
    by (auto simp: cache_inv_def)
  then show ?thesis
    by (auto simp: contents_def filter_map o_def intro!: arg_cong [of _ _ "map _"] filter_cong)
qed

lemma map_of_contents:
  assumes "cache_inv c xs"
  shows "map_of (contents c xs) k = map_option (\<lambda>a. snd (the (ent c a))) (kv_lookup (c_kv c) k)"
proof (cases "kv_lookup (c_kv c) k")
  case None
  then have "\<not> (\<exists>v. ent c a = Some (k, v))" if "a \<in> set xs" for a
    using assms that by (metis cache_inv_def option.distinct(1))
  moreover have "\<exists>k v. ent c a = Some (k, v)" if "a \<in> set xs" for a
    using assms that ent_mem by (auto simp: cache_inv_def)
  ultimately have "k \<notin> fst ` set (contents c xs)"
    by (force simp: contents_def)
  with None show ?thesis by (simp add: map_of_eq_None_iff)
next
  case (Some a)
  then obtain v where a: "a \<in> set xs" "ent c a = Some (k, v)"
    using assms by (auto simp: cache_lookup)
  have l: "links c xs" "distinct xs" using assms by (auto simp: cache_inv_def links_def)
  have "inj_on (\<lambda>a. fst (the (ent c a))) (set xs)"
  proof (rule inj_onI)
    fix a b assume ab: "a \<in> set xs" "b \<in> set xs" "fst (the (ent c a)) = fst (the (ent c b))"
    with ent_mem [OF l(1) ab(1)] ent_mem [OF l(1) ab(2)] key_inj [OF assms ab(1,2)]
    show "a = b" by auto
  qed
  then have "distinct (map fst (contents c xs))"
    using l(2) by (simp add: contents_def distinct_map o_def)
  moreover have "(k, v) \<in> set (contents c xs)"
    using a by (force simp: contents_def)
  ultimately show ?thesis using Some a by simp
qed

lemma cache_touch:
  assumes inv: "cache_inv c xs" and a: "kv_lookup (c_kv c) k = Some a"
  obtains d v where "racs_cache_move_to_head a c = Some d" "cache_inv d (a # remove1 a xs)"
    "ent c a = Some (k, v)" "ent d = ent c" "c_capacity d = c_capacity c"
    "contents d (a # remove1 a xs) = lru_touch k v (contents c xs)"
proof -
  obtain v where v: "a \<in> set xs" "ent c a = Some (k, v)"
    using inv a by (auto simp: cache_lookup)
  have l: "links c xs" "distinct xs" using inv by (auto simp: cache_inv_def links_def)
  obtain d where d: "racs_cache_move_to_head a c = Some d" "same_data c d" "links d (a # remove1 a xs)"
    using move_to_head_links [OF l(1) v(1)] by blast
  have "length (a # remove1 a xs) = length xs" "set (a # remove1 a xs) = set xs"
    using v(1) l(2) length_pos_if_in_set [OF v(1)] by (auto simp: length_remove1)
  then have "cache_inv d (a # remove1 a xs)"
    using inv d unfolding cache_inv_def same_data_def by metis
  moreover have "contents d (a # remove1 a xs) = lru_touch k v (contents c xs)"
    using contents_filter [OF inv v] v d(2) l(2)
    by (simp add: contents_def lru_touch_def same_data_def distinct_remove1_removeAll removeAll_filter_not_eq
        flip: filter_map)
       (metis (mono_tags, lifting) filter_cong)
  ultimately show ?thesis using d v by (intro that) (auto simp: same_data_def)
qed

lemma cache_evict_links:
  assumes l: "links c (us @ [t])" and us: "us \<noteq> []"
  obtains n d where "c_tail c = Some t" "c_heap c t = Some n"
    "node_prev n = Some (last us)"
    "set_next (last us) None (c\<lparr>c_kv := kv, c_heap := (c_heap c)(t := None), c_tail := Some (last us)\<rparr>)
       = Some d"
    "links d us" "c_kv d = kv" "c_size d = c_size c" "c_capacity d = c_capacity c"
    "ent d = (ent c)(t := None)"
proof -
  note s = links_split [OF l us]
  obtain n where n: "c_heap c t = Some n" "node_prev n = Some (last us)"
    using s(2) by (auto split: option.splits)
  let ?c = "c\<lparr>c_kv := kv, c_heap := (c_heap c)(t := None), c_tail := Some (last us)\<rparr>"
  have dist: "distinct us" "t \<notin> set us" using s(6) by auto
  have "dseg (c_heap ?c) None us (Some t)" using s(1) dist by (simp add: dseg_frame)
  from set_next_last [OF this us dist(1) refl] obtain d where
    d: "set_next (last us) None ?c = Some d" "relink (last us) ?c d" "dseg (c_heap d) None us None"
    by blast
  have sd: "same_data ?c d" using d(2) by (simp add: relink_def)
  have dom: "dom (c_heap c) = insert t (set us)" "\<forall>a\<in>set us. a < c_fresh c"
    using l by (auto simp: links_def)
  have "links d us"
    using d dist us s(4) same_data_dom [OF sd] dom sd
    by (auto simp: links_def relink_def seg_first_def seg_last_def same_data_def neq_Nil_conv)
  moreover have "ent d = (ent c)(t := None)"
    using sd by (auto simp: same_data_def ent_def fun_eq_iff)
  ultimately show ?thesis
    using n d(1) sd s(5) by (intro that [of n d]) (auto simp: same_data_def)
qed

lemma cache_evict_rep:
  assumes inv: "cache_inv c xs" and xs: "2 \<le> length xs"
  obtains d where "racs_cache_evict c = Some d" "cache_inv d (butlast xs)"
    "contents d (butlast xs) = butlast (contents c xs)" "c_capacity d = c_capacity c"
proof -
  obtain us t where t: "xs = us @ [t]" "us \<noteq> []"
    using xs by (cases xs rule: rev_cases) (auto simp: Suc_le_eq)
  have l: "links c (us @ [t])" using inv t by (simp add: cache_inv_def)
  then have dist: "distinct us" "t \<notin> set us" by (auto simp: links_def)
  obtain k v where e: "ent c t = Some (k, v)" using ent_mem [OF l, of t] by auto
  then have look: "kv_lookup (c_kv c) k = Some t" using inv t by (auto simp: cache_lookup)
  have wf: "kv_wf (\<lambda>_. True) racs_cache_hash racs_cache_cmp (c_kv c)"
    using inv by (simp add: cache_inv_def)
  obtain kv' a where kv': "racs_kvstore_delete (c_kv c) k = Some (kv', [(a, t)])"
      "kv_wf (\<lambda>_. True) racs_cache_hash racs_cache_cmp kv'"
      "\<And>k'. kv_lookup kv' k' = (if racs_cache_cmp k k' then None else kv_lookup (c_kv c) k')"
    by (rule ck.delete_present [OF wf TrueI look]) (rule that; iprover)
  obtain n d where d: "c_tail c = Some t" "c_heap c t = Some n" "node_prev n = Some (last us)"
      "set_next (last us) None (c\<lparr>c_kv := kv', c_heap := (c_heap c)(t := None), c_tail := Some (last us)\<rparr>)
         = Some d" "links d us" "c_kv d = kv'" "c_size d = c_size c" "c_capacity d = c_capacity c"
      "ent d = (ent c)(t := None)"
    using cache_evict_links [OF l t(2)] by blast
  have key: "entry_key n = k" using e d(2) by (simp add: ent_def)
  have "racs_cache_evict c = Some (d\<lparr>c_size := c_size d - 1\<rparr>)"
    using d(1-4) kv'(1) key by (simp add: racs_cache_evict_def racs_scache_destroy_def)
  moreover have "cache_inv (d\<lparr>c_size := c_size d - 1\<rparr>) us"
  proof -
    have "kv_lookup kv' k' = Some b \<longleftrightarrow> b \<in> set us \<and> (\<exists>v. ((ent c)(t := None)) b = Some (k', v))" for k' b
      using kv'(3) [of k'] cache_lookup [OF inv, of k' b] t dist e key_inj [OF inv, of t b k] look by auto
    moreover have "unat (c_size c - 1) = length us"
      using inv t by (simp add: cache_inv_def unat_sub word_le_nat_alt)
    moreover have "links (d\<lparr>c_size := c_size d - 1\<rparr>) us" using d(5) by (simp add: links_def)
    ultimately show ?thesis
      using d kv'(2) inv t unfolding cache_inv_def by simp
  qed
  moreover have "contents (d\<lparr>c_size := c_size d - 1\<rparr>) us = butlast (contents c xs)"
    using t dist d(9) by (auto simp: contents_def)
  ultimately show ?thesis using that t d(8) by simp
qed

lemma cache_insert_rep:
  assumes inv: "cache_inv c xs" and new: "kv_lookup (c_kv c) k = None" and room: "length xs < c_capacity c"
  obtains d a where
    "do { let (node, c) = racs_cache_node_create k v c;
          c \<leftarrow> racs_cache_move_to_head node c;
          (kv, freed) \<leftarrow> racs_kvstore_put (c_kv c) k node;
          let c = racs_scache_destroy freed (c\<lparr>c_kv := kv\<rparr>);
          Some (c\<lparr>c_size := c_size c + 1\<rparr>) } = Some d"
    "cache_inv d (a # xs)" "contents d (a # xs) = (k, v) # contents c xs" "c_capacity d = c_capacity c"
proof -
  let ?a = "c_fresh c"
  let ?n = "\<lparr>entry_key = k, entry_value = v, node_prev = None, node_next = None\<rparr>"
  let ?c = "c\<lparr>c_heap := (c_heap c)(?a \<mapsto> ?n), c_fresh := Suc ?a\<rparr>"
  have l: "links c xs" using inv by (simp add: cache_inv_def)
  then have fresh: "?a \<notin> set xs" by (auto simp: links_def)
  obtain d where d: "racs_cache_move_to_head ?a ?c = Some d" "same_data ?c d" "links d (?a # xs)"
    using move_to_head_new [OF l refl refl, of ?n] by auto
  have wf: "kv_wf (\<lambda>_. True) racs_cache_hash racs_cache_cmp (c_kv d)" and new': "kv_lookup (c_kv d) k = None"
    using inv d(2) new by (simp_all add: cache_inv_def same_data_def)
  obtain kv' where kv': "racs_kvstore_put (c_kv d) k ?a = Some (kv', [])"
      "kv_wf (\<lambda>_. True) racs_cache_hash racs_cache_cmp kv'"
      "\<And>k'. kv_lookup kv' k' = (if racs_cache_cmp k k' then Some ?a else kv_lookup (c_kv d) k')"
    by (rule ck.put_fresh [OF wf TrueI new', of ?a]) (rule that; iprover)
  let ?d = "d\<lparr>c_kv := kv', c_size := c_size d + 1\<rparr>"
  have ent: "ent d = (ent c)(?a \<mapsto> (k, v))"
    using d(2) by (auto simp: same_data_def ent_def fun_eq_iff)
  have data: "c_kv d = c_kv c" "c_size d = c_size c" "c_capacity d = c_capacity c"
    using d(2) by (simp_all add: same_data_def)
  have "cache_inv ?d (?a # xs)"
  proof -
    have "kv_lookup kv' k' = Some b \<longleftrightarrow> b \<in> set (?a # xs) \<and> (\<exists>w. ent d b = Some (k', w))" for k' b
    proof (cases "b = ?a")
      case True
      then show ?thesis
        using kv'(3) [of k'] cache_lookup [OF inv, of k' ?a] fresh data by (auto simp: ent)
    next
      case False
      then show ?thesis
        using kv'(3) [of k'] cache_lookup [OF inv, of k' b] new data by (auto simp: ent)
    qed
    moreover have "unat (c_size c + 1) = length (?a # xs)"
    proof -
      have "unat (c_size c) + unat (1 :: racs_uint64) < 2 ^ LENGTH(64)"
        using inv room by (simp add: cache_inv_def)
      then show ?thesis
        using inv by (subst unat_add_lem [THEN iffD1]) (simp_all add: cache_inv_def)
    qed
    moreover have "links ?d (?a # xs)" using d(3) by (simp add: links_def)
    ultimately show ?thesis
      using kv'(2) inv room data unfolding cache_inv_def by simp
  qed
  moreover have "contents ?d (?a # xs) = (k, v) # contents c xs"
    using fresh by (auto simp: contents_def ent)
  moreover have "do { let (node, c) = racs_cache_node_create k v c;
          c \<leftarrow> racs_cache_move_to_head node c;
          (kv, freed) \<leftarrow> racs_kvstore_put (c_kv c) k node;
          let c = racs_scache_destroy freed (c\<lparr>c_kv := kv\<rparr>);
          Some (c\<lparr>c_size := c_size c + 1\<rparr>) } = Some ?d"
    using d(1) kv'(1) by (simp add: racs_cache_node_create_def racs_scache_destroy_def)
  ultimately show ?thesis using that data(3) by simp
qed

lemma cache_get_kv: "cache_inv c xs \<Longrightarrow> racs_kvstore_get (c_kv c) k = Some (kv_lookup (c_kv c) k)"
  by (simp add: cache_inv_def ck.get_lookup)

lemma cache_rep_get:
  assumes "cache_rep c l"
  shows "\<exists>c'. racs_cache_get k c = Some (fst (lru_get k l), c') \<and> cache_rep c' (snd (lru_get k l)) \<and>
    c_capacity c' = c_capacity c"
proof -
  obtain xs where inv: "cache_inv c xs" and l: "contents c xs = l"
    using assms by (auto simp: cache_rep_def)
  show ?thesis
  proof (cases "kv_lookup (c_kv c) k")
    case None
    with inv l assms show ?thesis
      using map_of_contents [OF inv, of k] by (simp add: racs_cache_get_def cache_get_kv lru_get_def)
  next
    case (Some a)
    obtain d v where d: "racs_cache_move_to_head a c = Some d" "cache_inv d (a # remove1 a xs)"
      "ent c a = Some (k, v)" "ent d = ent c" "c_capacity d = c_capacity c"
      "contents d (a # remove1 a xs) = lru_touch k v (contents c xs)"
      using cache_touch [OF inv Some] by blast
    obtain n where n: "c_heap d a = Some n" "entry_value n = v"
      using d(3) fun_cong [OF d(4), of a] by (auto simp: ent_def)
    have "cache_rep d (lru_touch k v l)" using d l by (auto simp: cache_rep_def)
    moreover have "racs_cache_get k c = Some (Some v, d)"
      using Some d n inv by (simp add: racs_cache_get_def cache_get_kv)
    moreover have "map_of l k = Some v"
      using map_of_contents [OF inv, of k] Some d(3) l by simp
    ultimately show ?thesis using d(5) by (simp add: lru_get_def)
  qed
qed

lemma cache_rep_put:
  assumes rep: "cache_rep c l" and cap: "2 \<le> c_capacity c"
  shows "\<exists>c'. racs_cache_put k v c = Some c' \<and> cache_rep c' (lru_put (c_capacity c) k v l) \<and>
    c_capacity c' = c_capacity c"
proof -
  obtain xs where inv: "cache_inv c xs" and l: "contents c xs = l"
    using rep by (auto simp: cache_rep_def)
  have sz: "unat (c_size c) = length xs" "length l = length xs" "length xs \<le> c_capacity c"
    using inv l by (auto simp: cache_inv_def contents_def)
  show ?thesis
  proof (cases "kv_lookup (c_kv c) k")
    case (Some a)
    obtain d w where d: "racs_cache_move_to_head a c = Some d" "cache_inv d (a # remove1 a xs)"
      "ent c a = Some (k, w)" "c_capacity d = c_capacity c"
      "contents d (a # remove1 a xs) = lru_touch k w (contents c xs)"
      using cache_touch [OF inv Some] by blast
    have "cache_rep d (lru_touch k w l)" using d l by (auto simp: cache_rep_def)
    moreover have "map_of l k = Some w"
      using map_of_contents [OF inv, of k] Some d(3) l by simp
    ultimately show ?thesis
      using Some d inv by (simp add: racs_cache_put_def cache_get_kv lru_put_def)
  next
    case None
    then have none: "map_of l k = None" using map_of_contents [OF inv, of k] l by simp
    obtain e ys where e: "(if c_capacity c \<le> unat (c_size c) then racs_cache_evict c else Some c) = Some e"
      "cache_inv e ys" "contents e ys = take (c_capacity c - 1) l" "c_capacity e = c_capacity c"
      "length ys < c_capacity c" "kv_lookup (c_kv e) k = None"
    proof (cases "c_capacity c \<le> length xs")
      case True
      then have "2 \<le> length xs" using cap by simp
      then obtain d where d: "racs_cache_evict c = Some d" "cache_inv d (butlast xs)"
        "contents d (butlast xs) = butlast (contents c xs)" "c_capacity d = c_capacity c"
        by (rule cache_evict_rep [OF inv])
      have "butlast l = take (c_capacity c - 1) l"
        using True sz by (simp add: butlast_conv_take)
      moreover have "map_of (butlast l) k = None"
        using none by (auto simp: map_of_eq_None_iff dest: in_set_butlastD)
      then have "kv_lookup (c_kv d) k = None"
        using map_of_contents [OF d(2), of k] d(3) l by simp
      ultimately show ?thesis using that [of d "butlast xs"] d True sz cap l by simp
    next
      case False
      with that [of c xs] inv l sz None show ?thesis by simp
    qed
    have ek: "kv_lookup (c_kv e) k = None" and er: "length ys < c_capacity e" using e by auto
    from cache_insert_rep [OF e(2) ek er, of v] obtain d a where
      d: "do { let (node, c) = racs_cache_node_create k v e;
          c \<leftarrow> racs_cache_move_to_head node c;
          (kv, freed) \<leftarrow> racs_kvstore_put (c_kv c) k node;
          let c = racs_scache_destroy freed (c\<lparr>c_kv := kv\<rparr>);
          Some (c\<lparr>c_size := c_size c + 1\<rparr>) } = Some d"
        "cache_inv d (a # ys)" "contents d (a # ys) = (k, v) # contents e ys" "c_capacity d = c_capacity e"
      by blast
    have "racs_cache_put k v c = Some d"
      unfolding racs_cache_put_def cache_get_kv [OF inv] None bind.simps(2) option.case e(1) d(1) ..
    moreover have "cache_rep d ((k, v) # take (c_capacity c - 1) l)"
      using d e(3) by (auto simp: cache_rep_def)
    ultimately show ?thesis using none d(4) e(4) by (simp add: lru_put_def)
  qed
qed

lemma cache_rep_create: "cap < 2 ^ 64 \<Longrightarrow> 0 < cap \<Longrightarrow> cache_rep (racs_scache_create cap) []"
  using ck.create_wf [of cap] ck.create_lookup [of cap]
  by (auto simp: cache_rep_def cache_inv_def links_def racs_scache_create_def contents_def seg_first_def
      seg_last_def)

section \<open>Histories\<close>

datatype 'v cache_op = Put racs_key 'v | Get racs_key

text \<open>The results of the lookups of a history, in order.\<close>

fun cache_run :: "'v cache_op list \<Rightarrow> 'v racs_cache \<Rightarrow> 'v option list option" where
  "cache_run [] c = Some []"
| "cache_run (Put k v # ops) c = do { c \<leftarrow> racs_cache_put k v c; cache_run ops c }"
| "cache_run (Get k # ops) c =
     do { (r, c) \<leftarrow> racs_cache_get k c; rs \<leftarrow> cache_run ops c; Some (r # rs) }"

fun lru_run :: "nat \<Rightarrow> 'v cache_op list \<Rightarrow> (racs_key \<times> 'v) list \<Rightarrow> 'v option list" where
  "lru_run cap [] l = []"
| "lru_run cap (Put k v # ops) l = lru_run cap ops (lru_put cap k v l)"
| "lru_run cap (Get k # ops) l = fst (lru_get k l) # lru_run cap ops (snd (lru_get k l))"

lemma cache_run_rep:
  "cache_rep c l \<Longrightarrow> 2 \<le> c_capacity c \<Longrightarrow> cache_run ops c = Some (lru_run (c_capacity c) ops l)"
proof (induction ops arbitrary: c l)
  case Nil
  then show ?case by simp
next
  case (Cons op ops)
  show ?case
  proof (cases op)
    case (Put k v)
    with cache_rep_put [OF Cons.prems, of k v] Cons.IH Cons.prems(2) show ?thesis by fastforce
  next
    case (Get k)
    with cache_rep_get [OF Cons.prems(1), of k] Cons.IH Cons.prems(2) show ?thesis by fastforce
  qed
qed

text \<open>
  C11: For every capacity of at least two, every sequence of \<open>racs_cache_put\<close> and \<open>racs_cache_get\<close>
  calls on a new cache runs without touching a null or freed node, and every lookup returns what a
  list of at most \<open>cap\<close> pairs in order of use returns: a hit moves the pair to the front, an insertion
  drops the least recently used pair, and inserting a present key keeps the old value.
\<close>

theorem cache_refines_lru:
  assumes "2 \<le> cap" "cap < 2 ^ 64"
  shows "cache_run ops (racs_scache_create cap) = Some (lru_run cap ops [])"
  using cache_run_rep [OF cache_rep_create [OF assms(2)]] assms
  by (simp add: racs_scache_create_def)

theorem cache_refines_lru_witness:
  "cache_run [Put (1, 1) (10 :: nat), Put (1, 2) 20, Get (1, 1), Put (1, 3) 30, Get (1, 2), Get (1, 1)]
     (racs_scache_create 2) = Some [Some 10, None, Some 10]"
  using cache_refines_lru [of 2 "[Put (1, 1) 10, Put (1, 2) 20, Get (1, 1), Put (1, 3) 30, Get (1, 2), Get (1, 1)]"]
  by (simp add: lru_put_def lru_get_def lru_touch_def)

text \<open>
  In a cache of capacity one the second insertion is undefined: eviction frees the only node and
  leaves the head pointing to it, and \<open>racs_cache_move_to_head\<close> then stores through the head.
\<close>

theorem cache_capacity_one_faults:
  assumes "k \<noteq> k'"
  shows "do { c \<leftarrow> racs_cache_put k v (racs_scache_create 1); racs_cache_put k' w c } = None"
  using assms
  by (simp add: racs_cache_put_def racs_scache_create_def racs_cache_kv_def racs_kvstore_create_def
      racs_kvstore_bin_init_def racs_kvstore_get_def racs_kvstore_get_bin_def racs_cache_node_create_def
      racs_cache_move_to_head_def set_prev_def set_next_def racs_kvstore_put_def
      racs_kvstore_bin_append_def racs_scache_destroy_def racs_cache_evict_def racs_kvstore_delete_def
      Let_def)

theorem cache_capacity_one_faults_witness:
  "(0, 0) \<noteq> ((0, 1) :: racs_key) \<and>
   do { c \<leftarrow> racs_cache_put (0, 0) () (racs_scache_create 1); racs_cache_put (0, 1) () c } = None"
  using cache_capacity_one_faults [of "(0, 0)" "(0, 1)" "()" "()"] by simp

end
