(* ===== verification/Offsets.thy ===== *)
theory Offsets
  imports Kvstore
begin

text \<open>
  The table of write offsets of \<^verbatim>\<open>src/src/offsets.c\<close>: the number of bytes appended so far to
  each stream. Its keys are pairs whose second word is 0, and its comparison reads the first word
  only; on such keys the two callbacks satisfy the contract of the hash table. The reader-writer lock
  makes every operation atomic. Loading the table from the segment files is in the theory
  \<open>Recovery\<close>.
\<close>

section \<open>Callbacks and operations\<close>

definition racs_offsets_hash :: "racs_key \<Rightarrow> racs_uint64" where
  "racs_offsets_hash key = fst (murmur3_x64_128 (key_bytes key) 0)"

definition racs_offsets_cmp :: "racs_key \<Rightarrow> racs_key \<Rightarrow> bool" where
  "racs_offsets_cmp a b \<longleftrightarrow> fst a = fst b"

definition RACS_MAX_OFFSETS :: nat where
  "RACS_MAX_OFFSETS = 1048576"

type_synonym racs_offsets = "(racs_key, racs_uint64) racs_kvstore"

text \<open>\<open>racs_offsets_create\<close>; the capacity is a parameter so that concrete tables stay small.\<close>

definition racs_offsets_kv :: "nat \<Rightarrow> racs_offsets" where
  "racs_offsets_kv cap = racs_kvstore_create cap racs_offsets_hash racs_offsets_cmp"

definition racs_offsets_create :: racs_offsets where
  "racs_offsets_create = racs_offsets_kv RACS_MAX_OFFSETS"

definition racs_offsets_get :: "racs_offsets \<Rightarrow> racs_uint64 \<Rightarrow> racs_uint64 option" where
  "racs_offsets_get offsets stream_id =
     do { offset \<leftarrow> racs_kvstore_get offsets (stream_id, 0);
          Some (case offset of None \<Rightarrow> 0 | Some v \<Rightarrow> v) }"

definition racs_offsets_put :: "racs_offsets \<Rightarrow> racs_uint64 \<Rightarrow> racs_uint64 \<Rightarrow> racs_offsets option" where
  "racs_offsets_put offsets stream_id offset =
     map_option fst (racs_kvstore_put offsets (stream_id, 0) offset)"

text \<open>The entries whose key and value \<open>racs_offsets_destroy_entry\<close> frees.\<close>

definition racs_offsets_destroy :: "racs_offsets \<Rightarrow> (racs_key \<times> racs_uint64) list" where
  "racs_offsets_destroy offsets = racs_kvstore_destroy offsets"

section \<open>The table is a total function on stream ids\<close>

definition stream_key :: "racs_key \<Rightarrow> bool" where
  "stream_key k \<longleftrightarrow> snd k = 0"

interpretation ofs: kv_callbacks stream_key racs_offsets_hash racs_offsets_cmp racs_offsets_kv
  by unfold_locales
     (auto simp: racs_offsets_cmp_def stream_key_def racs_offsets_kv_def racs_offsets_hash_def
       prod_eq_iff intro!: arg_cong [of _ _ fst] arg_cong2 [of _ _ _ _ murmur3_x64_128]
       arg_cong [of _ _ key_bytes])

definition offsets_inv :: "racs_offsets \<Rightarrow> bool" where
  "offsets_inv offsets \<longleftrightarrow> kv_wf stream_key racs_offsets_hash racs_offsets_cmp offsets"

definition offset_of :: "racs_offsets \<Rightarrow> racs_uint64 \<Rightarrow> racs_uint64" where
  "offset_of offsets stream_id = (case kv_lookup offsets (stream_id, 0) of None \<Rightarrow> 0 | Some v \<Rightarrow> v)"

text \<open>What the writers of the table rely on: a total map from stream ids to offsets.\<close>

locale offset_table =
  fixes inv :: "'s \<Rightarrow> bool"
    and cur :: "'s \<Rightarrow> racs_uint64 \<Rightarrow> racs_uint64"
    and rd :: "'s \<Rightarrow> racs_uint64 \<Rightarrow> racs_uint64 option"
    and wr :: "'s \<Rightarrow> racs_uint64 \<Rightarrow> racs_uint64 \<Rightarrow> 's option"
  assumes rd_cur: "inv s \<Longrightarrow> rd s i = Some (cur s i)"
    and wr_cur: "inv s \<Longrightarrow> \<exists>s'. wr s i x = Some s' \<and> inv s' \<and> cur s' = (cur s)(i := x)"
begin

text \<open>Applying a list of writes never fails and leaves the last value written to each id.\<close>

fun writes :: "(racs_uint64 \<times> racs_uint64) list \<Rightarrow> 's \<Rightarrow> 's option" where
  "writes [] s = Some s"
| "writes ((i, x) # ws) s = do { s' \<leftarrow> wr s i x; writes ws s' }"

lemma writes_cur:
  "inv s \<Longrightarrow> \<exists>s'. writes ws s = Some s' \<and> inv s' \<and>
     cur s' = (\<lambda>i. case map_of (rev ws) i of None \<Rightarrow> cur s i | Some x \<Rightarrow> x)"
proof (induction ws arbitrary: s)
  case Nil
  then show ?case by simp
next
  case (Cons w ws)
  obtain i x where w: "w = (i, x)" by fastforce
  obtain s1 where s1: "wr s i x = Some s1" "inv s1" "cur s1 = (cur s)(i := x)"
    using wr_cur [OF Cons.prems] by blast
  obtain s' where "writes ws s1 = Some s'" "inv s'"
    "cur s' = (\<lambda>i. case map_of (rev ws) i of None \<Rightarrow> cur s1 i | Some x \<Rightarrow> x)"
    using Cons.IH [OF s1(2)] by blast
  with s1 w show ?case
    by (auto simp: fun_eq_iff map_add_def split: option.splits)
qed

end

lemma offsets_get_eq: "offsets_inv s \<Longrightarrow> racs_offsets_get s i = Some (offset_of s i)"
  by (simp add: racs_offsets_get_def offsets_inv_def ofs.get_lookup offset_of_def)

lemma offsets_put_eq:
  assumes "offsets_inv s"
  shows "\<exists>s'. racs_offsets_put s i x = Some s' \<and> offsets_inv s' \<and>
    offset_of s' = (offset_of s)(i := x)"
proof -
  have key: "stream_key (j, 0)" for j by (simp add: stream_key_def)
  from ofs.put_total [OF assms [unfolded offsets_inv_def] key, of i x] obtain s' freed where
    "racs_kvstore_put s (i, 0) x = Some (s', freed)"
    "kv_wf stream_key racs_offsets_hash racs_offsets_cmp s'"
    "\<And>k'. stream_key k' \<Longrightarrow>
       kv_lookup s' k' = (if racs_offsets_cmp (i, 0) k' then Some x else kv_lookup s k')" by blast
  with key show ?thesis
    by (auto simp: racs_offsets_put_def offsets_inv_def offset_of_def fun_eq_iff racs_offsets_cmp_def)
qed

interpretation ot: offset_table offsets_inv offset_of racs_offsets_get racs_offsets_put
  by unfold_locales (simp_all add: offsets_get_eq offsets_put_eq)

lemma offsets_create_inv: "0 < cap \<Longrightarrow> offsets_inv (racs_offsets_kv cap)"
  by (simp add: offsets_inv_def ofs.create_wf)

lemma offsets_create_cur: "0 < cap \<Longrightarrow> offset_of (racs_offsets_kv cap) = (\<lambda>_. 0)"
  by (simp add: fun_eq_iff offset_of_def ofs.create_lookup)

text \<open>The write history of a table, as a sequence of calls of \<open>racs_offsets_put\<close>.\<close>

fun offsets_history :: "(racs_uint64 \<times> racs_uint64) list \<Rightarrow> racs_offsets \<Rightarrow> racs_offsets option" where
  "offsets_history [] s = Some s"
| "offsets_history ((i, x) # ws) s = do { s' \<leftarrow> racs_offsets_put s i x; offsets_history ws s' }"

lemma offsets_history_writes: "offsets_history ws s = ot.writes ws s"
  by (induction ws arbitrary: s) (auto split: Option.bind_splits)

text \<open>
  C22: After any sequence of \<open>racs_offsets_put\<close> calls on a freshly created table, no call is undefined
  and \<open>racs_offsets_get\<close> returns for every stream the offset written last, or 0 if none was written,
  whatever hash collisions the ids have.
\<close>

theorem offsets_last_write:
  "do { s \<leftarrow> offsets_history ws racs_offsets_create; racs_offsets_get s i } =
     Some (case map_of (rev ws) i of None \<Rightarrow> 0 | Some x \<Rightarrow> x)"
proof -
  have cap: "0 < RACS_MAX_OFFSETS" by (simp add: RACS_MAX_OFFSETS_def)
  obtain s' where "ot.writes ws racs_offsets_create = Some s'" "offsets_inv s'"
    "offset_of s' = (\<lambda>i. case map_of (rev ws) i of None \<Rightarrow> 0 | Some x \<Rightarrow> x)"
    using ot.writes_cur [OF offsets_create_inv [OF cap], of ws, unfolded offsets_create_cur [OF cap]]
    unfolding racs_offsets_create_def by blast
  then show ?thesis
    by (simp add: offsets_history_writes offsets_get_eq)
qed

end
