(* ===== verification/Frame.thy ===== *)
theory Frame
  imports Crc32c
begin

text \<open>
  The stream protocol frames of \<^verbatim>\<open>src/src/frame.c\<close>. The parser reads a fixed header of 34 bytes and
  checks the block behind it against the checksum of the header; it is not given the length of the
  buffer, so a buffer shorter than the header, or than the block size in the header, is read past its
  end (\<open>None\<close>). The reference encoder \<open>frame_bytes\<close> lays out the fields as the protocol does.
\<close>

record racs_frame_header =
  chunk_id :: bytes
  session_id :: bytes
  stream_id :: racs_uint64
  frm_checksum :: racs_uint32
  frm_block_size :: racs_uint16
  frm_flags :: racs_uint8

record racs_frame =
  header :: racs_frame_header
  pcm_block :: bytes

definition racs_frame_header_parse :: "bytes \<Rightarrow> (racs_frame_header \<times> nat) option" where
  "racs_frame_header_parse buf =
     do { chunk \<leftarrow> read_bin buf 0 3;
          session \<leftarrow> read_bin buf 3 16;
          (sid, _) \<leftarrow> racs_read_uint64 buf 19;
          (chk, _) \<leftarrow> racs_read_uint32 buf 27;
          (bsz, _) \<leftarrow> racs_read_uint16 buf 31;
          fl \<leftarrow> read_byte buf 33;
          Some (\<lparr>chunk_id = chunk, session_id = session, stream_id = sid, frm_checksum = chk,
                 frm_block_size = bsz, frm_flags = fl\<rparr>, 34) }"

text \<open>\<open>pcm_block\<close> points into the buffer: it is modelled by the rest of the buffer from there.\<close>

definition racs_frame_parse :: "bytes \<Rightarrow> (bool \<times> racs_frame) option" where
  "racs_frame_parse buf =
     do { (h, offset) \<leftarrow> racs_frame_header_parse buf;
          let blk = drop offset buf;
          body \<leftarrow> read_bin blk 0 (unat (frm_block_size h));
          Some (crc32c_of body = frm_checksum h, \<lparr>header = h, pcm_block = blk\<rparr>) }"

text \<open>\<open>RACS_IS_FRAME\<close>: the first three bytes are \<open>"rsp"\<close>.\<close>

definition racs_is_frame :: "bytes \<Rightarrow> bool option" where
  "racs_is_frame buf = do { m \<leftarrow> read_bin buf 0 3; Some (m = [0x72, 0x73, 0x70]) }"

definition RACS_FLAG_COMPRESSED :: racs_uint8 where
  "RACS_FLAG_COMPRESSED = 1"

definition RACS_IS_COMPRESSED :: "racs_frame_header \<Rightarrow> bool" where
  "RACS_IS_COMPRESSED h \<longleftrightarrow> frm_flags h AND RACS_FLAG_COMPRESSED \<noteq> 0"

section \<open>The layout\<close>

definition frame_wf :: "racs_frame_header \<Rightarrow> bool" where
  "frame_wf h \<longleftrightarrow> length (chunk_id h) = 3 \<and> length (session_id h) = 16"

definition header_bytes :: "racs_frame_header \<Rightarrow> bytes" where
  "header_bytes h = chunk_id h @ session_id h @ le_bytes 8 (stream_id h) @ le_bytes 4 (frm_checksum h) @
     le_bytes 2 (frm_block_size h) @ [frm_flags h]"

definition frame_bytes :: "racs_frame_header \<Rightarrow> bytes \<Rightarrow> bytes" where
  "frame_bytes h pcm = header_bytes h @ pcm"

lemma length_header_bytes [simp]: "frame_wf h \<Longrightarrow> length (header_bytes h) = 34"
  by (simp add: header_bytes_def frame_wf_def)

lemma read_bin_at [codec_simps]:
  "length p = off \<Longrightarrow> length d = n \<Longrightarrow> xs = p @ d @ q \<Longrightarrow> read_bin xs off n = Some d"
  by (auto simp: read_bin_def)

lemma header_parse_bytes:
  assumes "frame_wf h"
  shows "racs_frame_header_parse (header_bytes h @ q) = Some (h, 34)"
proof -
  let ?b = "header_bytes h @ q"
  have "read_bin ?b 0 3 = Some (chunk_id h)" "read_bin ?b 3 16 = Some (session_id h)"
    using assms by (auto simp: header_bytes_def frame_wf_def read_bin_def)
  moreover have "racs_read_uint64 ?b 19 = Some (stream_id h, 27)"
    using assms u64.read_append [of 19 "chunk_id h @ session_id h" "stream_id h"]
    by (simp add: header_bytes_def frame_wf_def)
  moreover have "racs_read_uint32 ?b 27 = Some (frm_checksum h, 31)"
    using assms u32.read_append [of 27 "chunk_id h @ session_id h @ le_bytes 8 (stream_id h)" "frm_checksum h"]
    by (simp add: header_bytes_def frame_wf_def)
  moreover have "racs_read_uint16 ?b 31 = Some (frm_block_size h, 33)"
    using assms u16.read_append [of 31 "chunk_id h @ session_id h @ le_bytes 8 (stream_id h) @
        le_bytes 4 (frm_checksum h)" "frm_block_size h"]
    by (simp add: header_bytes_def frame_wf_def)
  moreover have "read_byte ?b 33 = Some (frm_flags h)"
    using assms read_byte_append [of 33 "chunk_id h @ session_id h @ le_bytes 8 (stream_id h) @
        le_bytes 4 (frm_checksum h) @ le_bytes 2 (frm_block_size h)" "frm_flags h"]
    by (simp add: header_bytes_def frame_wf_def)
  ultimately show ?thesis by (simp add: racs_frame_header_parse_def)
qed

lemma frame_parse_bytes:
  assumes "frame_wf h" "length pcm = unat (frm_block_size h)"
  shows "racs_frame_parse (frame_bytes h pcm @ q) =
    Some (crc32c_of pcm = frm_checksum h, \<lparr>header = h, pcm_block = pcm @ q\<rparr>)"
  using assms header_parse_bytes [OF assms(1), of "pcm @ q"]
  by (simp add: racs_frame_parse_def frame_bytes_def read_bin_def)

text \<open>Whatever the parser reads is the layout of what it returns.\<close>

lemma read_uint_slice:
  "racs_read_uint64 buf i = Some (x, j) \<Longrightarrow> slice i 8 buf = le_bytes 8 x"
  "racs_read_uint32 buf i = Some (y, j) \<Longrightarrow> slice i 4 buf = le_bytes 4 y"
  "racs_read_uint16 buf i = Some (z, j) \<Longrightarrow> slice i 2 buf = le_bytes 2 z"
  by (auto simp: racs_read_uint64_def racs_read_uint32_def racs_read_uint16_def split: if_splits)

lemma slices_concat:
  "i + n \<le> length xs \<Longrightarrow> slice i n xs @ slice (i + n) m xs = slice i (n + m) xs"
  by (simp add: slice_def take_add add.commute [of n i])

lemma header_parse_layout:
  assumes "racs_frame_header_parse buf = Some (h, off)"
  shows "frame_wf h" "off = 34" "take 34 buf = header_bytes h"
proof -
  from assms have len: "34 \<le> length buf" and off: "off = 34"
    and f: "chunk_id h = slice 0 3 buf" "session_id h = slice 3 16 buf"
      "le_bytes 8 (stream_id h) = slice 19 8 buf" "le_bytes 4 (frm_checksum h) = slice 27 4 buf"
      "le_bytes 2 (frm_block_size h) = slice 31 2 buf" "frm_flags h = buf ! 33"
    by (auto simp: racs_frame_header_parse_def read_bin_def read_byte_def read_uint_slice
        split: Option.bind_splits if_splits)
  have "[buf ! 33] = slice 33 1 buf"
    using len by (simp add: slice_def take_Suc_conv_app_nth hd_drop_conv_nth)
  then have "header_bytes h = slice 0 3 buf @ slice 3 16 buf @ slice 19 8 buf @ slice 27 4 buf @
      slice 31 2 buf @ slice 33 1 buf"
    by (simp add: header_bytes_def f)
  also have "\<dots> = slice 0 34 buf"
    using len slices_concat [of 31 2 buf 1] slices_concat [of 27 4 buf 3] slices_concat [of 19 8 buf 7]
      slices_concat [of 3 16 buf 15] slices_concat [of 0 3 buf 31] by simp
  finally show "take 34 buf = header_bytes h" by (simp add: slice_def)
  show "frame_wf h" using len by (simp add: frame_wf_def f)
  show "off = 34" by (rule off)
qed

lemma frame_parse_layout:
  assumes "racs_frame_parse buf = Some (ok, f)"
  shows "\<exists>pcm q. buf = frame_bytes (header f) pcm @ q \<and> frame_wf (header f) \<and>
    length pcm = unat (frm_block_size (header f)) \<and> pcm_block f = pcm @ q \<and>
    ok = (crc32c_of pcm = frm_checksum (header f))"
proof -
  from assms obtain h off where h': "racs_frame_header_parse buf = Some (h, off)"
    by (auto simp: racs_frame_parse_def elim!: bind_eq_SomeE)
  then have h: "racs_frame_header_parse buf = Some (h, 34)"
    using header_parse_layout(2) by simp
  have len: "unat (frm_block_size h) \<le> length (drop 34 buf)"
    and f: "ok = (crc32c_of (take (unat (frm_block_size h)) (drop 34 buf)) = frm_checksum h)"
      "f = \<lparr>header = h, pcm_block = drop 34 buf\<rparr>"
    using assms h by (auto simp: racs_frame_parse_def read_bin_def slice_def Let_def split: if_splits)
  note l = header_parse_layout [OF h]
  define pcm where "pcm = take (unat (frm_block_size h)) (drop 34 buf)"
  define q where "q = drop (unat (frm_block_size h)) (drop 34 buf)"
  have pq: "drop 34 buf = pcm @ q" by (simp add: pcm_def q_def del: drop_drop)
  have "take 34 buf @ drop 34 buf = frame_bytes h pcm @ q"
    unfolding pq l(3) frame_bytes_def by simp
  then have "buf = frame_bytes h pcm @ q" by simp
  moreover have "length pcm = unat (frm_block_size h)" using len by (simp add: pcm_def)
  moreover have "header f = h" "pcm_block f = pcm @ q" by (simp_all add: f(2) pq)
  moreover have "ok = (crc32c_of pcm = frm_checksum h)" by (simp only: f(1) pcm_def)
  ultimately have "buf = frame_bytes (header f) pcm @ q \<and> frame_wf (header f) \<and>
      length pcm = unat (frm_block_size (header f)) \<and> pcm_block f = pcm @ q \<and>
      ok = (crc32c_of pcm = frm_checksum (header f))"
    using l(1) by (simp only: simp_thms)
  then show ?thesis by blast
qed

text \<open>
  C19: The parser accepts a buffer exactly when it starts with the layout of a frame whose block has the
  announced size and checksum, and it then returns the fields of that frame.
\<close>

theorem frame_parse_accepts_iff:
  "racs_frame_parse buf = Some (True, f) \<longleftrightarrow>
     (\<exists>pcm q. buf = frame_bytes (header f) pcm @ q \<and> frame_wf (header f) \<and>
        length pcm = unat (frm_block_size (header f)) \<and> pcm_block f = pcm @ q \<and>
        crc32c_of pcm = frm_checksum (header f))"
  using frame_parse_layout [of buf True f] frame_parse_bytes [of "header f"] by force

text \<open>
  C20: A frame whose block was damaged within four consecutive bytes, header intact, is refused by the
  parser: it returns 0 and does not read outside the frame.
\<close>

theorem frame_damage_refused:
  assumes "frame_wf h" "frm_checksum h = crc32c_of (p @ u @ q)"
    and "unat (frm_block_size h) = length (p @ u @ q)"
    and "length u = 4" "length v = 4" "u \<noteq> v"
  shows "map_option fst (racs_frame_parse (frame_bytes h (p @ v @ q))) = Some False"
  using frame_parse_bytes [of h "p @ v @ q" "[]"] crc32c_of_burst [OF assms(4-6), of p q] assms
  by simp

definition example_header :: racs_frame_header where
  "example_header = \<lparr>chunk_id = [0x72, 0x73, 0x70], session_id = replicate 16 7, stream_id = 42,
     frm_checksum = crc32c_of [1, 2, 3, 4, 5, 6], frm_block_size = 6, frm_flags = 0\<rparr>"

theorem frame_damage_refused_witness:
  "map_option fst (racs_frame_parse (frame_bytes example_header ([1] @ [2, 3, 4, 9] @ [6]))) = Some False"
  by (rule frame_damage_refused [of _ _ "[2, 3, 4, 5]"]) (simp_all add: example_header_def frame_wf_def)

text \<open>
  The parser reads outside its buffer exactly when the buffer is shorter than the fixed header or
  than the header and the block size it announces.
\<close>

theorem frame_parse_overread_iff:
  "racs_frame_parse buf = None \<longleftrightarrow>
     length buf < 34 \<or> length buf < 34 + unat (of_le_bytes (slice 31 2 buf) :: racs_uint16)"
  by (auto simp: racs_frame_parse_def racs_frame_header_parse_def read_bin_def read_byte_def
      racs_read_uint64_def racs_read_uint32_def racs_read_uint16_def Let_def split: if_splits)

end
