(* ===== verification/Stream.thy ===== *)
theory Stream
  imports Metadata Offsets Frame
begin

text \<open>
  Streams, \<^verbatim>\<open>src/src/stream.c\<close>: the table of open streams and their sessions, creating a stream, and
  appending a frame, which goes through the frame parser, the session check, the metadata, the offset
  table, the log and the in-memory tables. The decompressor of the zstd library is a parameter. The
  reader-writer lock of the table makes each of its operations atomic; one append is one step here.
\<close>

section \<open>Sessions\<close>

definition racs_streamkv_hash :: "racs_key \<Rightarrow> racs_uint64" where
  "racs_streamkv_hash key = fst (murmur3_x64_128 (key_bytes key) 0)"

definition racs_streamkv_cmp :: "racs_key \<Rightarrow> racs_key \<Rightarrow> bool" where
  "racs_streamkv_cmp a b \<longleftrightarrow> fst a = fst b"

type_synonym racs_streamkv = "(racs_key, bytes) racs_kvstore"

definition racs_streamkv_create :: "nat \<Rightarrow> racs_streamkv" where
  "racs_streamkv_create capacity = racs_kvstore_create capacity racs_streamkv_hash racs_streamkv_cmp"

definition racs_streamkv_get :: "racs_streamkv \<Rightarrow> racs_uint64 \<Rightarrow> bytes option option" where
  "racs_streamkv_get kv sid = racs_kvstore_get kv (sid, 0)"

definition racs_streamkv_put :: "racs_streamkv \<Rightarrow> racs_uint64 \<Rightarrow> bytes \<Rightarrow> racs_streamkv option" where
  "racs_streamkv_put kv sid ses =
     do { s \<leftarrow> read_bin ses 0 16; map_option fst (racs_kvstore_put kv (sid, 0) s) }"

definition racs_streamkv_delete :: "racs_streamkv \<Rightarrow> racs_uint64 \<Rightarrow> racs_streamkv option" where
  "racs_streamkv_delete kv sid = map_option fst (racs_kvstore_delete kv (sid, 0))"

text \<open>The entries whose key and value \<open>racs_streamkv_destroy_entry\<close> frees.\<close>

definition racs_streamkv_destroy :: "racs_streamkv \<Rightarrow> (racs_key \<times> bytes) list" where
  "racs_streamkv_destroy kv = racs_kvstore_destroy kv"

definition racs_session_cmp :: "bytes \<Rightarrow> bytes \<Rightarrow> bool" where
  "racs_session_cmp src dest \<longleftrightarrow> dest = replicate 16 0 \<or> src = dest"

definition racs_stream_open :: "racs_streamkv \<Rightarrow> racs_uint64 \<Rightarrow> (bool \<times> racs_streamkv) option" where
  "racs_stream_open kv sid =
     do { ses \<leftarrow> racs_streamkv_get kv sid;
          case ses of
            Some _ \<Rightarrow> Some (False, kv)
          | None \<Rightarrow> map_option (Pair True) (racs_streamkv_put kv sid (replicate 16 0)) }"

definition racs_stream_close :: "racs_streamkv \<Rightarrow> racs_uint64 \<Rightarrow> (bool \<times> racs_streamkv) option" where
  "racs_stream_close kv sid =
     do { ses \<leftarrow> racs_streamkv_get kv sid;
          case ses of
            None \<Rightarrow> Some (False, kv)
          | Some _ \<Rightarrow> map_option (Pair True) (racs_streamkv_delete kv sid) }"

section \<open>Appending\<close>

datatype racs_stream_status =
  RACS_STREAM_OK | RACS_STREAM_MALFORMED | RACS_STREAM_CONFLICT | RACS_STREAM_NOT_FOUND

record server =
  sv_store :: store
  sv_wal :: racs_wal
  sv_offsets :: racs_offsets
  sv_kv :: racs_streamkv
  sv_md :: md_files

text \<open>The configuration globals: \<open>racs_metadata_dir\<close> and \<open>racs_wal_fsync\<close>.\<close>

record config =
  cf_dir :: string
  cf_fsync :: int

text \<open>How far the offset of a stream moves for a block.\<close>

definition block_advance :: "(bytes \<Rightarrow> bytes option) \<Rightarrow> racs_uint8 \<Rightarrow> bytes \<Rightarrow> racs_uint16 \<Rightarrow> racs_uint64" where
  "block_advance zstd_decompress flags blk block_size =
     (if flags = 1
      then (case zstd_decompress (take (unat block_size) blk) of None \<Rightarrow> 0 | Some d \<Rightarrow> of_nat (length d))
      else ucast block_size)"

definition racs_stream_append :: "config \<Rightarrow> (bytes \<Rightarrow> bytes option) \<Rightarrow> bytes \<Rightarrow> server
    \<Rightarrow> (racs_stream_status \<times> server) option" where
  "racs_stream_append cf zstd_decompress data sv =
     do { (ok, frame) \<leftarrow> racs_frame_parse data;
          let h = header frame;
          if \<not> ok then Some (RACS_STREAM_MALFORMED, sv)
          else do { session \<leftarrow> racs_streamkv_get (sv_kv sv) (stream_id h);
            case session of
              None \<Rightarrow> Some (RACS_STREAM_CONFLICT, sv)
            | Some ses \<Rightarrow>
                if \<not> racs_session_cmp (session_id h) ses then Some (RACS_STREAM_CONFLICT, sv)
                else do { md \<leftarrow> racs_metadata_get (cf_dir cf) (sv_md sv) (stream_id h);
                  case md of
                    None \<Rightarrow> Some (RACS_STREAM_NOT_FOUND, sv)
                  | Some metadata \<Rightarrow>
                      do { kv \<leftarrow> racs_streamkv_put (sv_kv sv) (stream_id h) (session_id h);
                           offset \<leftarrow> racs_offsets_get (sv_offsets sv) (stream_id h);
                           timestamp \<leftarrow> racs_metadata_timestamp metadata offset;
                           (wal, dir) \<leftarrow> racs_wal_append (cf_fsync cf) RACS_OP_CODE_APPEND
                                          (34 + unat (frm_block_size h)) data (sv_wal sv, st_wal (sv_store sv));
                           st \<leftarrow> racs_multi_memtable_append (stream_id h, timestamp) (pcm_block frame)
                                   (frm_block_size h) (frm_checksum h) (frm_flags h) (wal_lsn wal)
                                   ((sv_store sv)\<lparr>st_wal := dir\<rparr>);
                           offsets \<leftarrow> racs_offsets_put (sv_offsets sv) (stream_id h)
                                       (offset + block_advance zstd_decompress (frm_flags h) (pcm_block frame) (frm_block_size h));
                           Some (RACS_STREAM_OK, sv\<lparr>sv_store := st, sv_wal := wal, sv_offsets := offsets, sv_kv := kv\<rparr>) } } } }"

text \<open>
  \<open>racs_stream_batch_append\<close> ignores the status of each frame. The elements of the unpacked array are
  the argument.
\<close>

fun racs_stream_batch_append :: "config \<Rightarrow> (bytes \<Rightarrow> bytes option) \<Rightarrow> bytes list \<Rightarrow> server \<Rightarrow> server option" where
  "racs_stream_batch_append cf zstd_decompress [] sv = Some sv"
| "racs_stream_batch_append cf zstd_decompress (frame # frames) sv =
     do { (_, sv) \<leftarrow> racs_stream_append cf zstd_decompress frame sv;
          racs_stream_batch_append cf zstd_decompress frames sv }"

section \<open>Creating\<close>

text \<open>
  The new record, or the return code 0 when the stream exists. \<open>now\<close> is the clock. The bytes of the
  record are written to a buffer that is then dropped; \<open>racs_metadata_put\<close> writes them again.
\<close>

definition racs_stream_create :: "seg_io \<Rightarrow> config \<Rightarrow> racs_int64 \<Rightarrow> string \<Rightarrow> racs_uint32 \<Rightarrow> racs_uint16 \<Rightarrow> racs_uint16
    \<Rightarrow> md_files \<Rightarrow> (bool \<times> md_files) option" where
  "racs_stream_create io cf now name sample_rate channels bit_depth files =
     do { let metadata = \<lparr>md_channels = channels, md_bit_depth = bit_depth, md_sample_rate = sample_rate,
                          md_ref = now, md_ttl = - 1, md_id_size = of_nat (length name) + 1, md_id = name\<rparr>;
          let hash = racs_hash name;
          existing \<leftarrow> racs_metadata_get (cf_dir cf) files hash;
          case existing of
            Some _ \<Rightarrow> Some (False, files)
          | None \<Rightarrow>
              do { _ \<leftarrow> racs_metadata_write (map (io_garbage io) [0..<racs_metadata_size metadata]) metadata;
                   (_, files) \<leftarrow> racs_metadata_put io (cf_dir cf) files metadata hash;
                   Some (True, files) } }"

section \<open>The table of sessions\<close>

interpretation sks: kv_callbacks stream_key racs_streamkv_hash racs_streamkv_cmp racs_streamkv_create
  by unfold_locales
     (auto simp: racs_streamkv_cmp_def stream_key_def racs_streamkv_create_def racs_streamkv_hash_def
       prod_eq_iff intro!: arg_cong [of _ _ fst] arg_cong2 [of _ _ _ _ murmur3_x64_128]
       arg_cong [of _ _ key_bytes])

definition kv_inv :: "racs_streamkv \<Rightarrow> bool" where
  "kv_inv kv \<longleftrightarrow> kv_wf stream_key racs_streamkv_hash racs_streamkv_cmp kv"

definition session_of :: "racs_streamkv \<Rightarrow> racs_uint64 \<Rightarrow> bytes option" where
  "session_of kv i = kv_lookup kv (i, 0)"

lemma stream_key_pair: "stream_key (i, 0)"
  by (simp add: stream_key_def)

lemma streamkv_get_eq: "kv_inv kv \<Longrightarrow> racs_streamkv_get kv i = Some (session_of kv i)"
  by (simp add: racs_streamkv_get_def kv_inv_def sks.get_lookup session_of_def)

lemma streamkv_put_eq:
  assumes "kv_inv kv" "length s = 16"
  shows "\<exists>kv'. racs_streamkv_put kv i s = Some kv' \<and> kv_inv kv' \<and> session_of kv' = (session_of kv)(i \<mapsto> s)"
proof -
  obtain kv' freed where "racs_kvstore_put kv (i, 0) s = Some (kv', freed)"
    "kv_wf stream_key racs_streamkv_hash racs_streamkv_cmp kv'"
    "\<And>k'. stream_key k' \<Longrightarrow> kv_lookup kv' k' = (if racs_streamkv_cmp (i, 0) k' then Some s else kv_lookup kv k')"
    using sks.put_total [OF assms(1) [unfolded kv_inv_def] stream_key_pair, of i s] by blast
  moreover have "read_bin s 0 16 = Some s" using assms(2) by (simp add: read_bin_def slice_def)
  ultimately show ?thesis
    by (auto simp: racs_streamkv_put_def kv_inv_def session_of_def fun_eq_iff racs_streamkv_cmp_def stream_key_def)
qed

lemma streamkv_delete_eq:
  assumes "kv_inv kv"
  shows "\<exists>kv'. racs_streamkv_delete kv i = Some kv' \<and> kv_inv kv' \<and> session_of kv' = (session_of kv)(i := None)"
proof -
  obtain kv' freed where "racs_kvstore_delete kv (i, 0) = Some (kv', freed)"
    "kv_wf stream_key racs_streamkv_hash racs_streamkv_cmp kv'"
    "\<forall>k'. stream_key k' \<longrightarrow> kv_lookup kv' k' = (if racs_streamkv_cmp (i, 0) k' then None else kv_lookup kv k')"
    using sks.delete_correct [OF assms [unfolded kv_inv_def] stream_key_pair, of i] by blast
  then show ?thesis
    by (auto simp: racs_streamkv_delete_def kv_inv_def session_of_def fun_eq_iff racs_streamkv_cmp_def stream_key_def)
qed

section \<open>What an append does\<close>

lemma frame_session_length:
  "racs_frame_parse data = Some (ok, frame) \<Longrightarrow> length (session_id (header frame)) = 16"
  by (auto simp: racs_frame_parse_def racs_frame_header_parse_def read_bin_def Let_def split: if_splits
      elim!: bind_eq_SomeE)

lemma stream_append_session:
  assumes "racs_stream_append cf z data sv = Some (status, sv')" "kv_inv (sv_kv sv)"
    and "racs_frame_parse data = Some (ok, frame)"
  shows "kv_inv (sv_kv sv') \<and>
    (if status = RACS_STREAM_OK
     then session_of (sv_kv sv') = (session_of (sv_kv sv))(stream_id (header frame) \<mapsto> session_id (header frame)) \<and>
       (\<exists>s. session_of (sv_kv sv) (stream_id (header frame)) = Some s \<and> racs_session_cmp (session_id (header frame)) s)
     else sv' = sv)"
proof -
  let ?h = "header frame"
  obtain kv' where kv': "racs_streamkv_put (sv_kv sv) (stream_id ?h) (session_id ?h) = Some kv'" "kv_inv kv'"
    "session_of kv' = (session_of (sv_kv sv))(stream_id ?h \<mapsto> session_id ?h)"
    using streamkv_put_eq [OF assms(2) frame_session_length [OF assms(3)]] by blast
  show ?thesis
    using assms kv' unfolding racs_stream_append_def
    by (auto simp: Let_def streamkv_get_eq split: if_splits option.splits prod.splits elim!: bind_eq_SomeE)
qed

text \<open>Requests on streams, in any order.\<close>

datatype request = Append bytes | Open racs_uint64 | Close racs_uint64

definition serve :: "config \<Rightarrow> (bytes \<Rightarrow> bytes option) \<Rightarrow> request \<Rightarrow> server \<Rightarrow> (bool \<times> server) option" where
  "serve cf z r sv =
     (case r of
        Append data \<Rightarrow> do { (status, sv) \<leftarrow> racs_stream_append cf z data sv; Some (status = RACS_STREAM_OK, sv) }
      | Open sid \<Rightarrow> do { (ok, kv) \<leftarrow> racs_stream_open (sv_kv sv) sid; Some (ok, sv\<lparr>sv_kv := kv\<rparr>) }
      | Close sid \<Rightarrow> do { (ok, kv) \<leftarrow> racs_stream_close (sv_kv sv) sid; Some (ok, sv\<lparr>sv_kv := kv\<rparr>) })"

fun serve_all :: "config \<Rightarrow> (bytes \<Rightarrow> bytes option) \<Rightarrow> request list \<Rightarrow> server \<Rightarrow> ((request \<times> bool) list \<times> server) option" where
  "serve_all cf z [] sv = Some ([], sv)"
| "serve_all cf z (r # rs) sv =
     do { (ok, sv) \<leftarrow> serve cf z r sv; (oks, sv) \<leftarrow> serve_all cf z rs sv; Some ((r, ok) # oks, sv) }"

text \<open>The frame of an append request belongs to the stream and carries the session.\<close>

definition append_of :: "request \<Rightarrow> racs_uint64 \<Rightarrow> bytes \<Rightarrow> bool" where
  "append_of r sid ses \<longleftrightarrow>
     (\<exists>data ok frame. r = Append data \<and> racs_frame_parse data = Some (ok, frame) \<and>
        stream_id (header frame) = sid \<and> session_id (header frame) = ses)"

lemma serve_session:
  assumes "serve cf z r sv = Some (ok, sv')" "kv_inv (sv_kv sv)" "session_of (sv_kv sv) sid = Some ses"
    "ses \<noteq> replicate 16 0" "r \<noteq> Close sid"
  shows "kv_inv (sv_kv sv') \<and> session_of (sv_kv sv') sid = Some ses \<and>
    (\<forall>ses'. append_of r sid ses' \<longrightarrow> ses' \<noteq> ses \<longrightarrow> \<not> ok)"
proof (cases r)
  case (Append data)
  then obtain status where a: "racs_stream_append cf z data sv = Some (status, sv')" "ok = (status = RACS_STREAM_OK)"
    using assms(1) by (auto simp: serve_def elim!: bind_eq_SomeE)
  then obtain pok frame where f: "racs_frame_parse data = Some (pok, frame)"
    by (auto simp: racs_stream_append_def elim!: bind_eq_SomeE)
  from stream_append_session [OF a(1) assms(2) f] show ?thesis
    using a(2) assms(3,4) f Append
    by (cases "status = RACS_STREAM_OK") (auto simp: append_of_def racs_session_cmp_def)
next
  case (Open i)
  have len: "length (replicate 16 (0 :: racs_uint8)) = 16" by simp
  from streamkv_put_eq [OF assms(2) len, of i] show ?thesis
    using assms Open
    by (auto simp: serve_def racs_stream_open_def streamkv_get_eq append_of_def split: option.splits)
next
  case (Close i)
  with streamkv_delete_eq [OF assms(2), of i] show ?thesis
    using assms
    by (auto simp: serve_def racs_stream_close_def streamkv_get_eq append_of_def split: option.splits)
qed

lemma serve_all_session:
  "serve_all cf z rs sv = Some (oks, sv') \<Longrightarrow> kv_inv (sv_kv sv) \<Longrightarrow> session_of (sv_kv sv) sid = Some ses \<Longrightarrow>
   ses \<noteq> replicate 16 0 \<Longrightarrow> Close sid \<notin> set rs \<Longrightarrow>
   session_of (sv_kv sv') sid = Some ses \<and>
     (\<forall>(r, ok)\<in>set oks. \<forall>ses'. append_of r sid ses' \<longrightarrow> ses' \<noteq> ses \<longrightarrow> \<not> ok)"
proof (induction rs arbitrary: sv oks)
  case Nil
  then show ?case by auto
next
  case (Cons r rs)
  then obtain ok sv1 oks1 where s: "serve cf z r sv = Some (ok, sv1)" "serve_all cf z rs sv1 = Some (oks1, sv')"
    "oks = (r, ok) # oks1" by (auto elim!: bind_eq_SomeE)
  have "r \<noteq> Close sid" using Cons.prems by auto
  note h = serve_session [OF s(1) Cons.prems(2-4) this]
  with Cons.IH [OF s(2)] Cons.prems h s(3) show ?case by auto
qed

text \<open>
  C17: A stream belongs to one session at a time, once a session has claimed it: after an accepted append whose
  session id is not sixteen zero bytes, no request until the stream is closed changes the session it is bound to,
  whatever appends, opens and closes of other streams follow, and every append to the stream that carries
  another session id is refused. (Sixteen zero bytes are the mark of a stream that no session has claimed: an
  accepted append with that id leaves the stream unclaimed, so the next append may carry any id.)
\<close>

theorem session_exclusive:
  assumes "kv_inv (sv_kv sv)" "racs_frame_parse data = Some (ok, frame)"
    and "racs_stream_append cf z data sv = Some (RACS_STREAM_OK, sv1)"
    and "session_id (header frame) \<noteq> replicate 16 0"
    and "serve_all cf z rs sv1 = Some (oks, sv2)" "Close (stream_id (header frame)) \<notin> set rs"
  shows "session_of (sv_kv sv2) (stream_id (header frame)) = Some (session_id (header frame)) \<and>
    (\<forall>(r, done)\<in>set oks. \<forall>ses. append_of r (stream_id (header frame)) ses \<longrightarrow> ses \<noteq> session_id (header frame) \<longrightarrow> \<not> done)"
  using stream_append_session [OF assms(3,1,2)] serve_all_session [OF assms(5) _ _ assms(4,6)] by auto

text \<open>The invariant of a server that can rotate its log \<open>n\<close> times before the segment numbers run out.\<close>

definition sv_inv :: "config \<Rightarrow> int \<Rightarrow> nat \<Rightarrow> server \<Rightarrow> bool" where
  "sv_inv cf capacity n sv \<longleftrightarrow> kv_inv (sv_kv sv) \<and> offsets_inv (sv_offsets sv) \<and>
     (word_of_int (cf_fsync cf) :: racs_uint64) \<noteq> 0 \<and> cap_ok capacity \<and>
     (\<exists>lg fl. mm_inv capacity lg fl (sv_store sv)) \<and>
     (\<exists>ss. wal_inv ss (sv_wal sv, st_wal (sv_store sv)) \<and> recs_wf (seg_records ss) \<and>
        pending_bound (word_of_int (cf_fsync cf)) ss (sv_wal sv) \<and> unat (fst (last ss)) + n < 2 ^ 64)"

lemma memtable_append_fields:
  "racs_memtable_append a key block bs ck fl lsn st = Some st' \<Longrightarrow>
   st_wal st' = st_wal st \<and> st_segs st' = st_segs st \<and> st_mmt st' = st_mmt st \<and>
   (\<exists>m. st_heap st' a = Some m \<and> mt_entries m \<noteq> [] \<and> last (mt_entries m) = mk_entry key block bs ck fl lsn)"
  by (auto simp: racs_memtable_append_def mk_entry_def read_bin_def slice_def split: if_splits elim!: bind_eq_SomeE)

lemma move_to_head_fields:
  "racs_multi_memtable_move_to_head a st = Some st' \<Longrightarrow> st_wal st' = st_wal st \<and> st_segs st' = st_segs st"
  by (auto simp: racs_multi_memtable_move_to_head_def Let_def split: prod.splits elim!: bind_eq_SomeE)

lemma multi_append_fields:
  assumes "racs_multi_memtable_append key block bs ck fl lsn st = Some st'"
  shows "st_wal st' = st_wal st \<and> st_segs st' = st_segs st \<and>
    (\<exists>h m. mmt_head (st_mmt st') = Some h \<and> st_heap st' h = Some m \<and> mt_entries m \<noteq> [] \<and>
       last (mt_entries m) = mk_entry key block bs ck fl lsn)"
proof -
  obtain full st1 where b: "append_begin st = Some (full, st1)"
    "append_end key block bs ck fl lsn (full, st1) = Some st'"
    using assms by (auto simp: racs_multi_memtable_append_def elim!: bind_eq_SomeE)
  have st1: "st_wal st1 = st_wal st" "st_segs st1 = st_segs st"
    using b(1) by (auto simp: append_begin_def racs_memtable_flush_async_def Let_def split: if_splits elim!: bind_eq_SomeE)
  obtain st2 h where st2: "(case full of None \<Rightarrow> Some st1
      | Some capacity \<Rightarrow> let (a, st) = racs_memtable_create capacity st1 in racs_multi_memtable_move_to_head a st) = Some st2"
    "mmt_head (st_mmt st2) = Some h" "racs_memtable_append h key block bs ck fl lsn st2 = Some st'"
    using b(2) by (auto simp: append_end_def elim!: bind_eq_SomeE)
  have "st_wal st2 = st_wal st1" "st_segs st2 = st_segs st1"
    using st2(1) by (auto simp: racs_memtable_create_def Let_def dest: move_to_head_fields split: option.splits)
  with st1 memtable_append_fields [OF st2(3)] st2(2) show ?thesis by auto
qed

lemma mm_inv_wal [simp]: "mm_inv c lg fl (st\<lparr>st_wal := w\<rparr>) = mm_inv c lg fl st"
  by (simp add: mm_inv_def entries_at_def)

lemma wal_record_buf_take:
  "wal_record_buf c sz op lsn = wal_record_buf c sz (take sz op) lsn" if "sz \<le> length op"
proof -
  have "sz \<le> length op" by (rule that)
  then have w: "racs_write_bin buf op (int sz) off = racs_write_bin buf (take sz op) (int sz) off" for buf off
    unfolding racs_write_bin_def nat_int by (auto simp: min_def)
  show ?thesis unfolding wal_record_buf_def w by (simp add: read_bin_def slice_def)
qed

lemma wal_append_take: "sz \<le> length op \<Longrightarrow> racs_wal_append k c sz op s = racs_wal_append k c sz (take sz op) s"
  using wal_record_buf_take [of sz op c "wal_lsn (fst s)"] by (simp add: racs_wal_append_def)

lemma wal_append_server:
  assumes inv: "sv_inv cf capacity (Suc n) sv" and sz: "sz \<le> length op" "sz < 2 ^ 60"
  obtains wal dir ss ss' where
    "racs_wal_append (cf_fsync cf) c sz op (sv_wal sv, st_wal (sv_store sv)) = Some (wal, dir)"
    "wal_inv ss (sv_wal sv, st_wal (sv_store sv))" "recs_wf (seg_records ss)"
    "wal_inv ss' (wal, dir)" "seg_records ss' = seg_records ss @ [(c, take sz op, wal_lsn (sv_wal sv))]"
    "wal_lsn wal = wal_lsn (sv_wal sv) + 1" "pending_bound (word_of_int (cf_fsync cf)) ss' wal"
    "unat (fst (last ss')) + n < 2 ^ 64"
proof -
  obtain ss where ss: "wal_inv ss (sv_wal sv, st_wal (sv_store sv))" "recs_wf (seg_records ss)"
    "pending_bound (word_of_int (cf_fsync cf)) ss (sv_wal sv)" "unat (fst (last ss)) + Suc n < 2 ^ 64"
    using inv by (auto simp: sv_inv_def)
  have seg: "fst (last ss) < fst (last ss) + 1" using ss(4) by (simp add: word_less_nat_alt unat_word_ariths)
  have e: "(word_of_int (cf_fsync cf) :: racs_uint64) \<noteq> 0" using inv by (simp add: sv_inv_def)
  have len: "length (take sz op) < 2 ^ 64" "length (take sz op) = sz" using sz by simp_all
  obtain wal dir ss' where r: "racs_wal_append (cf_fsync cf) c sz (take sz op) (sv_wal sv, st_wal (sv_store sv)) = Some (wal, dir)"
    "wal_inv ss' (wal, dir)" "seg_records ss' = seg_records ss @ [(c, take sz op, wal_lsn (sv_wal sv))]"
    "wal_lsn wal = wal_lsn (sv_wal sv) + 1" "pending_bound (word_of_int (cf_fsync cf)) ss' wal"
    "unat (fst (last ss')) \<le> Suc (unat (fst (last ss)))"
    using wal_append_step [OF ss(1) len(1) e seg ss(3), of c] unfolding len(2) by metis
  have "unat (fst (last ss')) + n < 2 ^ 64" using r(6) ss(4) by linarith
  then show thesis by (intro that [OF _ ss(1,2) r(2-5)]) (use r(1) wal_append_take [OF sz(1)] in metis)
qed

lemma read_log_records:
  "wal_inv ss (wal, dir) \<Longrightarrow> recs_wf (seg_records ss) \<Longrightarrow> wal_read_log dir = Some (map rec_entry (seg_records ss))"
  by (rule read_log_inv(1))

definition append_status :: "config \<Rightarrow> server \<Rightarrow> racs_frame_header \<Rightarrow> bytes \<Rightarrow> racs_metadata option \<Rightarrow> racs_stream_status" where
  "append_status cf sv h pcm md =
     (if crc32c_of pcm \<noteq> frm_checksum h then RACS_STREAM_MALFORMED
      else case session_of (sv_kv sv) (stream_id h) of
             None \<Rightarrow> RACS_STREAM_CONFLICT
           | Some s \<Rightarrow> if s \<noteq> replicate 16 0 \<and> s \<noteq> session_id h then RACS_STREAM_CONFLICT
                       else if md = None then RACS_STREAM_NOT_FOUND else RACS_STREAM_OK)"

lemma append_refused:
  assumes inv: "sv_inv cf capacity n sv" and h: "frame_wf h" "length pcm = unat (frm_block_size h)"
    and md: "racs_metadata_get (cf_dir cf) (sv_md sv) (stream_id h) = Some m"
    and st: "append_status cf sv h pcm m \<noteq> RACS_STREAM_OK"
  shows "racs_stream_append cf z (frame_bytes h pcm @ tail) sv = Some (append_status cf sv h pcm m, sv)"
proof -
  have kv: "kv_inv (sv_kv sv)" using inv by (simp add: sv_inv_def)
  show ?thesis
    using st frame_parse_bytes [OF h, of tail] md streamkv_get_eq [OF kv, of "stream_id h"]
    by (auto simp: racs_stream_append_def append_status_def racs_session_cmp_def split: option.splits if_splits)
qed

lemma append_accepted:
  assumes inv: "sv_inv cf capacity (Suc n) sv" and h: "frame_wf h" "length pcm = unat (frm_block_size h)"
    and md: "racs_metadata_get (cf_dir cf) (sv_md sv) (stream_id h) = Some (Some m)"
    and ts: "racs_metadata_timestamp m (offset_of (sv_offsets sv) (stream_id h)) = Some t"
    and st: "append_status cf sv h pcm (Some m) = RACS_STREAM_OK"
  shows "\<exists>sv' es hd_a mt. racs_stream_append cf z (frame_bytes h pcm @ tail) sv = Some (RACS_STREAM_OK, sv') \<and>
    sv_inv cf capacity n sv' \<and> sv_md sv' = sv_md sv \<and> wal_lsn (sv_wal sv') = wal_lsn (sv_wal sv) + 1 \<and>
    session_of (sv_kv sv') = (session_of (sv_kv sv))(stream_id h \<mapsto> session_id h) \<and>
    offset_of (sv_offsets sv') = (offset_of (sv_offsets sv))(stream_id h :=
      offset_of (sv_offsets sv) (stream_id h) + block_advance z (frm_flags h) pcm (frm_block_size h)) \<and>
    wal_read_log (st_wal (sv_store sv)) = Some es \<and>
    wal_read_log (st_wal (sv_store sv')) =
      Some (es @ [record_entry RACS_OP_CODE_APPEND (frame_bytes h pcm) (wal_lsn (sv_wal sv))]) \<and>
    mmt_head (st_mmt (sv_store sv')) = Some hd_a \<and> st_heap (sv_store sv') hd_a = Some mt \<and> mt_entries mt \<noteq> [] \<and>
    last (mt_entries mt) = mk_entry (stream_id h, t) pcm (frm_block_size h) (frm_checksum h) (frm_flags h)
      (wal_lsn (sv_wal sv) + 1)"
proof -
  let ?data = "frame_bytes h pcm @ tail"
  let ?sz = "34 + unat (frm_block_size h)"
  let ?off = "offset_of (sv_offsets sv) (stream_id h)"
  have kv: "kv_inv (sv_kv sv)" and off: "offsets_inv (sv_offsets sv)" and cap: "cap_ok capacity"
    using inv by (simp_all add: sv_inv_def)
  obtain lg fl where mm: "mm_inv capacity lg fl (sv_store sv)" using inv by (auto simp: sv_inv_def)
  have crc: "crc32c_of pcm = frm_checksum h" and ses: "\<exists>s. session_of (sv_kv sv) (stream_id h) = Some s \<and>
      racs_session_cmp (session_id h) s"
    using st by (auto simp: append_status_def racs_session_cmp_def split: if_splits option.splits)
  have f: "racs_frame_parse ?data = Some (True, \<lparr>header = h, pcm_block = pcm @ tail\<rparr>)"
    using frame_parse_bytes [OF h, of tail] crc by simp
  have sz: "take ?sz ?data = frame_bytes h pcm" "?sz \<le> length ?data" "?sz < 2 ^ 60"
    using h unsigned_less [of "frm_block_size h", where 'a = nat] by (simp_all add: frame_bytes_def)
  have "length (session_id h) = 16" using h by (simp add: frame_wf_def)
  then obtain kv' where kv': "racs_streamkv_put (sv_kv sv) (stream_id h) (session_id h) = Some kv'" "kv_inv kv'"
    "session_of kv' = (session_of (sv_kv sv))(stream_id h \<mapsto> session_id h)"
    using streamkv_put_eq [OF kv] by blast
  obtain wal dir ss ss' where w: "racs_wal_append (cf_fsync cf) RACS_OP_CODE_APPEND ?sz ?data
      (sv_wal sv, st_wal (sv_store sv)) = Some (wal, dir)"
    "wal_inv ss (sv_wal sv, st_wal (sv_store sv))" "recs_wf (seg_records ss)" "wal_inv ss' (wal, dir)"
    "seg_records ss' = seg_records ss @ [(RACS_OP_CODE_APPEND, frame_bytes h pcm, wal_lsn (sv_wal sv))]"
    "wal_lsn wal = wal_lsn (sv_wal sv) + 1" "pending_bound (word_of_int (cf_fsync cf)) ss' wal"
    "unat (fst (last ss')) + n < 2 ^ 64"
    using wal_append_server [OF inv sz(2,3)] unfolding sz(1) by metis
  have wf': "recs_wf (seg_records ss')" using w(3,5) sz(3) by (simp add: recs_wf_def frame_bytes_def h)
  let ?st0 = "(sv_store sv)\<lparr>st_wal := dir\<rparr>"
  have "mm_inv capacity lg fl ?st0" using mm by simp
  then obtain st' where st': "racs_multi_memtable_append (stream_id h, t) (pcm @ tail) (frm_block_size h)
      (frm_checksum h) (frm_flags h) (wal_lsn wal) ?st0 = Some st'" "\<exists>lg. mm_inv capacity lg fl st'"
    using mm_inv_append [OF _ cap, of lg fl ?st0 "frm_block_size h" "pcm @ tail"] h by fastforce
  note mf = multi_append_fields [OF st'(1)]
  obtain offs where offs: "racs_offsets_put (sv_offsets sv) (stream_id h)
      (?off + block_advance z (frm_flags h) (pcm @ tail) (frm_block_size h)) = Some offs"
    "offset_of offs = (offset_of (sv_offsets sv))(stream_id h :=
      ?off + block_advance z (frm_flags h) (pcm @ tail) (frm_block_size h))" "offsets_inv offs"
    using offsets_put_eq [OF off] by blast
  have adv: "block_advance z (frm_flags h) (pcm @ tail) (frm_block_size h) =
      block_advance z (frm_flags h) pcm (frm_block_size h)"
    using h by (simp add: block_advance_def)
  have mk: "mk_entry key (pcm @ tail) (frm_block_size h) ck fl lsn = mk_entry key pcm (frm_block_size h) ck fl lsn" for key ck fl lsn
    using h by (simp add: mk_entry_def)
  have get: "racs_streamkv_get (sv_kv sv) (stream_id h) = Some (session_of (sv_kv sv) (stream_id h))"
    by (rule streamkv_get_eq [OF kv])
  let ?sv' = "sv\<lparr>sv_store := st', sv_wal := wal, sv_offsets := offs, sv_kv := kv'\<rparr>"
  have app: "racs_stream_append cf z ?data sv = Some (RACS_STREAM_OK, ?sv')"
    using f get ses md kv'(1) offsets_get_eq [OF off, of "stream_id h"] ts w(1) st'(1) offs(1)
    by (auto simp: racs_stream_append_def)
  have inv': "sv_inv cf capacity n ?sv'"
    using inv kv'(2) offs(3) st'(2) w(4,7,8) wf' mf by (auto simp: sv_inv_def)
  have log: "wal_read_log (st_wal (sv_store sv)) = Some (map rec_entry (seg_records ss))"
    "wal_read_log dir = Some (map rec_entry (seg_records ss'))"
    using read_log_records [OF w(2,3)] read_log_records [OF w(4) wf'] by auto
  show ?thesis
    using app inv' kv'(3) offs(2) adv log w(5,6) mf mk
    by (intro exI [of _ ?sv'] exI [of _ "map rec_entry (seg_records ss)"]) (auto simp: rec_entry_def)
qed

text \<open>
  C2: An append does what its status says. A frame with a wrong checksum is malformed; a frame for a
  closed stream or with a session other than the bound one is a conflict; a frame for a stream without
  metadata is not found; in these cases nothing changes. Otherwise the session is bound, the frame is
  the last record of the log, the block is the last entry of the table in memory with the time of the
  stream's offset, and the offset moves by the decoded length of the block.
\<close>

theorem stream_append_effect:
  assumes "sv_inv cf capacity (Suc n) sv" "frame_wf h" "length pcm = unat (frm_block_size h)"
    and "racs_metadata_get (cf_dir cf) (sv_md sv) (stream_id h) = Some md"
    and "\<And>m. md = Some m \<Longrightarrow> racs_metadata_timestamp m (offset_of (sv_offsets sv) (stream_id h)) = Some t"
  shows "\<exists>sv' es hd_a mt. racs_stream_append cf z (frame_bytes h pcm @ tail) sv = Some (append_status cf sv h pcm md, sv') \<and>
    (if append_status cf sv h pcm md \<noteq> RACS_STREAM_OK then sv' = sv
     else session_of (sv_kv sv') = (session_of (sv_kv sv))(stream_id h \<mapsto> session_id h) \<and>
       offset_of (sv_offsets sv') = (offset_of (sv_offsets sv))(stream_id h :=
         offset_of (sv_offsets sv) (stream_id h) + block_advance z (frm_flags h) pcm (frm_block_size h)) \<and>
       wal_read_log (st_wal (sv_store sv)) = Some es \<and>
       wal_read_log (st_wal (sv_store sv')) =
         Some (es @ [record_entry RACS_OP_CODE_APPEND (frame_bytes h pcm) (wal_lsn (sv_wal sv))]) \<and>
       mmt_head (st_mmt (sv_store sv')) = Some hd_a \<and> st_heap (sv_store sv') hd_a = Some mt \<and> mt_entries mt \<noteq> [] \<and>
       last (mt_entries mt) = mk_entry (stream_id h, t) pcm (frm_block_size h) (frm_checksum h) (frm_flags h)
         (wal_lsn (sv_wal sv) + 1))"
proof (cases "append_status cf sv h pcm md = RACS_STREAM_OK")
  case True
  then obtain m where m: "md = Some m" by (auto simp: append_status_def split: if_splits option.splits)
  show ?thesis
    using append_accepted [OF assms(1-3) assms(4)[unfolded m] assms(5)[OF m] True[unfolded m], of z tail] True m by auto
next
  case False
  with append_refused [OF assms(1-4) False, of z tail] show ?thesis by auto
qed

section \<open>A new server\<close>

text \<open>What \<open>racs_context_init\<close> creates when the data directory has metadata files only.\<close>

definition server_create :: "int \<Rightarrow> int \<Rightarrow> nat \<Rightarrow> md_files \<Rightarrow> server option" where
  "server_create tables entries cache_entries files =
     do { let (wal, dir) = racs_wal_create [];
          st \<leftarrow> racs_multi_memtable_create tables entries (empty_store dir);
          Some \<lparr>sv_store = st, sv_wal = wal, sv_offsets = racs_offsets_create,
                sv_kv = racs_streamkv_create cache_entries, sv_md = files\<rparr> }"

lemma create_tables_wal: "create_tables n c st = Some st' \<Longrightarrow> st_wal st' = st_wal st"
proof (induction n arbitrary: st)
  case (Suc n)
  then show ?case
    by (auto simp: racs_memtable_create_def Let_def elim!: bind_eq_SomeE dest!: move_to_head_fields)
qed simp

lemma kv_create_inv:
  "0 < n \<Longrightarrow> kv_inv (racs_streamkv_create n)" "0 < n \<Longrightarrow> session_of (racs_streamkv_create n) = Map.empty"
  by (simp_all add: kv_inv_def sks.create_wf session_of_def sks.create_lookup fun_eq_iff)

lemma server_create_inv:
  assumes "1 \<le> tables" "cap_ok entries" "0 < cache_entries" "(word_of_int (cf_fsync cf) :: racs_uint64) \<noteq> 0" "n < 2 ^ 64"
  obtains sv where "server_create tables entries cache_entries files = Some sv" "sv_inv cf entries n sv"
    "session_of (sv_kv sv) = Map.empty" "offset_of (sv_offsets sv) = (\<lambda>_. 0)" "sv_md sv = files"
    "wal_lsn (sv_wal sv) = 0" "wal_read_log (st_wal (sv_store sv)) = Some []"
proof -
  obtain wal dir where w: "racs_wal_create [] = (wal, dir)" by fastforce
  obtain st where st: "racs_multi_memtable_create tables entries (empty_store dir) = Some st"
    "mm_reach tables entries [] [] st" using create_reach [OF assms(1,2)] by blast
  have mm: "mm_inv entries [] [] st" by (rule mm_reach_inv [OF st(2) assms(1,2)])
  have dir: "st_wal st = dir" using create_tables_wal st(1) by (fastforce simp: racs_multi_memtable_create_def empty_store_def)
  have cap: "0 < RACS_MAX_OFFSETS" by (simp add: RACS_MAX_OFFSETS_def)
  have wi: "wal_inv [(0, [], [])] (wal, dir)" "wal_lsn wal = 0" "pending_bound e [(0, [], [])] wal" for e
    using wal_create_empty w by auto
  let ?sv = "\<lparr>sv_store = st, sv_wal = wal, sv_offsets = racs_offsets_create,
                sv_kv = racs_streamkv_create cache_entries, sv_md = files\<rparr>"
  have "server_create tables entries cache_entries files = Some ?sv"
    using st(1) w by (simp add: server_create_def)
  moreover have "sv_inv cf entries n ?sv"
    unfolding sv_inv_def using kv_create_inv assms mm dir wi offsets_create_inv [OF cap]
    by (auto simp: racs_offsets_create_def recs_wf_def seg_records_def intro!: exI [of _ "[(0, [], [])]"])
  moreover have "wal_read_log dir = Some []"
    using read_log_inv(1) [OF wi(1)] by (simp add: recs_wf_def seg_records_def)
  ultimately show thesis using that [of ?sv] kv_create_inv(2) [OF assms(3)] offsets_create_cur [OF cap] wi(2) dir
    by (simp add: racs_offsets_create_def)
qed

text \<open>A frame of four bytes of silence for the stream with id 7.\<close>

definition example_header :: "bytes \<Rightarrow> racs_frame_header" where
  "example_header ses = \<lparr>chunk_id = [0x72, 0x73, 0x70], session_id = ses, stream_id = 7,
     frm_checksum = crc32c_of [0, 0, 0, 0], frm_block_size = 4, frm_flags = 0\<rparr>"

lemma example_header_wf: "length ses = 16 \<Longrightarrow> frame_wf (example_header ses)"
  by (simp add: frame_wf_def example_header_def)

definition example_files :: md_files where
  "example_files = [(racs_metadata_path ''/d'' 7 False, md_bytes example_md)]"

lemma example_get: "racs_metadata_get ''/d'' example_files 7 = Some (Some example_md)"
  using metadata_read_eq [OF example_md_wf, of "[]"] by (simp add: metadata_get_path example_files_def)

lemma example_time: "\<exists>t. racs_metadata_timestamp example_md 0 = Some t"
  by (rule exI [of _ 1000]) (simp add: racs_metadata_timestamp_def byte_rate_def example_md_def trunc_int_def)

definition example_cf :: config where
  "example_cf = \<lparr>cf_dir = ''/d'', cf_fsync = 1\<rparr>"

text \<open>A server on which the stream 7 has been opened.\<close>

lemma example_server:
  obtains sv kv where "server_create 1 4 8 example_files = Some sv"
    "racs_stream_open (sv_kv sv) 7 = Some (True, kv)" "sv_inv example_cf 4 10 (sv\<lparr>sv_kv := kv\<rparr>)"
    "session_of kv = [7 \<mapsto> replicate 16 0]" "offset_of (sv_offsets sv) = (\<lambda>_. 0)" "sv_md sv = example_files"
    "wal_lsn (sv_wal sv) = 0" "wal_read_log (st_wal (sv_store sv)) = Some []"
proof -
  obtain sv where sv: "server_create 1 4 8 example_files = Some sv" "sv_inv example_cf 4 10 sv"
    "session_of (sv_kv sv) = Map.empty" "offset_of (sv_offsets sv) = (\<lambda>_. 0)" "sv_md sv = example_files"
    "wal_lsn (sv_wal sv) = 0" "wal_read_log (st_wal (sv_store sv)) = Some []"
    by (rule server_create_inv [of 1 4 8 example_cf 10 example_files]) (simp_all add: cap_ok_def example_cf_def)
  have kvi: "kv_inv (sv_kv sv)" using sv(2) by (simp add: sv_inv_def)
  obtain kv where kv: "racs_streamkv_put (sv_kv sv) 7 (replicate 16 0) = Some kv" "kv_inv kv"
    "session_of kv = [7 \<mapsto> replicate 16 0]"
    using streamkv_put_eq [OF kvi, of "replicate 16 0" 7] sv(3) by auto
  have "racs_stream_open (sv_kv sv) 7 = Some (True, kv)"
    using kv sv(3) by (simp add: racs_stream_open_def streamkv_get_eq [OF kvi])
  moreover have "sv_inv example_cf 4 10 (sv\<lparr>sv_kv := kv\<rparr>)" using sv(2) kv(2) by (simp add: sv_inv_def)
  ultimately show thesis using that sv kv(3) by blast
qed

theorem stream_append_effect_witness:
  "\<exists>sv kv sv'. server_create 1 4 8 example_files = Some sv \<and> racs_stream_open (sv_kv sv) 7 = Some (True, kv) \<and>
    racs_stream_append example_cf Some (frame_bytes (example_header (replicate 16 9)) [0, 0, 0, 0]) (sv\<lparr>sv_kv := kv\<rparr>) =
      Some (RACS_STREAM_OK, sv') \<and>
    session_of (sv_kv sv') 7 = Some (replicate 16 9) \<and> offset_of (sv_offsets sv') 7 = 4"
proof -
  let ?h = "example_header (replicate 16 9)"
  obtain sv kv where sv: "server_create 1 4 8 example_files = Some sv"
    "racs_stream_open (sv_kv sv) 7 = Some (True, kv)" "sv_inv example_cf 4 10 (sv\<lparr>sv_kv := kv\<rparr>)"
    "session_of kv = [7 \<mapsto> replicate 16 0]" "offset_of (sv_offsets sv) = (\<lambda>_. 0)" "sv_md sv = example_files"
    by (rule example_server)
  obtain t where t: "racs_metadata_timestamp example_md 0 = Some t" using example_time by blast
  have inv: "sv_inv example_cf 4 (Suc 9) (sv\<lparr>sv_kv := kv\<rparr>)" using sv(3) by (simp add: numeral_eq_Suc)
  have md: "racs_metadata_get (cf_dir example_cf) (sv_md (sv\<lparr>sv_kv := kv\<rparr>)) (stream_id ?h) = Some (Some example_md)"
    using example_get sv(6) by (simp add: example_cf_def example_header_def)
  have st: "append_status example_cf (sv\<lparr>sv_kv := kv\<rparr>) ?h [0, 0, 0, 0] (Some example_md) = RACS_STREAM_OK"
    using sv(4) by (simp add: append_status_def example_header_def)
  have bs: "length [0, 0, 0, 0 :: racs_uint8] = unat (frm_block_size ?h)" by (simp add: example_header_def)
  have wf: "frame_wf ?h" by (rule example_header_wf) simp
  from stream_append_effect [OF inv wf bs md, of t Some "[]"] t st sv show ?thesis
    by (auto simp: example_header_def block_advance_def)
qed

theorem session_exclusive_witness:
  "\<exists>sv kv sv1 sv2. server_create 1 4 8 example_files = Some sv \<and> racs_stream_open (sv_kv sv) 7 = Some (True, kv) \<and>
    racs_stream_append example_cf Some (frame_bytes (example_header (replicate 16 9)) [0, 0, 0, 0]) (sv\<lparr>sv_kv := kv\<rparr>) =
      Some (RACS_STREAM_OK, sv1) \<and>
    serve_all example_cf Some [Open 7, Append (frame_bytes (example_header (replicate 16 5)) [0, 0, 0, 0])] sv1 =
      Some ([(Open 7, False), (Append (frame_bytes (example_header (replicate 16 5)) [0, 0, 0, 0]), False)], sv2) \<and>
    session_of (sv_kv sv2) 7 = Some (replicate 16 9)"
proof -
  let ?h = "example_header (replicate 16 9)" and ?h2 = "example_header (replicate 16 5)"
  obtain sv kv where sv: "server_create 1 4 8 example_files = Some sv"
    "racs_stream_open (sv_kv sv) 7 = Some (True, kv)" "sv_inv example_cf 4 10 (sv\<lparr>sv_kv := kv\<rparr>)"
    "session_of kv = [7 \<mapsto> replicate 16 0]" "offset_of (sv_offsets sv) = (\<lambda>_. 0)" "sv_md sv = example_files"
    by (rule example_server)
  let ?sv = "sv\<lparr>sv_kv := kv\<rparr>"
  obtain t where t: "racs_metadata_timestamp example_md 0 = Some t" using example_time by blast
  have inv: "sv_inv example_cf 4 (Suc 9) ?sv" using sv(3) by (simp add: numeral_eq_Suc)
  have md: "racs_metadata_get (cf_dir example_cf) (sv_md ?sv) (stream_id ?h) = Some (Some example_md)"
    using example_get sv(6) by (simp add: example_cf_def example_header_def)
  have st: "append_status example_cf ?sv ?h [0, 0, 0, 0] (Some example_md) = RACS_STREAM_OK"
    using sv(4) by (simp add: append_status_def example_header_def)
  have bs: "length [0, 0, 0, 0 :: racs_uint8] = unat (frm_block_size (example_header s))" for s
    by (simp add: example_header_def)
  have wf: "frame_wf ?h" "frame_wf ?h2" by (simp_all add: example_header_wf)
  have ts: "racs_metadata_timestamp example_md (offset_of (sv_offsets ?sv) (stream_id ?h)) = Some t" using t sv(5) by simp
  obtain sv1 where a: "racs_stream_append example_cf Some (frame_bytes ?h [0, 0, 0, 0]) ?sv = Some (RACS_STREAM_OK, sv1)"
    "sv_inv example_cf 4 9 sv1" "sv_md sv1 = sv_md sv" "session_of (sv_kv sv1) = [7 \<mapsto> replicate 16 9]"
    using append_accepted [OF inv wf(1) bs md ts st, of Some "[]"] sv(4) by (auto simp: example_header_def)
  have kv1: "kv_inv (sv_kv sv1)" using a(2) by (simp add: sv_inv_def)
  have md1: "racs_metadata_get (cf_dir example_cf) (sv_md sv1) (stream_id ?h2) = Some (Some example_md)"
    using example_get sv(6) a(3) by (simp add: example_cf_def example_header_def)
  have "append_status example_cf sv1 ?h2 [0, 0, 0, 0] (Some example_md) = RACS_STREAM_CONFLICT"
    using a(4) by (simp add: append_status_def example_header_def)
  with append_refused [OF a(2) wf(2) bs md1, of Some "[]"]
  have r2: "racs_stream_append example_cf Some (frame_bytes ?h2 [0, 0, 0, 0]) sv1 = Some (RACS_STREAM_CONFLICT, sv1)" by simp
  have all: "serve_all example_cf Some [Open 7, Append (frame_bytes ?h2 [0, 0, 0, 0])] sv1 =
      Some ([(Open 7, False), (Append (frame_bytes ?h2 [0, 0, 0, 0]), False)], sv1)"
    using r2 a(4) by (simp add: serve_def racs_stream_open_def streamkv_get_eq [OF kv1])
  have f: "racs_frame_parse (frame_bytes ?h [0, 0, 0, 0]) = Some (True, \<lparr>header = ?h, pcm_block = [0, 0, 0, 0]\<rparr>)"
    using frame_parse_bytes [OF wf(1) bs, of "[]"] by (simp add: example_header_def)
  have kvs: "kv_inv (sv_kv ?sv)" using inv by (simp add: sv_inv_def)
  have n0: "session_id (header \<lparr>header = ?h, pcm_block = [0, 0, 0, 0]\<rparr>) \<noteq> replicate 16 0"
    by (simp add: example_header_def)
  have nc: "Close (stream_id (header \<lparr>header = ?h, pcm_block = [0, 0, 0, 0]\<rparr>)) \<notin>
      set [Open 7, Append (frame_bytes ?h2 [0, 0, 0, 0])]" by simp
  from session_exclusive [OF kvs f a(1) n0 all nc] have "session_of (sv_kv sv1) 7 = Some (replicate 16 9)"
    by (simp add: example_header_def)
  then show ?thesis using sv(1,2) a(1) all by blast
qed

end
