(* ===== verification/Recovery.thy ===== *)
theory Recovery
  imports Stream
begin

text \<open>
  Starting a server on existing data: \<open>racs_offsets_init\<close> of \<^verbatim>\<open>src/src/offsets.c\<close>, which is to count the
  blocks in the segment files, and \<open>racs_wal_replay\<close> of \<^verbatim>\<open>src/src/wal_replay.c\<close>, which appends the
  records above the checkpoint again. The theorems: loading the offsets is undefined as soon
  as there is a segment to count; the replay appends exactly the blocks above the checkpoint; and the checkpoint that a
  flush writes makes it skip one.
\<close>

section \<open>Loading the offsets\<close>

text \<open>
  The table in memory comes from \<open>racs_sstable_read_in_memory\<close>, which allocates a new structure and leaves its
  pointer to the data uninitialised (\<open>sst_data\<close> is \<open>None\<close>); the entries are then read through that pointer, and it
  is freed at the end.
\<close>

fun init_entries :: "bytes option \<Rightarrow> racs_uint64 \<Rightarrow> racs_sstable_index_entry option list \<Rightarrow> racs_offsets
    \<Rightarrow> racs_offsets option" where
  "init_entries ptr sid [] offsets = (case ptr of None \<Rightarrow> None | Some _ \<Rightarrow> Some offsets)"
| "init_entries ptr sid (ix # ixs) offsets =
     do { i \<leftarrow> ix;
          d \<leftarrow> ptr;
          entry \<leftarrow> racs_memtable_entry_read d (unat (ix_offset i));
          offsets \<leftarrow>
            (case entry of
               Some e \<Rightarrow>
                 if fst (e_key e) = sid
                 then do { offset \<leftarrow> racs_offsets_get offsets sid;
                           racs_offsets_put offsets sid (offset + ucast (e_block_size e)) }
                 else Some offsets
             | None \<Rightarrow> Some offsets);
          init_entries ptr sid ixs offsets }"

fun init_segments :: "racs_uint64 \<Rightarrow> bytes option list \<Rightarrow> racs_offsets \<Rightarrow> racs_offsets option" where
  "init_segments sid [] offsets = Some offsets"
| "init_segments sid (file # files) offsets =
     do { sst \<leftarrow> racs_sstable_read file;
          d \<leftarrow> sst_data sst;
          n \<leftarrow> sst_size sst;
          sst2 \<leftarrow> racs_sstable_read_in_memory d n;
          offsets \<leftarrow> init_entries (sst_data sst2) sid (sst_index sst2) offsets;
          init_segments sid files offsets }"

fun init_streams :: "bytes option list \<Rightarrow> string list \<Rightarrow> racs_offsets \<Rightarrow> racs_offsets option" where
  "init_streams files [] offsets = Some offsets"
| "init_streams files (path # paths) offsets =
     do { offsets \<leftarrow> init_segments (racs_path_to_stream_id path) files offsets;
          init_streams files paths offsets }"

text \<open>The two listings are those of the theory \<open>Filelist\<close>: all files below the directory, sorted.\<close>

definition racs_offsets_init :: "string \<Rightarrow> md_files \<Rightarrow> (string \<times> bytes) list \<Rightarrow> racs_offsets
    \<Rightarrow> racs_offsets option" where
  "racs_offsets_init dir md sfiles offsets =
     do { list1 \<leftarrow> get_sorted_filelist (dir @ ''/.racs/md'') (Some (md_listing dir md));
          let list2 = sort (map fst sfiles);
          init_streams (map (map_of sfiles) list2) (fl_files list1) offsets }"

section \<open>Replaying the log\<close>

text \<open>
  One entry, with the position behind it in its segment: that position, and not the offset of the
  stream, is what the time is computed from. The result of \<open>racs_frame_parse\<close> is ignored. The entries
  of the tables get the current number of the log.
\<close>

definition replay_entry :: "config \<Rightarrow> (bytes \<Rightarrow> bytes option) \<Rightarrow> md_files \<Rightarrow> racs_uint64 \<Rightarrow> racs_uint64
    \<Rightarrow> racs_wal_entry \<times> nat \<Rightarrow> store \<times> racs_offsets \<Rightarrow> (store \<times> racs_offsets) option" where
  "replay_entry cf zstd_decompress md racs_wal_lsn checkpoint_lsn eo s =
     (let (entry, position) = eo; (mmt, offsets) = s
      in if crc32c_of (we_op entry) \<noteq> we_checksum entry \<or> we_lsn entry \<le> checkpoint_lsn then Some s
         else do { (_, frame) \<leftarrow> racs_frame_parse (we_op entry);
                   let h = header frame;
                   metadata \<leftarrow> racs_metadata_get (cf_dir cf) md (stream_id h);
                   case metadata of
                     None \<Rightarrow> Some s
                   | Some m \<Rightarrow>
                       do { offset \<leftarrow> racs_offsets_get offsets (stream_id h);
                            timestamp \<leftarrow> racs_metadata_timestamp m (of_nat position);
                            mmt \<leftarrow> racs_multi_memtable_append (stream_id h, timestamp) (pcm_block frame)
                                     (frm_block_size h) (frm_checksum h) (frm_flags h) racs_wal_lsn mmt;
                            offsets \<leftarrow> racs_offsets_put offsets (stream_id h)
                                        (offset + block_advance zstd_decompress (frm_flags h) (pcm_block frame) (frm_block_size h));
                            Some (mmt, offsets) } })"

fun replay_entries :: "config \<Rightarrow> (bytes \<Rightarrow> bytes option) \<Rightarrow> md_files \<Rightarrow> racs_uint64 \<Rightarrow> racs_uint64
    \<Rightarrow> (racs_wal_entry \<times> nat) list \<Rightarrow> store \<times> racs_offsets \<Rightarrow> (store \<times> racs_offsets) option" where
  "replay_entries cf z md lsn ckpt [] s = Some s"
| "replay_entries cf z md lsn ckpt (eo # eos) s =
     do { s \<leftarrow> replay_entry cf z md lsn ckpt eo s; replay_entries cf z md lsn ckpt eos s }"

text \<open>\<open>racs_wal_segment_read\<close> returns null for an empty file, which is skipped.\<close>

fun replay_segments :: "config \<Rightarrow> (bytes \<Rightarrow> bytes option) \<Rightarrow> md_files \<Rightarrow> racs_uint64 \<Rightarrow> racs_uint64
    \<Rightarrow> os_dir \<Rightarrow> string list \<Rightarrow> store \<times> racs_offsets \<Rightarrow> (store \<times> racs_offsets) option" where
  "replay_segments cf z md lsn ckpt dir [] s = Some s"
| "replay_segments cf z md lsn ckpt dir (name # names) s =
     do { s \<leftarrow> (if file_data dir name = [] then Some s
               else do { eos \<leftarrow> wal_entries (file_data dir name) 0; replay_entries cf z md lsn ckpt eos s });
          replay_segments cf z md lsn ckpt dir names s }"

definition racs_wal_replay :: "config \<Rightarrow> (bytes \<Rightarrow> bytes option) \<Rightarrow> md_files \<Rightarrow> racs_wal \<Rightarrow> os_dir
    \<Rightarrow> store \<times> racs_offsets \<Rightarrow> (store \<times> racs_offsets) option" where
  "racs_wal_replay cf z md wal dir s =
     replay_segments cf z md (wal_lsn wal) (racs_wal_checkpoint_lsn dir) dir (wal_segment_names dir) s"

section \<open>Offsets from the segments\<close>

definition table_ok :: "racs_memtable_entry list \<Rightarrow> bool" where
  "table_ok es \<longleftrightarrow> (\<forall>e\<in>set es. entry_wf e) \<and> length es < 2 ^ 16"

lemma sstable_read_bytes:
  assumes "table_ok es"
  obtains sst where "racs_sstable_read (Some (sst_bytes es)) = Some sst" "sst_data sst = Some (sst_bytes es)"
    "sst_size sst = Some (file_size es)"
proof -
  let ?n = "of_le_bytes (drop (length (sst_bytes es) - 2) (sst_bytes es)) :: racs_uint16"
  have "racs_sstable_read (Some (sst_bytes es)) = Some \<lparr>sst_size = Some (file_size es), sst_data = Some (sst_bytes es),
      sst_num_entries = ?n, sst_index = replicate (unat ?n) None\<rparr>"
    by (simp add: racs_sstable_read_def racs_sstable_create_def length_sst_bytes file_size_def sst_sizes Let_def)
  then show thesis by (rule that) simp_all
qed

lemma init_segments_uninitialised:
  assumes "table_ok es"
  shows "init_segments sid (Some (sst_bytes es) # files) offsets = None"
proof -
  obtain sst where sst: "racs_sstable_read (Some (sst_bytes es)) = Some sst" "sst_data sst = Some (sst_bytes es)"
    "sst_size sst = Some (file_size es)" using sstable_read_bytes [OF assms] .
  have "length es < 2 ^ 16" using assms by (simp add: table_ok_def)
  note rd = read_in_memory_sst [OF this]
  have "init_entries None sid (map Some ixs) offsets = None" for ixs by (cases ixs) simp_all
  with sst rd show ?thesis by simp
qed

type_synonym tables = "(string \<times> racs_memtable_entry list) list"

definition table_files :: "tables \<Rightarrow> (string \<times> bytes) list" where
  "table_files tabs = map (\<lambda>(p, es). (p, sst_bytes es)) tabs"

lemma listing_paths:
  assumes "md_store dir md"
  obtains list where "get_sorted_filelist (dir @ ''/.racs/md'') (Some (md_listing dir md)) = Some list"
    "fl_files list = sort (map fst md)"
proof -
  have l: "tree_files (dir @ ''/.racs/md'') (md_listing dir md) = map fst md"
    using assms by (intro listing_files) (fastforce simp: md_store_def)
  have "fl_inv racs_filelist_create" by (simp add: fl_inv_def racs_filelist_create_def)
  from list_files_tree [OF this, of "dir @ ''/.racs/md''" "md_listing dir md"] that show thesis
    by (auto simp: get_sorted_filelist_def racs_filelist_sort_def racs_filelist_create_def l)
qed

lemma files_in_order:
  assumes "distinct (map fst tabs)"
  shows "\<exists>ess. map (map_of (table_files tabs)) (sort (map fst (table_files tabs))) = map (\<lambda>es. Some (sst_bytes es)) ess \<and>
    mset ess = mset (map snd tabs)"
proof -
  let ?ps = "sort (map fst tabs)"
  have fst: "map fst (table_files tabs) = map fst tabs" by (auto simp: table_files_def)
  have "map_of (table_files tabs) p = map_option sst_bytes (map_of tabs p)" for p
    by (induction tabs) (auto simp: table_files_def)
  moreover have "\<exists>es. map_of tabs p = Some es" if "p \<in> set ?ps" for p
    using that map_of_eq_None_iff [of tabs p] by (cases "map_of tabs p") auto
  ultimately have "map (map_of (table_files tabs)) ?ps = map (\<lambda>es. Some (sst_bytes es)) (map (\<lambda>p. the (map_of tabs p)) ?ps)"
    by (fastforce simp: map_of_eq_None_iff)
  moreover have "mset (map (\<lambda>p. the (map_of tabs p)) ?ps) = mset (map (\<lambda>p. the (map_of tabs p)) (map fst tabs))"
    by (simp only: mset_map mset_sort)
  moreover have "map (\<lambda>p. the (map_of tabs p)) (map fst tabs) = map snd tabs"
    using assms by (auto simp: map_of_is_SomeI)
  ultimately show ?thesis unfolding fst by metis
qed

text \<open>
  C32: A server with data cannot be started safely: \<open>racs_offsets_init\<close> is undefined, since it reads the entries
  through an uninitialised pointer, as soon as there are the metadata of a stream and a segment file; without
  either it succeeds and leaves the table of offsets empty.
\<close>

theorem offsets_init_uninitialised:
  assumes "md_store dir md" "distinct (map fst tabs)" "\<forall>(p, es)\<in>set tabs. table_ok es"
  shows "racs_offsets_init dir md (table_files tabs) offsets = (if md = [] \<or> tabs = [] then Some offsets else None)"
proof -
  obtain list where list: "get_sorted_filelist (dir @ ''/.racs/md'') (Some (md_listing dir md)) = Some list"
    "fl_files list = sort (map fst md)" using listing_paths [OF assms(1)] .
  obtain ess where ess: "map (map_of (table_files tabs)) (sort (map fst (table_files tabs))) = map (\<lambda>es. Some (sst_bytes es)) ess"
    "mset ess = mset (map snd tabs)" using files_in_order [OF assms(2)] by blast
  have none: "init_streams [] paths offsets = Some offsets" for paths by (induction paths) simp_all
  show ?thesis
  proof (cases "md = [] \<or> tabs = []")
    case True
    then have "fl_files list = [] \<or> ess = []" using list(2) ess(2) by auto
    then show ?thesis using list(1) ess(1) none True by (auto simp: racs_offsets_init_def Let_def)
  next
    case False
    then obtain es ess' where e: "ess = es # ess'" using ess(2) by (cases ess) auto
    have "es \<in> snd ` set tabs" using mset_eq_setD [OF ess(2)] e by auto
    then have "table_ok es" using assms(3) by auto
    moreover obtain p ps where "sort (map fst md) = p # ps"
      using False by (cases "sort (map fst md)") (auto dest: arg_cong [of _ _ length])
    ultimately show ?thesis
      using list ess(1) init_segments_uninitialised [of es _ "map (\<lambda>es. Some (sst_bytes es)) ess'" offsets] e False
      by (simp add: racs_offsets_init_def Let_def)
  qed
qed

theorem offsets_init_uninitialised_witness:
  "racs_offsets_init ''/d'' example_files (table_files [(''s'', [example_entry 1 [1, 2]])]) racs_offsets_create = None \<and>
   racs_offsets_init ''/d'' example_files (table_files []) racs_offsets_create = Some racs_offsets_create"
proof -
  have md: "md_store ''/d'' example_files"
    using metadata_read_eq [OF example_md_wf, of "[]"] by (auto simp: md_store_def example_files_def)
  have t: "\<forall>(p, es)\<in>set [(''s'', [example_entry 1 [1, 2]])]. table_ok es"
    by (simp add: table_ok_def entry_wf_def example_entry_def)
  have "example_files \<noteq> []" by (simp add: example_files_def)
  with offsets_init_uninitialised [OF md _ t] offsets_init_uninitialised [OF md, of "[]"] show ?thesis by simp
qed

section \<open>Replaying appends\<close>

text \<open>The logged appends: header, block and number of each record.\<close>

type_synonym logged = "racs_frame_header \<times> bytes \<times> racs_uint64"

definition rec_of :: "logged \<Rightarrow> wal_rec" where
  "rec_of f = (case f of (h, pcm, lsn) \<Rightarrow> (RACS_OP_CODE_APPEND, frame_bytes h pcm, lsn))"

definition frame_ok :: "racs_frame_header \<Rightarrow> bytes \<Rightarrow> bool" where
  "frame_ok h pcm \<longleftrightarrow> frame_wf h \<and> length pcm = unat (frm_block_size h) \<and> frm_checksum h = crc32c_of pcm"

definition md_ready :: "config \<Rightarrow> md_files \<Rightarrow> racs_uint64 \<Rightarrow> bool" where
  "md_ready cf md sid \<longleftrightarrow>
     (\<exists>m. racs_metadata_get (cf_dir cf) md sid = Some (Some m) \<and> (\<forall>x. racs_metadata_timestamp m x \<noteq> None))"

text \<open>What matters of an entry or a record: its stream and its block.\<close>

definition entry_block :: "racs_memtable_entry \<Rightarrow> racs_uint64 \<times> bytes" where
  "entry_block e = (fst (e_key e), e_block e)"

definition logged_block :: "logged \<Rightarrow> racs_uint64 \<times> bytes" where
  "logged_block f = (case f of (h, pcm, lsn) \<Rightarrow> (stream_id h, pcm))"

definition logged_advance :: "(bytes \<Rightarrow> bytes option) \<Rightarrow> racs_uint64 \<Rightarrow> logged \<Rightarrow> racs_uint64" where
  "logged_advance z sid f =
     (case f of (h, pcm, lsn) \<Rightarrow> if stream_id h = sid then block_advance z (frm_flags h) pcm (frm_block_size h) else 0)"

definition above :: "racs_uint64 \<Rightarrow> logged list \<Rightarrow> logged list" where
  "above ckpt fs = filter (\<lambda>(h, pcm, lsn). ckpt < lsn) fs"

lemma above_simps [simp]:
  "above c [] = []" "above c ((h, pcm, lsn) # fs) = (if c < lsn then (h, pcm, lsn) # above c fs else above c fs)"
  "above c (fs @ gs) = above c fs @ above c gs"
  by (simp_all add: above_def)

lemma frame_bytes_length: "frame_ok h pcm \<Longrightarrow> length (frame_bytes h pcm) < 2 ^ 64"
  using unsigned_less [of "frm_block_size h", where 'a = nat] by (simp add: frame_ok_def frame_bytes_def)

lemma replay_entry_logged:
  assumes ok: "frame_ok h pcm" and md: "md_ready cf md (stream_id h)"
    and inv: "mm_inv capacity lg fl st" "cap_ok capacity" "offsets_inv offs"
  shows "\<exists>st' offs' es. replay_entry cf z md lsn_now ckpt (rec_entry (rec_of (h, pcm, lsn)), pos) (st, offs) = Some (st', offs') \<and>
    mm_inv capacity (lg @ es) fl st' \<and> offsets_inv offs' \<and>
    map entry_block es = map logged_block (above ckpt [(h, pcm, lsn)]) \<and>
    (\<forall>sid. offset_of offs' sid = offset_of offs sid + (\<Sum>f\<leftarrow>above ckpt [(h, pcm, lsn)]. logged_advance z sid f))"
proof (cases "ckpt < lsn")
  case False
  then show ?thesis using inv
    by (intro exI [of _ st] exI [of _ offs] exI [of _ "[]"])
       (auto simp: replay_entry_def rec_of_def rec_entry_def record_entry_def not_less)
next
  case True
  obtain m where m: "racs_metadata_get (cf_dir cf) md (stream_id h) = Some (Some m)"
    "\<forall>x. racs_metadata_timestamp m x \<noteq> None" using md by (auto simp: md_ready_def)
  obtain t where t: "racs_metadata_timestamp m (of_nat pos) = Some t" using m(2) by blast
  have h: "frame_wf h" "length pcm = unat (frm_block_size h)" using ok by (simp_all add: frame_ok_def)
  have p: "racs_frame_parse (frame_bytes h pcm) = Some (True, \<lparr>header = h, pcm_block = pcm\<rparr>)"
    using frame_parse_bytes [OF h, of "[]"] ok by (simp add: frame_ok_def)
  let ?e = "mk_entry (stream_id h, t) pcm (frm_block_size h) (frm_checksum h) (frm_flags h) lsn_now"
  obtain st' where st': "racs_multi_memtable_append (stream_id h, t) pcm (frm_block_size h) (frm_checksum h)
      (frm_flags h) lsn_now st = Some st'" "mm_inv capacity (lg @ [?e]) fl st'"
    using mm_inv_append [OF inv(1,2), of "frm_block_size h" pcm] h by fastforce
  let ?x = "offset_of offs (stream_id h) + block_advance z (frm_flags h) pcm (frm_block_size h)"
  obtain offs' where offs': "racs_offsets_put offs (stream_id h) ?x = Some offs'" "offsets_inv offs'"
    "offset_of offs' = (offset_of offs)(stream_id h := ?x)"
    using offsets_put_eq [OF inv(3)] by blast
  have "replay_entry cf z md lsn_now ckpt (rec_entry (rec_of (h, pcm, lsn)), pos) (st, offs) = Some (st', offs')"
    using True p m(1) t st'(1) offs'(1) offsets_get_eq [OF inv(3), of "stream_id h"]
    by (simp add: replay_entry_def rec_of_def rec_entry_def record_entry_def not_le)
  then show ?thesis using st'(2) offs'(2,3) True h(2)
    by (intro exI [of _ st'] exI [of _ offs'] exI [of _ "[?e]"])
       (auto simp: entry_block_def logged_block_def mk_entry_def logged_advance_def)
qed

lemma replay_entries_logged:
  assumes "\<forall>(h, pcm, lsn)\<in>set fs. frame_ok h pcm \<and> md_ready cf md (stream_id h)" "cap_ok capacity"
    and "map fst eos = map (rec_entry \<circ> rec_of) fs"
  shows "mm_inv capacity lg fl st \<Longrightarrow> offsets_inv offs \<Longrightarrow>
    \<exists>st' offs' es. replay_entries cf z md lsn_now ckpt eos (st, offs) = Some (st', offs') \<and>
      mm_inv capacity (lg @ es) fl st' \<and> offsets_inv offs' \<and>
      map entry_block es = map logged_block (above ckpt fs) \<and>
      (\<forall>sid. offset_of offs' sid = offset_of offs sid + (\<Sum>f\<leftarrow>above ckpt fs. logged_advance z sid f))"
  using assms
proof (induction fs arbitrary: eos lg st offs)
  case Nil
  then show ?case by (intro exI [of _ st] exI [of _ offs] exI [of _ "[]"]) simp
next
  case (Cons f fs)
  obtain h pcm lsn where f: "f = (h, pcm, lsn)" by (cases f) auto
  obtain pos eos' where eos: "eos = (rec_entry (rec_of f), pos) # eos'" "map fst eos' = map (rec_entry \<circ> rec_of) fs"
    using Cons.prems(5) by (cases eos) auto
  have ok: "frame_ok h pcm" "md_ready cf md (stream_id h)" using Cons.prems(3) f by auto
  obtain st1 offs1 es1 where s1: "replay_entry cf z md lsn_now ckpt (rec_entry (rec_of f), pos) (st, offs) = Some (st1, offs1)"
    "mm_inv capacity (lg @ es1) fl st1" "offsets_inv offs1" "map entry_block es1 = map logged_block (above ckpt [f])"
    "\<forall>sid. offset_of offs1 sid = offset_of offs sid + (\<Sum>f\<leftarrow>above ckpt [f]. logged_advance z sid f)"
    using replay_entry_logged [OF ok Cons.prems(1,4,2)] unfolding f by blast
  have rest: "\<forall>(h, pcm, lsn)\<in>set fs. frame_ok h pcm \<and> md_ready cf md (stream_id h)" using Cons.prems(3) by auto
  obtain st' offs' es where s2: "replay_entries cf z md lsn_now ckpt eos' (st1, offs1) = Some (st', offs')"
    "mm_inv capacity ((lg @ es1) @ es) fl st'" "offsets_inv offs'" "map entry_block es = map logged_block (above ckpt fs)"
    "\<forall>sid. offset_of offs' sid = offset_of offs1 sid + (\<Sum>f\<leftarrow>above ckpt fs. logged_advance z sid f)"
    using Cons.IH [OF s1(2,3) rest Cons.prems(4) eos(2)] by blast
  have ab: "above ckpt (f # fs) = above ckpt [f] @ above ckpt fs" by (simp add: f)
  have "replay_entries cf z md lsn_now ckpt eos (st, offs) = Some (st', offs')" using s1(1) s2(1) by (simp add: eos)
  moreover have "map entry_block (es1 @ es) = map logged_block (above ckpt (f # fs))" unfolding ab using s1(4) s2(4) by simp
  moreover have "\<forall>sid. offset_of offs' sid = offset_of offs sid + (\<Sum>f\<leftarrow>above ckpt (f # fs). logged_advance z sid f)"
    unfolding ab using s1(5) s2(5) by (simp add: add.assoc)
  ultimately show ?case using s2(2,3) by (intro exI [of _ st'] exI [of _ offs'] exI [of _ "es1 @ es"]) simp
qed

lemma replay_segments_logged:
  assumes "\<forall>(n, fs)\<in>set xs. file_data dir n = log_bytes (map rec_of fs) \<and>
      (\<forall>(h, pcm, lsn)\<in>set fs. frame_ok h pcm \<and> md_ready cf md (stream_id h))" "cap_ok capacity"
  shows "mm_inv capacity lg fl st \<Longrightarrow> offsets_inv offs \<Longrightarrow>
    \<exists>st' offs' es. replay_segments cf z md lsn_now ckpt dir (map fst xs) (st, offs) = Some (st', offs') \<and>
      mm_inv capacity (lg @ es) fl st' \<and> offsets_inv offs' \<and>
      map entry_block es = map logged_block (above ckpt (concat (map snd xs))) \<and>
      (\<forall>sid. offset_of offs' sid = offset_of offs sid + (\<Sum>f\<leftarrow>above ckpt (concat (map snd xs)). logged_advance z sid f))"
  using assms
proof (induction xs arbitrary: lg st offs)
  case Nil
  then show ?case by (intro exI [of _ st] exI [of _ offs] exI [of _ "[]"]) simp
next
  case (Cons x xs)
  obtain n fs where x: "x = (n, fs)" by fastforce
  have fdat: "file_data dir n = log_bytes (map rec_of fs)" and fs: "\<forall>(h, pcm, lsn)\<in>set fs. frame_ok h pcm \<and> md_ready cf md (stream_id h)"
    using Cons.prems(3) x by auto
  have wf: "recs_wf (map rec_of fs)"
    using fs frame_bytes_length by (fastforce simp: recs_wf_def rec_of_def)
  have "map_option (map fst) (wal_entries (log_bytes (map rec_of fs)) 0) = Some (map rec_entry (map rec_of fs))"
    using wal_entries_log [OF wf, of "[]"] by (simp add: rec_entry_eq)
  then obtain eos where eos: "wal_entries (file_data dir n) 0 = Some eos" "map fst eos = map (rec_entry \<circ> rec_of) fs"
    unfolding fdat by auto
  obtain st1 offs1 es1 where s1: "replay_entries cf z md lsn_now ckpt eos (st, offs) = Some (st1, offs1)"
    "mm_inv capacity (lg @ es1) fl st1" "offsets_inv offs1" "map entry_block es1 = map logged_block (above ckpt fs)"
    "\<forall>sid. offset_of offs1 sid = offset_of offs sid + (\<Sum>f\<leftarrow>above ckpt fs. logged_advance z sid f)"
    using replay_entries_logged [OF fs Cons.prems(4) eos(2) Cons.prems(1,2)] by blast
  have seg: "(if file_data dir n = [] then Some (st, offs)
      else do { eos \<leftarrow> wal_entries (file_data dir n) 0; replay_entries cf z md lsn_now ckpt eos (st, offs) }) = Some (st1, offs1)"
  proof (cases "file_data dir n = []")
    case True
    then have "fs = []" using fdat by (simp add: log_bytes_Nil_iff)
    then have "eos = []" using eos(2) by simp
    with s1(1) True show ?thesis by simp
  qed (use s1(1) eos(1) in simp)
  have xs: "\<forall>(n, fs)\<in>set xs. file_data dir n = log_bytes (map rec_of fs) \<and>
      (\<forall>(h, pcm, lsn)\<in>set fs. frame_ok h pcm \<and> md_ready cf md (stream_id h))" using Cons.prems(3) by auto
  obtain st' offs' es where s2: "replay_segments cf z md lsn_now ckpt dir (map fst xs) (st1, offs1) = Some (st', offs')"
    "mm_inv capacity ((lg @ es1) @ es) fl st'" "offsets_inv offs'"
    "map entry_block es = map logged_block (above ckpt (concat (map snd xs)))"
    "\<forall>sid. offset_of offs' sid = offset_of offs1 sid + (\<Sum>f\<leftarrow>above ckpt (concat (map snd xs)). logged_advance z sid f)"
    using Cons.IH [OF s1(2,3) xs Cons.prems(4)] by blast
  have "replay_segments cf z md lsn_now ckpt dir (map fst (x # xs)) (st, offs) = Some (st', offs')"
    using seg s2(1) by (simp add: x)
  then show ?case using s1(4,5) s2(2-5)
    by (intro exI [of _ st'] exI [of _ offs'] exI [of _ "es1 @ es"]) (simp add: x add.assoc)
qed


lemma list_all2_in_set2: "list_all2 P xs ys \<Longrightarrow> y \<in> set ys \<Longrightarrow> \<exists>x\<in>set xs. P x y"
  by (induction rule: list_all2_induct) auto

lemma split_records:
  "seg_records ss = map rec_of fs \<Longrightarrow>
   \<exists>xs. map fst xs = map (racs_wal_filename \<circ> fst) ss \<and> concat (map snd xs) = fs \<and>
     list_all2 (\<lambda>(n, rd, rp) x. fst x = racs_wal_filename n \<and> rd @ rp = map rec_of (snd x)) ss xs"
proof (induction ss arbitrary: fs)
  case Nil
  then show ?case by (auto simp: seg_records_def)
next
  case (Cons s ss)
  obtain n rd rp where s: "s = (n, rd, rp)" by (cases s) auto
  have "map rec_of fs = (rd @ rp) @ seg_records ss" using Cons.prems by (simp add: s seg_records_def)
  then obtain gs hs where g: "fs = gs @ hs" "rd @ rp = map rec_of gs" "seg_records ss = map rec_of hs"
    using map_eq_append_conv [THEN iffD1] by blast
  obtain xs where "map fst xs = map (racs_wal_filename \<circ> fst) ss" "concat (map snd xs) = hs"
    "list_all2 (\<lambda>(n, rd, rp) x. fst x = racs_wal_filename n \<and> rd @ rp = map rec_of (snd x)) ss xs"
    using Cons.IH [OF g(3)] by blast
  with g s show ?case by (intro exI [of _ "(racs_wal_filename n, gs) # xs"]) auto
qed

definition logged_ok :: "config \<Rightarrow> md_files \<Rightarrow> logged list \<Rightarrow> bool" where
  "logged_ok cf md fs \<longleftrightarrow> (\<forall>(h, pcm, lsn)\<in>set fs. frame_ok h pcm \<and> md_ready cf md (stream_id h))"

lemma replay_logged:
  assumes "wal_inv ss (wal, dir)" "seg_records ss = map rec_of fs" "logged_ok cf md fs"
    and "mm_inv capacity lg fl st" "cap_ok capacity" "offsets_inv offs"
  shows "\<exists>st' offs' es. racs_wal_replay cf z md wal2 dir (st, offs) = Some (st', offs') \<and>
    mm_inv capacity (lg @ es) fl st' \<and> offsets_inv offs' \<and>
    map entry_block es = map logged_block (above (racs_wal_checkpoint_lsn dir) fs) \<and>
    (\<forall>sid. offset_of offs' sid = offset_of offs sid +
       (\<Sum>f\<leftarrow>above (racs_wal_checkpoint_lsn dir) fs. logged_advance z sid f))"
proof -
  obtain xs where xs: "map fst xs = map (racs_wal_filename \<circ> fst) ss" "concat (map snd xs) = fs"
    "list_all2 (\<lambda>(n, rd, rp) x. fst x = racs_wal_filename n \<and> rd @ rp = map rec_of (snd x)) ss xs"
    using split_records [OF assms(2)] by blast
  have all: "\<forall>(n, gs)\<in>set xs. file_data dir n = log_bytes (map rec_of gs) \<and>
      (\<forall>(h, pcm, lsn)\<in>set gs. frame_ok h pcm \<and> md_ready cf md (stream_id h))"
  proof safe
    fix n gs assume x: "(n, gs) \<in> set xs"
    then obtain k rd rp where s: "(k, rd, rp) \<in> set ss" "n = racs_wal_filename k" "rd @ rp = map rec_of gs"
      using list_all2_in_set2 [OF xs(3)] by fastforce
    show "file_data dir n = log_bytes (map rec_of gs)"
      using file_data_inv [OF assms(1) s(1)] s(2,3) by (simp add: file_data_def)
    fix h pcm lsn assume "(h, pcm, lsn) \<in> set gs"
    then have "(h, pcm, lsn) \<in> set fs" unfolding xs(2) [symmetric] using x by force
    then show "frame_ok h pcm" "md_ready cf md (stream_id h)" using assms(3) by (auto simp: logged_ok_def)
  qed
  show ?thesis
    unfolding racs_wal_replay_def segment_names_inv [OF assms(1)] xs(1) [symmetric]
    using replay_segments_logged [OF all assms(5,4,6)] unfolding xs(2) by blast
qed


text \<open>
  C3: Replaying the log restores what was appended above the checkpoint: for a log whose records are
  frames of streams with metadata, whatever its segments, the replay succeeds, adds to the tables in
  memory exactly the blocks of the records whose number is above the checkpoint, in their order, and
  moves the offset of every stream by their decoded lengths.
\<close>

theorem replay_exact:
  assumes "wal_inv ss (wal, dir)" "seg_records ss = map rec_of fs" "logged_ok cf md fs"
    and "mm_inv capacity lg fl st" "cap_ok capacity" "offsets_inv offs"
  shows "\<exists>st' offs' es. racs_wal_replay cf z md wal2 dir (st, offs) = Some (st', offs') \<and>
    mm_inv capacity (lg @ es) fl st' \<and> offsets_inv offs' \<and>
    map entry_block es = map logged_block (above (racs_wal_checkpoint_lsn dir) fs) \<and>
    (\<forall>sid. offset_of offs' sid = offset_of offs sid +
       (\<Sum>f\<leftarrow>above (racs_wal_checkpoint_lsn dir) fs. logged_advance z sid f))"
  using assms by (rule replay_logged)

text \<open>What an append that reports success has done.\<close>

lemma append_ok:
  assumes "sv_inv cf capacity (Suc n) sv" "frame_wf h" "length pcm = unat (frm_block_size h)"
    and md: "racs_metadata_get (cf_dir cf) (sv_md sv) (stream_id h) = Some (Some m)"
    and ts: "racs_metadata_timestamp m (offset_of (sv_offsets sv) (stream_id h)) = Some t"
    and ok: "racs_stream_append cf z (frame_bytes h pcm) sv = Some (RACS_STREAM_OK, sv')"
  obtains es hd_a mt where "sv_inv cf capacity n sv'" "sv_md sv' = sv_md sv"
    "wal_lsn (sv_wal sv') = wal_lsn (sv_wal sv) + 1" "crc32c_of pcm = frm_checksum h"
    "wal_read_log (st_wal (sv_store sv')) =
      Some (es @ [record_entry RACS_OP_CODE_APPEND (frame_bytes h pcm) (wal_lsn (sv_wal sv))])"
    "mmt_head (st_mmt (sv_store sv')) = Some hd_a" "st_heap (sv_store sv') hd_a = Some mt" "mt_entries mt \<noteq> []"
    "last (mt_entries mt) = mk_entry (stream_id h, t) pcm (frm_block_size h) (frm_checksum h) (frm_flags h)
      (wal_lsn (sv_wal sv) + 1)"
proof -
  have st: "append_status cf sv h pcm (Some m) = RACS_STREAM_OK"
    using append_refused [OF assms(1-4), of z "[]"] ok by fastforce
  have crc: "crc32c_of pcm = frm_checksum h" using st by (auto simp: append_status_def split: if_splits)
  from append_accepted [OF assms(1-3) md ts st, of z "[]"] ok crc that show thesis by auto
qed

lemma read_log_manifest: "wal_read_log (racs_memtable_write_lsn L dir) = wal_read_log dir"
  if "wal_inv ss (wal, dir)" "recs_wf (seg_records ss)"
  using read_log_records [OF that] read_log_records [OF wal_inv_manifest [OF that(1)] that(2)] by simp

text \<open>
  C33: The number in the manifest is one too high: an append stores its entry with the number its record
  has plus one, which is the number of the record of the next append. So once the table that ends with
  the first entry has been flushed, the replay after a crash skips the record of the next append,
  although that record is in the log and its block in no segment.
\<close>

theorem checkpoint_skips_next:
  assumes "sv_inv cf capacity (Suc (Suc n)) sv"
    and "frame_wf h1" "length pcm1 = unat (frm_block_size h1)" "frame_wf h2" "length pcm2 = unat (frm_block_size h2)"
    and "racs_metadata_get (cf_dir cf) (sv_md sv) (stream_id h1) = Some (Some m1)"
    and "racs_metadata_timestamp m1 (offset_of (sv_offsets sv) (stream_id h1)) = Some t1"
    and "racs_stream_append cf z (frame_bytes h1 pcm1) sv = Some (RACS_STREAM_OK, sv1)"
    and "racs_metadata_get (cf_dir cf) (sv_md sv) (stream_id h2) = Some (Some m2)"
    and "racs_metadata_timestamp m2 (offset_of (sv_offsets sv1) (stream_id h2)) = Some t2"
    and "racs_stream_append cf z (frame_bytes h2 pcm2) sv1 = Some (RACS_STREAM_OK, sv2)"
  shows "\<exists>hd_a mt es r.
    mmt_head (st_mmt (sv_store sv1)) = Some hd_a \<and> st_heap (sv_store sv1) hd_a = Some mt \<and> mt_entries mt \<noteq> [] \<and>
    e_block (last (mt_entries mt)) = pcm1 \<and>
    (let dir = racs_memtable_write_lsn (e_lsn (last (mt_entries mt))) (st_wal (sv_store sv2))
     in wal_read_log dir = Some (es @ [r]) \<and> we_op r = frame_bytes h2 pcm2 \<and>
        (\<forall>cf z md lsn pos s. replay_entry cf z md lsn (racs_wal_checkpoint_lsn dir) (r, pos) s = Some s))"
proof -
  obtain hd_a mt where 1: "sv_inv cf capacity (Suc n) sv1" "sv_md sv1 = sv_md sv" "wal_lsn (sv_wal sv1) = wal_lsn (sv_wal sv) + 1"
    "mmt_head (st_mmt (sv_store sv1)) = Some hd_a" "st_heap (sv_store sv1) hd_a = Some mt" "mt_entries mt \<noteq> []"
    "last (mt_entries mt) = mk_entry (stream_id h1, t1) pcm1 (frm_block_size h1) (frm_checksum h1) (frm_flags h1)
      (wal_lsn (sv_wal sv) + 1)"
    using append_ok [OF assms(1-3,6-8)] by metis
  have md2: "racs_metadata_get (cf_dir cf) (sv_md sv1) (stream_id h2) = Some (Some m2)" using assms(9) 1(2) by simp
  obtain es where 2: "sv_inv cf capacity n sv2" "wal_read_log (st_wal (sv_store sv2)) =
      Some (es @ [record_entry RACS_OP_CODE_APPEND (frame_bytes h2 pcm2) (wal_lsn (sv_wal sv1))])"
    using append_ok [OF 1(1) assms(4,5) md2 assms(10,11)] by metis
  let ?L = "e_lsn (last (mt_entries mt))"
  let ?r = "record_entry RACS_OP_CODE_APPEND (frame_bytes h2 pcm2) (wal_lsn (sv_wal sv1))"
  have L: "?L = wal_lsn (sv_wal sv1)" using 1(3,7) by (simp add: mk_entry_def)
  obtain ss where ss: "wal_inv ss (sv_wal sv2, st_wal (sv_store sv2))" "recs_wf (seg_records ss)"
    using 2(1) by (auto simp: sv_inv_def)
  have log: "wal_read_log (racs_memtable_write_lsn ?L (st_wal (sv_store sv2))) = Some (es @ [?r])"
    using read_log_manifest [OF ss, of ?L] 2(2) by simp
  have skip: "replay_entry cf z md lsn (racs_wal_checkpoint_lsn (racs_memtable_write_lsn ?L d)) (?r, pos) s = Some s"
    for cf z md lsn pos s d by (simp add: replay_entry_def record_entry_def L case_prod_beta)
  have blk: "e_block (last (mt_entries mt)) = pcm1" using 1(7) assms(3) by (simp add: mk_entry_def)
  show ?thesis
    by (rule exI [of _ hd_a], rule exI [of _ mt], rule exI [of _ es], rule exI [of _ ?r])
       (use 1(4-6) log skip blk in \<open>simp add: Let_def record_entry_def\<close>)
qed


lemma example_time_4: "\<exists>t. racs_metadata_timestamp example_md 4 = Some t"
proof -
  have "\<bar>elapsed_ms example_md 4\<bar> \<le> 1" "0 \<le> elapsed_ms example_md 4"
    using elapsed_accurate [of 4 example_md] by (simp_all add: byte_rate_def example_md_def)
  then have "\<exists>t. racs_metadata_timestamp example_md 4 = Some t \<and> sint t = elapsed_ms example_md 4 + sint (md_ref example_md)"
    by (intro timestamp_elapsed) (simp_all add: byte_rate_def example_md_def)
  then show ?thesis by blast
qed

text \<open>The example server after two appends of session 9.\<close>

lemma example_appends:
  obtains sv kv sv1 sv2 t1 t2 where "server_create 1 4 8 example_files = Some sv"
    "racs_stream_open (sv_kv sv) 7 = Some (True, kv)" "sv_inv example_cf 4 (Suc (Suc 8)) (sv\<lparr>sv_kv := kv\<rparr>)"
    "racs_stream_append example_cf Some (frame_bytes (example_header (replicate 16 9)) [0, 0, 0, 0]) (sv\<lparr>sv_kv := kv\<rparr>) =
      Some (RACS_STREAM_OK, sv1)"
    "racs_stream_append example_cf Some (frame_bytes (example_header (replicate 16 9)) [0, 0, 0, 0]) sv1 =
      Some (RACS_STREAM_OK, sv2)"
    "sv_md sv = example_files"
    "racs_metadata_timestamp example_md (offset_of (sv_offsets sv) 7) = Some t1"
    "racs_metadata_timestamp example_md (offset_of (sv_offsets sv1) 7) = Some t2"
proof -
  let ?h = "example_header (replicate 16 9)"
  obtain sv kv where sv: "server_create 1 4 8 example_files = Some sv"
    "racs_stream_open (sv_kv sv) 7 = Some (True, kv)" "sv_inv example_cf 4 10 (sv\<lparr>sv_kv := kv\<rparr>)"
    "session_of kv = [7 \<mapsto> replicate 16 0]" "offset_of (sv_offsets sv) = (\<lambda>_. 0)" "sv_md sv = example_files"
    by (rule example_server)
  let ?sv = "sv\<lparr>sv_kv := kv\<rparr>"
  have inv: "sv_inv example_cf 4 (Suc (Suc 8)) ?sv" using sv(3) by (simp add: numeral_eq_Suc)
  have bs: "length [0, 0, 0, 0 :: racs_uint8] = unat (frm_block_size ?h)" by (simp add: example_header_def)
  have wf: "frame_wf ?h" by (rule example_header_wf) simp
  have md: "racs_metadata_get (cf_dir example_cf) (sv_md s) (stream_id ?h) = Some (Some example_md)"
    if "sv_md s = example_files" for s using example_get that by (simp add: example_cf_def example_header_def)
  obtain t1 where t1: "racs_metadata_timestamp example_md 0 = Some t1" using example_time by blast
  have st: "append_status example_cf ?sv ?h [0, 0, 0, 0] (Some example_md) = RACS_STREAM_OK"
    using sv(4) by (simp add: append_status_def example_header_def)
  have ts1: "racs_metadata_timestamp example_md (offset_of (sv_offsets ?sv) (stream_id ?h)) = Some t1"
    using t1 sv(5) by simp
  obtain sv1 where a: "racs_stream_append example_cf Some (frame_bytes ?h [0, 0, 0, 0]) ?sv = Some (RACS_STREAM_OK, sv1)"
    "sv_inv example_cf 4 (Suc 8) sv1" "sv_md sv1 = sv_md sv" "session_of (sv_kv sv1) = [7 \<mapsto> replicate 16 9]"
    "offset_of (sv_offsets sv1) 7 = 4"
    using append_accepted [OF inv wf bs md [of ?sv] ts1 st, of Some "[]"] sv(4-6)
    by (auto simp: example_header_def block_advance_def)
  have st1: "append_status example_cf sv1 ?h [0, 0, 0, 0] (Some example_md) = RACS_STREAM_OK"
    using a(4) by (simp add: append_status_def example_header_def)
  obtain t2 where t2: "racs_metadata_timestamp example_md (offset_of (sv_offsets sv1) 7) = Some t2"
    using example_time_4 a(5) by auto
  then have ts2: "racs_metadata_timestamp example_md (offset_of (sv_offsets sv1) (stream_id ?h)) = Some t2"
    by (simp add: example_header_def)
  have md1: "sv_md sv1 = example_files" using a(3) sv(6) by simp
  obtain sv2 where b: "racs_stream_append example_cf Some (frame_bytes ?h [0, 0, 0, 0]) sv1 = Some (RACS_STREAM_OK, sv2)"
    using append_accepted [OF a(2) wf bs md [OF md1] ts2 st1, of Some "[]"] by auto
  have ts0: "racs_metadata_timestamp example_md (offset_of (sv_offsets sv) 7) = Some t1" using t1 sv(5) by simp
  show thesis by (rule that [OF sv(1,2) inv a(1) b sv(6) ts0 t2])
qed

theorem checkpoint_skips_next_witness:
  "\<exists>sv kv sv1 sv2 hd_a mt es r. server_create 1 4 8 example_files = Some sv \<and>
    racs_stream_open (sv_kv sv) 7 = Some (True, kv) \<and>
    racs_stream_append example_cf Some (frame_bytes (example_header (replicate 16 9)) [0, 0, 0, 0]) (sv\<lparr>sv_kv := kv\<rparr>) =
      Some (RACS_STREAM_OK, sv1) \<and>
    racs_stream_append example_cf Some (frame_bytes (example_header (replicate 16 9)) [0, 0, 0, 0]) sv1 =
      Some (RACS_STREAM_OK, sv2) \<and>
    mmt_head (st_mmt (sv_store sv1)) = Some hd_a \<and> st_heap (sv_store sv1) hd_a = Some mt \<and>
    (let dir = racs_memtable_write_lsn (e_lsn (last (mt_entries mt))) (st_wal (sv_store sv2))
     in wal_read_log dir = Some (es @ [r]) \<and> we_op r = frame_bytes (example_header (replicate 16 9)) [0, 0, 0, 0] \<and>
        replay_entry example_cf Some example_files 0 (racs_wal_checkpoint_lsn dir) (r, 0) (sv_store sv, sv_offsets sv) = Some (sv_store sv, sv_offsets sv))"
proof -
  let ?h = "example_header (replicate 16 9)"
  obtain sv kv sv1 sv2 t1 t2 where e: "server_create 1 4 8 example_files = Some sv"
    "racs_stream_open (sv_kv sv) 7 = Some (True, kv)" "sv_inv example_cf 4 (Suc (Suc 8)) (sv\<lparr>sv_kv := kv\<rparr>)"
    "racs_stream_append example_cf Some (frame_bytes ?h [0, 0, 0, 0]) (sv\<lparr>sv_kv := kv\<rparr>) = Some (RACS_STREAM_OK, sv1)"
    "racs_stream_append example_cf Some (frame_bytes ?h [0, 0, 0, 0]) sv1 = Some (RACS_STREAM_OK, sv2)"
    "sv_md sv = example_files"
    "racs_metadata_timestamp example_md (offset_of (sv_offsets sv) 7) = Some t1"
    "racs_metadata_timestamp example_md (offset_of (sv_offsets sv1) 7) = Some t2"
    by (rule example_appends)
  have bs: "length [0, 0, 0, 0 :: racs_uint8] = unat (frm_block_size ?h)" by (simp add: example_header_def)
  have wf: "frame_wf ?h" by (rule example_header_wf) simp
  have md: "racs_metadata_get (cf_dir example_cf) (sv_md (sv\<lparr>sv_kv := kv\<rparr>)) (stream_id ?h) = Some (Some example_md)"
    using example_get e(6) by (simp add: example_cf_def example_header_def)
  have ts: "racs_metadata_timestamp example_md (offset_of (sv_offsets (sv\<lparr>sv_kv := kv\<rparr>)) (stream_id ?h)) = Some t1"
    "racs_metadata_timestamp example_md (offset_of (sv_offsets sv1) (stream_id ?h)) = Some t2"
    using e(7,8) by (simp_all add: example_header_def)
  from checkpoint_skips_next [OF e(3) wf bs wf bs md ts(1) e(4) md ts(2) e(5)]
  obtain hd_a mt es r where c: "mmt_head (st_mmt (sv_store sv1)) = Some hd_a" "st_heap (sv_store sv1) hd_a = Some mt"
    "let dir = racs_memtable_write_lsn (e_lsn (last (mt_entries mt))) (st_wal (sv_store sv2))
     in wal_read_log dir = Some (es @ [r]) \<and> we_op r = frame_bytes ?h [0, 0, 0, 0] \<and>
        (\<forall>cf z md lsn pos s. replay_entry cf z md lsn (racs_wal_checkpoint_lsn dir) (r, pos) s = Some s)"
    by blast
  have "let dir = racs_memtable_write_lsn (e_lsn (last (mt_entries mt))) (st_wal (sv_store sv2))
     in wal_read_log dir = Some (es @ [r]) \<and> we_op r = frame_bytes ?h [0, 0, 0, 0] \<and>
        replay_entry example_cf Some example_files 0 (racs_wal_checkpoint_lsn dir) (r, 0) (sv_store sv, sv_offsets sv) = Some (sv_store sv, sv_offsets sv)"
    using c(3) unfolding Let_def by blast
  with e(1,2,4,5) c(1,2) show ?thesis by blast
qed

lemma elapsed_example: "trunc_int (double (double (double 18446744073709551615 / 192000) * 1000)) < 4611686018427387904"
  by code_simp

lemma example_ready: "md_ready example_cf example_files 7"
proof -
  have "racs_metadata_timestamp example_md x \<noteq> None" for x
  proof -
    have "elapsed_ms example_md x \<le> elapsed_ms example_md 18446744073709551615"
      using unsigned_less [of x, where 'a = nat] by (intro elapsed_mono) simp
    also have "\<dots> < 2 ^ 62"
      using elapsed_example by (simp add: elapsed_ms_def byte_rate_def example_md_def)
    finally have hi: "elapsed_ms example_md x < 2 ^ 62" .
    have "elapsed_ms example_md 0 \<le> elapsed_ms example_md x" by (rule elapsed_mono) simp
    moreover have "elapsed_ms example_md 0 = 0" by (simp add: elapsed_ms_def trunc_int_def)
    ultimately have lo: "0 \<le> elapsed_ms example_md x" by simp
    have "\<exists>t. racs_metadata_timestamp example_md x = Some t \<and> sint t = elapsed_ms example_md x + sint (md_ref example_md)"
      by (rule timestamp_elapsed [OF _ _ _ lo hi]) (simp_all add: byte_rate_def example_md_def)
    then show ?thesis by auto
  qed
  then show ?thesis using example_get by (simp add: md_ready_def example_cf_def)
qed

theorem replay_exact_witness:
  "\<exists>wal dir st st' offs' es. wal_run 1 (replicate 2 (frame_bytes (example_header (replicate 16 9)) [0, 0, 0, 0]))
      (racs_wal_create []) = Some (wal, dir) \<and>
    racs_multi_memtable_create 1 4 (empty_store []) = Some st \<and>
    racs_wal_replay example_cf Some example_files wal (racs_memtable_write_lsn 0 dir) (st, racs_offsets_create) = Some (st', offs') \<and>
    mm_inv 4 es [] st' \<and> map entry_block es = [(7, [0, 0, 0, 0])] \<and> offset_of offs' 7 = 4"
proof -
  let ?h = "example_header (replicate 16 9)" and ?pcm = "[0, 0, 0, 0 :: racs_uint8]"
  let ?ops = "replicate 2 (frame_bytes ?h ?pcm)" and ?fs = "[(?h, ?pcm, 0), (?h, ?pcm, 1)]"
  have "length (frame_bytes ?h ?pcm) < 2 ^ 60" by (simp add: frame_bytes_def header_bytes_def example_header_def)
  then obtain wal dir ss where w: "wal_run 1 ?ops (racs_wal_create []) = Some (wal, dir)" "wal_inv ss (wal, dir)"
    "seg_records ss = number 0 ?ops"
    by (rule_tac wal_run_create [of 1 ?ops]) auto
  have fs: "seg_records ss = map rec_of ?fs" unfolding w(3) by (simp add: rec_of_def numeral_eq_Suc)
  have inv: "wal_inv ss (wal, racs_memtable_write_lsn 0 dir)" by (rule wal_inv_manifest [OF w(2)])
  have ok: "logged_ok example_cf example_files ?fs"
    using example_header_wf [of "replicate 16 9"] example_ready by (simp add: logged_ok_def frame_ok_def example_header_def)
  have cap: "cap_ok 4" "1 \<le> (1 :: int)" "0 < RACS_MAX_OFFSETS" by (simp_all add: cap_ok_def RACS_MAX_OFFSETS_def)
  obtain st where st: "racs_multi_memtable_create 1 4 (empty_store []) = Some st" "mm_reach 1 4 [] [] st"
    using create_reach [OF cap(2,1)] by blast
  have mm: "mm_inv 4 [] [] st" by (rule mm_reach_inv [OF st(2) cap(2,1)])
  have offs: "offsets_inv racs_offsets_create" "offset_of racs_offsets_create 7 = 0"
    using offsets_create_inv [OF cap(3)] offsets_create_cur [OF cap(3)] by (simp_all add: racs_offsets_create_def)
  from replay_exact [OF inv fs ok mm cap(1) offs(1), of Some wal] obtain st' offs' es where
    "racs_wal_replay example_cf Some example_files wal (racs_memtable_write_lsn 0 dir) (st, racs_offsets_create) = Some (st', offs')"
    "mm_inv 4 ([] @ es) [] st'" "map entry_block es = map logged_block (above 0 ?fs)"
    "\<forall>sid. offset_of offs' sid = offset_of racs_offsets_create sid + (\<Sum>f\<leftarrow>above 0 ?fs. logged_advance Some sid f)"
    unfolding checkpoint_manifest by blast
  with w(1) st(1) offs(2) show ?thesis
    by (intro exI [of _ wal] exI [of _ dir] exI [of _ st] exI [of _ st'] exI [of _ offs'] exI [of _ es])
       (simp add: logged_block_def logged_advance_def block_advance_def example_header_def)
qed

end
