(* ===== verification/Range.thy ===== *)
theory Range
  imports Samples Cache Filelist Recovery
begin

text \<open>
  Reading a range of a stream, \<^verbatim>\<open>src/src/range.c\<close>: the segment files of the range are found by their
  names, read through the cache and scanned, then the tables in memory are scanned. The file system is a
  parameter: \<open>opendir\<close> lists a directory tree and \<open>file_at\<close> are the files by path; the decompressor of
  the zstd library is one too. The theorem states which samples a range returns.
\<close>

section \<open>Definitions\<close>

text \<open>
  The lookup in the cache, with the file_at of the file (\<open>None\<close>: it cannot be opened). The first
  component of the result is the data, or null.
\<close>

definition racs_range_from_cache_or_sstable :: "bytes racs_cache \<Rightarrow> racs_uint64 \<Rightarrow> int \<Rightarrow> bytes option
    \<Rightarrow> (bytes option \<times> bytes racs_cache) option" where
  "racs_range_from_cache_or_sstable cache sid time file =
     do { (data, cache) \<leftarrow> racs_cache_get (sid, word_of_int time) cache;
          case data of
            Some d \<Rightarrow> Some (Some d, cache)
          | None \<Rightarrow>
              (case racs_sstable_read file of
                 None \<Rightarrow> Some (None, cache)
               | Some sst \<Rightarrow>
                   do { d \<leftarrow> sst_data sst;
                        cache \<leftarrow> racs_cache_put (sid, word_of_int time) d cache;
                        Some (Some d, cache) }) }"

text \<open>One entry: \<open>None\<close> when a sample of all channels has less than one byte (division by zero).\<close>

definition range_entry :: "(bytes \<Rightarrow> bytes option) \<Rightarrow> racs_uint64 \<Rightarrow> int \<Rightarrow> int \<Rightarrow> racs_memtable_entry \<Rightarrow> racs_pcm
    \<Rightarrow> racs_pcm option" where
  "range_entry zstd_decompress sid from to e pcm =
     (let time = sint (snd (e_key e))
      in if fst (e_key e) = sid \<and> from \<le> time \<and> time \<le> to
         then if e_flags e = 1
              then (case zstd_decompress (take (unat (e_block_size e)) (e_block e)) of
                      None \<Rightarrow> Some pcm
                    | Some d \<Rightarrow> if frame_size pcm = 0 then None
                        else racs_pcm_write pcm d (of_nat (length d div frame_size pcm)))
              else if frame_size pcm = 0 then None
              else racs_pcm_write pcm (e_block e) (of_nat (unat (e_block_size e) div frame_size pcm))
         else Some pcm)"

fun range_index :: "(bytes \<Rightarrow> bytes option) \<Rightarrow> bytes \<Rightarrow> racs_uint64 \<Rightarrow> int \<Rightarrow> int \<Rightarrow> racs_sstable_index_entry option list
    \<Rightarrow> racs_pcm \<Rightarrow> racs_pcm option" where
  "range_index z data sid from to [] pcm = Some pcm"
| "range_index z data sid from to (ix # ixs) pcm =
     do { i \<leftarrow> ix;
          entry \<leftarrow> racs_memtable_entry_read data (unat (ix_offset i));
          pcm \<leftarrow> (case entry of None \<Rightarrow> Some pcm | Some e \<Rightarrow> range_entry z sid from to e pcm);
          range_index z data sid from to ixs pcm }"

definition racs_range_process_sstable :: "(bytes \<Rightarrow> bytes option) \<Rightarrow> racs_pcm \<Rightarrow> bytes \<Rightarrow> racs_uint64 \<Rightarrow> int \<Rightarrow> int
    \<Rightarrow> racs_pcm option" where
  "racs_range_process_sstable z pcm data sid from to =
     do { (sz, _) \<leftarrow> racs_read_uint64 data 0;
          sst \<leftarrow> racs_sstable_read_in_memory data (unat sz);
          range_index z data sid from to (sst_index sst) pcm }"

fun range_files :: "(bytes \<Rightarrow> bytes option) \<Rightarrow> (string \<Rightarrow> bytes option) \<Rightarrow> racs_uint64 \<Rightarrow> int \<Rightarrow> int \<Rightarrow> string list
    \<Rightarrow> racs_pcm \<times> bytes racs_cache \<Rightarrow> (racs_pcm \<times> bytes racs_cache) option" where
  "range_files z file_at sid from to [] s = Some s"
| "range_files z file_at sid from to (file_path # fpaths) (pcm, cache) =
     do { s \<leftarrow>
            (if racs_is_tmpfile file_path then Some (pcm, cache)
             else do { time \<leftarrow> racs_time_from_path file_path;
                       if from \<le> time \<and> time \<le> to
                       then do { (data, cache) \<leftarrow> racs_range_from_cache_or_sstable cache sid time (file_at file_path);
                                 case data of
                                   None \<Rightarrow> Some (pcm, cache)
                                 | Some d \<Rightarrow>
                                     do { pcm \<leftarrow> racs_range_process_sstable z pcm d sid from to; Some (pcm, cache) } }
                       else Some (pcm, cache) });
          range_files z file_at sid from to fpaths s }"

fun range_entries :: "(bytes \<Rightarrow> bytes option) \<Rightarrow> racs_uint64 \<Rightarrow> int \<Rightarrow> int \<Rightarrow> racs_memtable_entry list \<Rightarrow> racs_pcm
    \<Rightarrow> racs_pcm option" where
  "range_entries z sid from to [] pcm = Some pcm"
| "range_entries z sid from to (e # es) pcm =
     do { pcm \<leftarrow> range_entry z sid from to e pcm; range_entries z sid from to es pcm }"

text \<open>The loop over the linked tables.\<close>

partial_function (option) range_tables :: "(bytes \<Rightarrow> bytes option) \<Rightarrow> racs_uint64 \<Rightarrow> int \<Rightarrow> int \<Rightarrow> mt_addr option \<Rightarrow> store
    \<Rightarrow> racs_pcm \<Rightarrow> racs_pcm option" where
  "range_tables z sid from to p st pcm =
     (case p of
        None \<Rightarrow> Some pcm
      | Some a \<Rightarrow>
          do { mt \<leftarrow> st_heap st a;
               pcm \<leftarrow> range_entries z sid from to (mt_entries mt) pcm;
               range_tables z sid from to (mt_next mt) st pcm })"

definition racs_range_as_timestamp :: "(bytes \<Rightarrow> bytes option) \<Rightarrow> string \<Rightarrow> (string \<Rightarrow> (string \<times> fs_node) list option)
    \<Rightarrow> (string \<Rightarrow> bytes option) \<Rightarrow> store \<Rightarrow> racs_uint64 \<Rightarrow> int \<Rightarrow> int \<Rightarrow> racs_pcm \<times> bytes racs_cache
    \<Rightarrow> (racs_pcm \<times> bytes racs_cache) option" where
  "racs_range_as_timestamp z racs_time_dir opendir file_at st sid from to s =
     do { path \<leftarrow> racs_time_range_to_path racs_time_dir from to;
          list \<leftarrow> get_sorted_filelist path (opendir path);
          (pcm, cache) \<leftarrow> range_files z file_at sid from to (fl_files list) s;
          pcm \<leftarrow> range_tables z sid from to (mmt_head (st_mmt st)) st pcm;
          Some (pcm, cache) }"

text \<open>\<open>(racs_time) x\<close>\<close>

definition to_time :: "rat \<Rightarrow> int option" where
  "to_time x = (let t = trunc_int x in if - (2 ^ 63) \<le> t \<and> t < 2 ^ 63 then Some t else None)"

text \<open>\<open>pcm\<close> is the uninitialised structure of the caller; a first component of \<open>False\<close> is \<open>RACS_RANGE_STATUS_NOT_FOUND\<close>.\<close>

definition racs_range :: "(bytes \<Rightarrow> bytes option) \<Rightarrow> string \<Rightarrow> (string \<Rightarrow> (string \<times> fs_node) list option)
    \<Rightarrow> (string \<Rightarrow> bytes option) \<Rightarrow> md_files \<Rightarrow> store \<Rightarrow> string \<Rightarrow> rat \<Rightarrow> rat \<Rightarrow> racs_pcm \<times> bytes racs_cache
    \<Rightarrow> (bool \<times> racs_pcm \<times> bytes racs_cache) option" where
  "racs_range z dir opendir file_at md st name start duration s =
     do { let (pcm, cache) = s;
          metadata \<leftarrow> racs_metadata_get dir md (racs_hash name);
          case metadata of
            None \<Rightarrow> Some (False, pcm, cache)
          | Some m \<Rightarrow>
              do { let pcm = racs_pcm_set_bit_depth pcm (md_bit_depth m);
                   let pcm = racs_pcm_set_channels pcm (md_channels m);
                   let pcm = racs_pcm_set_sample_rate pcm (md_sample_rate m);
                   pcm \<leftarrow> racs_pcm_init pcm;
                   from \<leftarrow> to_time (double (double (of_int (sint (md_ref m))) + double (start * 1000)));
                   to \<leftarrow> to_time (double (double (of_int from) + double (duration * 1000)));
                   (pcm, cache) \<leftarrow> racs_range_as_timestamp z dir opendir file_at st (racs_hash name) from to (pcm, cache);
                   Some (True, pcm, cache) } }"

section \<open>What is written to the PCM buffer\<close>

definition fmt_ok :: "racs_pcm \<Rightarrow> bool" where
  "fmt_ok pcm \<longleftrightarrow> ms_ok (pcm_out pcm) \<and> pcm_channels pcm \<in> {1, 2} \<and> pcm_bit_depth pcm \<in> {16, 24}"

text \<open>The whole samples of a block, with \<open>n\<close> bytes per sample of all channels.\<close>

definition whole :: "nat \<Rightarrow> bytes \<Rightarrow> bytes" where
  "whole n d = take (length d div n * n) d"

text \<open>\<open>pcm'\<close> is \<open>pcm\<close> after whole samples \<open>d\<close> have been written.\<close>

definition pcm_ext :: "racs_pcm \<Rightarrow> bytes \<Rightarrow> racs_pcm \<Rightarrow> bool" where
  "pcm_ext pcm d pcm' \<longleftrightarrow> ms_ok (pcm_out pcm') \<and> pcm_channels pcm' = pcm_channels pcm \<and>
     pcm_bit_depth pcm' = pcm_bit_depth pcm \<and> pcm_sample_rate pcm' = pcm_sample_rate pcm \<and>
     frame_size pcm dvd length d \<and> ms_data (pcm_out pcm') = ms_data (pcm_out pcm) @ d \<and>
     pcm_samples pcm' = pcm_samples pcm + of_nat (length d div frame_size pcm)"

lemma frame_size_cases: "fmt_ok pcm \<Longrightarrow> frame_size pcm \<in> {2, 3, 4, 6}"
  by (auto simp: fmt_ok_def frame_size_def)

lemma pcm_ext_fmt: "pcm_ext pcm d pcm' \<Longrightarrow> fmt_ok pcm \<Longrightarrow> fmt_ok pcm' \<and> frame_size pcm' = frame_size pcm"
  by (simp add: pcm_ext_def fmt_ok_def frame_size_def)

lemma pcm_ext_refl: "fmt_ok pcm \<Longrightarrow> pcm_ext pcm [] pcm"
  by (simp add: pcm_ext_def fmt_ok_def)

lemma pcm_ext_trans: "pcm_ext a d b \<Longrightarrow> pcm_ext b e c \<Longrightarrow> pcm_ext a (d @ e) c"
  by (auto simp: pcm_ext_def frame_size_def div_plus_div_distrib_dvd_left)

lemma whole_dvd: "n dvd length (whole n d)" "length (whole n d) div n = length d div n"
proof -
  have "length d div n * n \<le> length d" by simp
  then have len: "length (whole n d) = length d div n * n" by (simp add: whole_def min_absorb2)
  show "n dvd length (whole n d)" by (simp add: len)
  show "length (whole n d) div n = length d div n" by (cases "n = 0") (simp_all add: len)
qed

lemma unat_uint8_64: "unat (ucast x :: racs_uint64) = unat (x :: racs_uint8)"
  by transfer (simp add: take_bit_take_bit)

lemma uint16_less: "unat (x :: racs_uint16) < 65536"
  by transfer (simp add: take_bit_eq_mod nat_less_iff)

lemma pcm_write_whole:
  assumes "fmt_ok pcm" "length d < 2 ^ 56"
  shows "\<exists>pcm'. racs_pcm_write pcm d (of_nat (length d div frame_size pcm)) = Some pcm' \<and>
    pcm_ext pcm (whole (frame_size pcm) d) pcm'"
proof -
  let ?f = "frame_size pcm" and ?s = "of_nat (length d div frame_size pcm) :: racs_uint64"
  let ?p = "unat (pcm_channels pcm) * unat (pcm_bit_depth pcm)"
  have p: "?p = ?f * 8" "?p \<le> 48" using assms(1) by (auto simp: fmt_ok_def frame_size_def)
  have k: "length d div ?f < 2 ^ 56" using assms(2) by (meson div_le_dividend le_less_trans)
  have s: "unat ?s = length d div ?f" using k by (simp add: unsigned_of_nat take_bit_nat_eq_self)
  have eq: "unat (pcm_channels pcm) * (length d div ?f) * unat (pcm_bit_depth pcm) = ?p * (length d div ?f)" by (simp add: ac_simps)
  have bnd: "unat (pcm_channels pcm) * (length d div ?f) * unat (pcm_bit_depth pcm) \<le> 48 * 2 ^ 56"
    unfolding eq using p(2) k by (intro mult_le_mono) auto
  have bnd1: "unat (pcm_channels pcm) * (length d div ?f) < 2 ^ 64"
  proof -
    have "unat (pcm_channels pcm) \<le> 2" using assms(1) by (auto simp: fmt_ok_def)
    then have "unat (pcm_channels pcm) * (length d div ?f) \<le> 2 * 2 ^ 56" using k by (intro mult_le_mono) auto
    then show ?thesis by simp
  qed
  have "unat (ucast (pcm_channels pcm) * ?s * ucast (pcm_bit_depth pcm)) = unat (pcm_channels pcm) * (length d div ?f) * unat (pcm_bit_depth pcm)"
    using bnd bnd1 s by (simp add: unat_word_ariths unat_uint8_64)
  also have "\<dots> = ?f * (length d div ?f) * 8" using p(1) by (metis mult.commute mult.left_commute)
  finally have sz: "unat (ucast (pcm_channels pcm) * ?s * ucast (pcm_bit_depth pcm) div 8) = length d div ?f * ?f"
    by (simp add: unat_div mult.commute)
  have le: "length d div ?f * ?f \<le> length d" by simp
  have ok: "ms_ok (pcm_out pcm)" using assms(1) by (simp add: fmt_ok_def)
  obtain s' where s': "racs_memstream_write (pcm_out pcm) d (length d div ?f * ?f) = Some s'" "ms_ok s'"
    "ms_data s' = ms_data (pcm_out pcm) @ take (length d div ?f * ?f) d" using memstream_write_ok [OF ok le] .
  have fld: "frame_size (pcm\<lparr>pcm_samples := n, pcm_out := x\<rparr>) = ?f" for n x by (simp add: frame_size_def)
  show ?thesis
    using s' by (simp add: racs_pcm_write_def Let_def sz pcm_ext_def fld whole_dvd) (simp add: whole_def)
qed

text \<open>The samples of an entry, and those of a list of entries that belong to the range.\<close>

definition entry_samples :: "(bytes \<Rightarrow> bytes option) \<Rightarrow> racs_memtable_entry \<Rightarrow> bytes" where
  "entry_samples z e =
     (if e_flags e = 1 then case z (e_block e) of None \<Rightarrow> [] | Some d \<Rightarrow> d else e_block e)"

definition in_query :: "racs_uint64 \<Rightarrow> int \<Rightarrow> int \<Rightarrow> racs_memtable_entry \<Rightarrow> bool" where
  "in_query sid from to e \<longleftrightarrow> fst (e_key e) = sid \<and> from \<le> sint (snd (e_key e)) \<and> sint (snd (e_key e)) \<le> to"

definition samples_of :: "(bytes \<Rightarrow> bytes option) \<Rightarrow> nat \<Rightarrow> racs_uint64 \<Rightarrow> int \<Rightarrow> int \<Rightarrow> racs_memtable_entry list \<Rightarrow> bytes" where
  "samples_of z n sid from to es = concat (map (\<lambda>e. whole n (entry_samples z e)) (filter (in_query sid from to) es))"

lemma samples_of_simps [simp]:
  "samples_of z n sid from to [] = []"
  "samples_of z n sid from to (es @ fs) = samples_of z n sid from to es @ samples_of z n sid from to fs"
  by (simp_all add: samples_of_def)

text \<open>No block decompresses to \<open>2 ^ 56\<close> bytes or more.\<close>

definition zstd_bounded :: "(bytes \<Rightarrow> bytes option) \<Rightarrow> bool" where
  "zstd_bounded z \<longleftrightarrow> (\<forall>b d. z b = Some d \<longrightarrow> length d < 2 ^ 56)"

lemma range_entry_ext:
  assumes "fmt_ok pcm" "entry_wf e" "zstd_bounded z"
  shows "\<exists>pcm'. range_entry z sid from to e pcm = Some pcm' \<and> pcm_ext pcm (samples_of z (frame_size pcm) sid from to [e]) pcm'"
proof (cases "in_query sid from to e")
  case False
  then show ?thesis
    using pcm_ext_refl [OF assms(1)] by (auto simp: range_entry_def samples_of_def in_query_def)
next
  case True
  have q: "fst (e_key e) = sid \<and> from \<le> sint (snd (e_key e)) \<and> sint (snd (e_key e)) \<le> to" using True by (simp add: in_query_def)
  have f: "frame_size pcm \<noteq> 0" using frame_size_cases [OF assms(1)] by auto
  have len: "length (e_block e) = unat (e_block_size e)" using assms(2) by (simp add: entry_wf_def)
  then have small: "length (e_block e) < 2 ^ 56" using uint16_less [of "e_block_size e"] by simp
  have nil: "whole n [] = []" for n by (simp add: whole_def)
  show ?thesis
  proof (cases "e_flags e = 1")
    case False
    with pcm_write_whole [OF assms(1) small] f q len show ?thesis
      by (simp add: range_entry_def samples_of_def True entry_samples_def Let_def)
  next
    case fl: True
    show ?thesis
    proof (cases "z (e_block e)")
      case None
      with fl q len pcm_ext_refl [OF assms(1)] show ?thesis
        by (simp add: range_entry_def samples_of_def True entry_samples_def Let_def nil)
    next
      case (Some d)
      then have "length d < 2 ^ 56" using assms(3) by (simp add: zstd_bounded_def)
      from pcm_write_whole [OF assms(1) this] fl f q len Some show ?thesis
        by (simp add: range_entry_def samples_of_def True entry_samples_def Let_def)
    qed
  qed
qed

lemma range_entries_ext:
  "fmt_ok pcm \<Longrightarrow> \<forall>e\<in>set es. entry_wf e \<Longrightarrow> zstd_bounded z \<Longrightarrow>
   \<exists>pcm'. range_entries z sid from to es pcm = Some pcm' \<and> pcm_ext pcm (samples_of z (frame_size pcm) sid from to es) pcm'"
proof (induction es arbitrary: pcm)
  case Nil
  then show ?case using pcm_ext_refl by simp
next
  case (Cons e es)
  then obtain p1 where p1: "range_entry z sid from to e pcm = Some p1" "pcm_ext pcm (samples_of z (frame_size pcm) sid from to [e]) p1"
    using range_entry_ext [of pcm e z sid "from" to] by auto
  note f = pcm_ext_fmt [OF p1(2) Cons.prems(1)]
  with Cons.IH [of p1] Cons.prems obtain p2 where
    "range_entries z sid from to es p1 = Some p2" "pcm_ext p1 (samples_of z (frame_size pcm) sid from to es) p2" by auto
  moreover have "samples_of z (frame_size pcm) sid from to (e # es) =
      samples_of z (frame_size pcm) sid from to [e] @ samples_of z (frame_size pcm) sid from to es"
    by (simp add: samples_of_def)
  ultimately show ?case using p1 pcm_ext_trans [OF p1(2)] by (auto simp del: append_Cons)
qed

lemma range_index_ext:
  assumes "\<And>i. i < length es \<Longrightarrow> racs_memtable_entry_read d (unat (ix_offset (ixs ! i))) =
      Some (if entry_ok (es ! i) then Some (es ! i) else None)"
    and "length ixs = length es" "fmt_ok pcm" "\<forall>e\<in>set es. entry_wf e" "zstd_bounded z"
  shows "\<exists>pcm'. range_index z d sid from to (map Some ixs) pcm = Some pcm' \<and>
    pcm_ext pcm (samples_of z (frame_size pcm) sid from to (filter entry_ok es)) pcm'"
  using assms
proof (induction es arbitrary: ixs pcm)
  case Nil
  then show ?case using pcm_ext_refl by simp
next
  case (Cons e es)
  obtain i ixs' where ixs: "ixs = i # ixs'" using Cons.prems(2) by (cases ixs) auto
  have e: "racs_memtable_entry_read d (unat (ix_offset i)) = Some (if entry_ok e then Some e else None)"
    using Cons.prems(1) [of 0] ixs by simp
  have rest: "racs_memtable_entry_read d (unat (ix_offset (ixs' ! j))) = Some (if entry_ok (es ! j) then Some (es ! j) else None)"
    if "j < length es" for j
    using Cons.prems(1) [of "Suc j"] ixs that by simp
  have "\<exists>p1. (if entry_ok e then range_entry z sid from to e pcm else Some pcm) = Some p1 \<and>
      pcm_ext pcm (if entry_ok e then samples_of z (frame_size pcm) sid from to [e] else []) p1"
    using range_entry_ext [of pcm e z sid "from" to] Cons.prems pcm_ext_refl by auto
  then obtain p1 where p1: "(if entry_ok e then range_entry z sid from to e pcm else Some pcm) = Some p1"
    "pcm_ext pcm (if entry_ok e then samples_of z (frame_size pcm) sid from to [e] else []) p1" by blast
  note f = pcm_ext_fmt [OF p1(2) Cons.prems(3)]
  have len: "length ixs' = length es" and wf: "\<forall>e\<in>set es. entry_wf e" using Cons.prems(2,4) ixs by auto
  have "fmt_ok p1" using f by simp
  from Cons.IH [of ixs' p1, OF rest len this wf Cons.prems(5)] f obtain p2 where
    p2: "range_index z d sid from to (map Some ixs') p1 = Some p2"
      "pcm_ext p1 (samples_of z (frame_size pcm) sid from to (filter entry_ok es)) p2" by auto
  have "range_index z d sid from to (map Some ixs) pcm = Some p2"
    using e p1(1) p2(1) by (auto simp: ixs split: if_splits)
  moreover have "samples_of z (frame_size pcm) sid from to (filter entry_ok (e # es)) =
      (if entry_ok e then samples_of z (frame_size pcm) sid from to [e] else []) @
      samples_of z (frame_size pcm) sid from to (filter entry_ok es)"
    by (simp add: samples_of_def)
  ultimately show ?case using pcm_ext_trans [OF p1(2)] p2(2) f by metis
qed

section \<open>Segments and tables\<close>

lemma file_size_unat:
  assumes "table_ok es"
  shows "unat (of_nat (file_size es) :: racs_uint64) = file_size es"
proof -
  have n: "length es < 2 ^ 16" and wf: "\<forall>e\<in>set es. entry_wf e" using assms by (auto simp: table_ok_def)
  have "length (body_bytes es) \<le> length es * 65566" using wf by (intro length_body_bound) auto
  then have "file_size es \<le> 16 + length es * 65566 + 24 * length es + 2" by (simp add: file_size_def sst_sizes)
  also have "\<dots> \<le> 16 + 65536 * 65566 + 24 * 65536 + 2" using n by simp
  finally have "file_size es < 2 ^ 64" by simp
  then show ?thesis by (simp add: unsigned_of_nat take_bit_nat_eq_self)
qed

lemma process_sstable_ext:
  assumes "table_ok es" "fmt_ok pcm" "zstd_bounded z"
  shows "\<exists>pcm'. racs_range_process_sstable z pcm (sst_bytes es) sid from to = Some pcm' \<and>
    pcm_ext pcm (samples_of z (frame_size pcm) sid from to (filter entry_ok es)) pcm'"
proof -
  have ok: "\<forall>e\<in>set es. entry_wf e" "length es < 2 ^ 16" using assms(1) by (auto simp: table_ok_def)
  have hd: "racs_read_uint64 (sst_bytes es) 0 = Some (of_nat (file_size es), 8)"
    by (simp add: sst_bytes_def u64.read_front)
  note rd = read_in_memory_sst [OF ok(2)]
  have "\<exists>pcm'. range_index z (sst_bytes es) sid from to (map Some (index_from RACS_HEADER_SIZE es)) pcm = Some pcm' \<and>
      pcm_ext pcm (samples_of z (frame_size pcm) sid from to (filter entry_ok es)) pcm'"
    using entry_read_indexed [OF ok] assms(2,3) ok(1) by (intro range_index_ext) auto
  then show ?thesis
    by (auto simp: racs_range_process_sstable_def hd file_size_unat [OF assms(1)] rd)
qed

text \<open>The segments on disk: the time in the name and the entries, in the order of time.\<close>

type_synonym segments = "(int \<times> racs_memtable_entry list) list"

definition segments_ok :: "string \<Rightarrow> segments \<Rightarrow> (string \<Rightarrow> bytes option) \<Rightarrow> bool" where
  "segments_ok dir tabs file_at \<longleftrightarrow> sorted_wrt (<) (map fst tabs) \<and>
     (\<forall>(t, es)\<in>set tabs. in_range t \<and> table_ok es \<and> file_at (racs_time_to_path dir t False) = Some (sst_bytes es))"

text \<open>Whatever the cache holds under the time of a segment is the contents of its file.\<close>

definition cached_ok :: "segments \<Rightarrow> (racs_key \<times> bytes) list \<Rightarrow> bool" where
  "cached_ok tabs l \<longleftrightarrow> (\<forall>(k, d)\<in>set l. \<forall>(t, es)\<in>set tabs. word_of_int t = snd k \<longrightarrow> d = sst_bytes es)"

definition cache_good :: "segments \<Rightarrow> bytes racs_cache \<Rightarrow> bool" where
  "cache_good tabs c \<longleftrightarrow> 2 \<le> c_capacity c \<and> (\<exists>l. cache_rep c l \<and> cached_ok tabs l)"

lemma cached_ok_mono: "cached_ok tabs l \<Longrightarrow> set l' \<subseteq> set l \<Longrightarrow> cached_ok tabs l'"
  by (fastforce simp: cached_ok_def)

lemma cached_ok_insert:
  "cached_ok tabs l \<Longrightarrow> set l' \<subseteq> insert (k, d) (set l) \<Longrightarrow>
   (\<And>t es. (t, es) \<in> set tabs \<Longrightarrow> word_of_int t = snd k \<Longrightarrow> d = sst_bytes es) \<Longrightarrow> cached_ok tabs l'"
  by (fastforce simp: cached_ok_def)

lemma lru_get_subset: "set (snd (lru_get k l)) \<subseteq> set l" "fst (lru_get k l) = Some d \<Longrightarrow> (k, d) \<in> set l"
  by (auto simp: lru_get_def lru_touch_def map_of_SomeD split: option.splits)

lemma lru_put_subset: "set (lru_put cap k v l) \<subseteq> insert (k, v) (set l)"
  by (auto simp: lru_put_def lru_touch_def map_of_SomeD split: option.splits dest: in_set_takeD)

lemma time_inj:
  assumes "in_range t" "in_range t'" "(word_of_int t :: racs_uint64) = word_of_int t'"
  shows "t = t'"
proof -
  have "uint (word_of_int u :: racs_uint64) = u" if "in_range u" for u
    using that by (simp add: in_range_def time_limit_def unsigned_of_int take_bit_int_eq_self)
  then show ?thesis using assms by metis
qed

lemma segment_unique:
  assumes "segments_ok dir tabs file_at" "(t, es) \<in> set tabs" "(t', es') \<in> set tabs"
    "(word_of_int t :: racs_uint64) = word_of_int t'"
  shows "es' = es"
proof -
  have "t = t'" using assms by (intro time_inj) (auto simp: segments_ok_def)
  moreover have "distinct (map fst tabs)"
    using assms(1) by (simp add: segments_ok_def strict_sorted_iff)
  ultimately show ?thesis using assms(2,3) by (metis eq_key_imp_eq_value)
qed

lemma fetch_segment:
  assumes "segments_ok dir tabs file_at" "(t, es) \<in> set tabs" "cache_good tabs c"
  shows "\<exists>c'. racs_range_from_cache_or_sstable c sid t (Some (sst_bytes es)) = Some (Some (sst_bytes es), c') \<and>
    cache_good tabs c'"
proof -
  let ?k = "(sid, word_of_int t) :: racs_key"
  obtain l where l: "cache_rep c l" "cached_ok tabs l"
    and cap: "2 \<le> c_capacity c" using assms(3) by (auto simp: cache_good_def)
  obtain c1 where c1: "racs_cache_get ?k c = Some (fst (lru_get ?k l), c1)" "cache_rep c1 (snd (lru_get ?k l))"
    "c_capacity c1 = c_capacity c" using cache_rep_get [OF l(1)] by blast
  have good1: "cache_good tabs c1"
    using c1(2,3) cap cached_ok_mono [OF l(2) lru_get_subset(1)] by (auto simp: cache_good_def)
  show ?thesis
  proof (cases "fst (lru_get ?k l)")
    case (Some d)
    then have "d = sst_bytes es" using lru_get_subset(2) [OF Some] l(2) assms(2) by (fastforce simp: cached_ok_def)
    with Some c1(1) good1 show ?thesis by (simp add: racs_range_from_cache_or_sstable_def)
  next
    case None
    have tab: "table_ok es" using assms(1,2) by (auto simp: segments_ok_def)
    obtain sst where sst: "racs_sstable_read (Some (sst_bytes es)) = Some sst" "sst_data sst = Some (sst_bytes es)"
      using sstable_read_bytes [OF tab] by metis
    obtain c2 where c2: "racs_cache_put ?k (sst_bytes es) c1 = Some c2"
      "cache_rep c2 (lru_put (c_capacity c1) ?k (sst_bytes es) (snd (lru_get ?k l)))" "c_capacity c2 = c_capacity c1"
      using cache_rep_put [OF c1(2), of ?k "sst_bytes es"] cap c1(3) by auto
    have "cached_ok tabs (lru_put (c_capacity c1) ?k (sst_bytes es) (snd (lru_get ?k l)))"
    proof (rule cached_ok_insert [OF l(2)])
      show "set (lru_put (c_capacity c1) ?k (sst_bytes es) (snd (lru_get ?k l))) \<subseteq> insert (?k, sst_bytes es) (set l)"
        using lru_put_subset [of "c_capacity c1" ?k "sst_bytes es" "snd (lru_get ?k l)"] lru_get_subset(1) [of ?k l] by blast
    qed (use segment_unique [OF assms(1) _ assms(2)] in auto)
    then have "cache_good tabs c2" using c2(2,3) c1(3) cap by (auto simp: cache_good_def)
    with None c1(1) c2(1) sst show ?thesis by (simp add: racs_range_from_cache_or_sstable_def)
  qed
qed

lemma range_files_skip_tmp:
  "range_files z file_at sid from to ps s = range_files z file_at sid from to (filter (\<lambda>p. \<not> racs_is_tmpfile p) ps) s"
proof (induction ps arbitrary: s)
  case (Cons p ps)
  then have "range_files z file_at sid from to ps = range_files z file_at sid from to (filter (\<lambda>p. \<not> racs_is_tmpfile p) ps)"
    by (rule ext)
  then show ?case by (cases s; cases "racs_is_tmpfile p") simp_all
qed simp

definition covered :: "int \<Rightarrow> int \<Rightarrow> segments \<Rightarrow> racs_memtable_entry list" where
  "covered from to tabs = filter entry_ok (concat (map snd (filter (\<lambda>(t, es). from \<le> t \<and> t \<le> to) tabs)))"

lemma range_files_ext:
  assumes "segments_ok dir tabs file_at" "strstr dir ''.racs/seg'' = None" "zstd_bounded z"
  shows "set sub \<subseteq> set tabs \<Longrightarrow> fmt_ok pcm \<Longrightarrow> cache_good tabs c \<Longrightarrow>
   \<exists>pcm' c'. range_files z file_at sid from to (map (\<lambda>(t, es). racs_time_to_path dir t False) sub) (pcm, c) = Some (pcm', c') \<and>
     pcm_ext pcm (samples_of z (frame_size pcm) sid from to (covered from to sub)) pcm' \<and> cache_good tabs c'"
proof (induction sub arbitrary: pcm c)
  case Nil
  then show ?case using pcm_ext_refl by (simp add: covered_def)
next
  case (Cons te sub)
  obtain t es where te: "te = (t, es)" by (cases te)
  have in_tabs: "(t, es) \<in> set tabs" using Cons.prems(1) te by simp
  then have t: "in_range t" "table_ok es" "file_at (racs_time_to_path dir t False) = Some (sst_bytes es)"
    using assms(1) by (auto simp: segments_ok_def)
  have path: "\<not> racs_is_tmpfile (racs_time_to_path dir t False)" "racs_time_from_path (racs_time_to_path dir t False) = Some t"
    using tmpfile_of_path [OF t(1)] time_from_to_path [OF t(1) assms(2)] by simp_all
  obtain c1 where c1: "racs_range_from_cache_or_sstable c sid t (Some (sst_bytes es)) = Some (Some (sst_bytes es), c1)" "cache_good tabs c1"
    using fetch_segment [OF assms(1) in_tabs Cons.prems(3)] by blast
  obtain p1 where p1: "racs_range_process_sstable z pcm (sst_bytes es) sid from to = Some p1"
    "pcm_ext pcm (samples_of z (frame_size pcm) sid from to (filter entry_ok es)) p1"
    using process_sstable_ext [OF t(2) Cons.prems(2) assms(3)] by blast
  have sub: "set sub \<subseteq> set tabs" using Cons.prems(1) by simp
  show ?case
  proof (cases "from \<le> t \<and> t \<le> to")
    case False
    with Cons.IH [OF sub Cons.prems(2,3)] te path show ?thesis by (auto simp: covered_def)
  next
    case True
    note f = pcm_ext_fmt [OF p1(2) Cons.prems(2)]
    then have "fmt_ok p1" by simp
    from Cons.IH [OF sub this c1(2)] f obtain p2 c2 where
      p2: "range_files z file_at sid from to (map (\<lambda>(t, es). racs_time_to_path dir t False) sub) (p1, c1) = Some (p2, c2)"
        "pcm_ext p1 (samples_of z (frame_size pcm) sid from to (covered from to sub)) p2" "cache_good tabs c2" by auto
    have "covered from to (te # sub) = filter entry_ok es @ covered from to sub" using True by (simp add: covered_def te)
    with pcm_ext_trans [OF p1(2) p2(2)] p2 True te path t(3) c1(1) p1(1) show ?thesis by simp
  qed
qed

section \<open>The result of a range\<close>

text \<open>
  The file system: a directory has the finished segments below it and any number of temporary files
  of segments that are being written.
\<close>

definition segment_dirs :: "string \<Rightarrow> segments \<Rightarrow> int list \<Rightarrow> (string \<Rightarrow> (string \<times> fs_node) list option) \<Rightarrow> bool" where
  "segment_dirs dir tabs tmps opendir \<longleftrightarrow> (\<forall>t\<in>set tmps. in_range t) \<and>
     (\<forall>p. mset (tree_files p (case opendir p of None \<Rightarrow> [] | Some es \<Rightarrow> es)) =
        mset (filter (prefix (p @ ''/'')) (map (\<lambda>(t, es). racs_time_to_path dir t False) tabs @
          map (\<lambda>t. racs_time_to_path dir t True) tmps)))"

text \<open>The entries of the one table that the list of tables holds.\<close>

definition mem_entries :: "store \<Rightarrow> racs_memtable_entry list \<Rightarrow> bool" where
  "mem_entries st es \<longleftrightarrow> (\<exists>h m. mmt_head (st_mmt st) = Some h \<and> st_heap st h = Some m \<and> mt_next m = None \<and>
     mt_entries m = es) \<and> (\<forall>e\<in>set es. entry_wf e)"

lemma mm_inv_mem_entries: "mm_inv capacity hist fl st \<Longrightarrow> \<exists>es. mem_entries st es"
  by (auto simp: mm_inv_def mem_entries_def)

lemma listing_eq:
  "\<exists>list. get_sorted_filelist p (opendir p) = Some list \<and>
     fl_files list = sort (tree_files p (case opendir p of None \<Rightarrow> [] | Some es \<Rightarrow> es))"
proof (cases "opendir p")
  case None
  then show ?thesis by (simp add: get_sorted_filelist_def racs_filelist_sort_def racs_filelist_create_def)
next
  case (Some es)
  have "fl_inv racs_filelist_create" by (simp add: fl_inv_def racs_filelist_create_def)
  from list_files_tree [OF this, of p es] Some show ?thesis
    by (auto simp: get_sorted_filelist_def racs_filelist_sort_def racs_filelist_create_def)
qed

lemma segment_paths_sorted:
  assumes "segments_ok dir tabs file_at"
  shows "sorted (map (\<lambda>(t, es). racs_time_to_path dir t False) (filter P tabs))"
proof -
  have "sorted_wrt (\<lambda>a b. fst a < fst b) tabs" and r: "\<forall>x\<in>set tabs. in_range (fst x)"
    using assms by (auto simp: segments_ok_def sorted_wrt_map)
  then have "sorted_wrt (\<lambda>a b. fst a < fst b) (filter P tabs)" by (simp add: sorted_wrt_filter)
  then have "sorted_wrt (\<lambda>a b. racs_time_to_path dir (fst a) False \<le> racs_time_to_path dir (fst b) False) (filter P tabs)"
  proof (rule sorted_wrt_mono_rel [rotated])
    fix a b assume "a \<in> set (filter P tabs)" "b \<in> set (filter P tabs)" "fst a < fst b"
    with r have "strcmp (racs_time_to_path dir (fst a) False) (racs_time_to_path dir (fst b) False) < 0"
      by (subst time_path_order) auto
    then show "racs_time_to_path dir (fst a) False \<le> racs_time_to_path dir (fst b) False" by (simp add: strcmp_order)
  qed
  then show ?thesis by (simp add: sorted_wrt_map case_prod_unfold)
qed

lemma range_listing:
  assumes "segments_ok dir tabs file_at" "segment_dirs dir tabs tmps opendir"
  obtains list where "get_sorted_filelist r (opendir r) = Some list"
    "filter (\<lambda>p. \<not> racs_is_tmpfile p) (fl_files list) =
     map (\<lambda>(t, es). racs_time_to_path dir t False) (filter (\<lambda>(t, es). prefix (r @ ''/'') (racs_time_to_path dir t False)) tabs)"
proof -
  let ?T = "tree_files r (case opendir r of None \<Rightarrow> [] | Some es \<Rightarrow> es)"
  let ?S = "map (\<lambda>(t, es). racs_time_to_path dir t False) (filter (\<lambda>(t, es). prefix (r @ ''/'') (racs_time_to_path dir t False)) tabs)"
  let ?nt = "\<lambda>p. \<not> racs_is_tmpfile p"
  obtain list where list: "get_sorted_filelist r (opendir r) = Some list" "fl_files list = sort ?T"
    using listing_eq by blast
  have tab: "\<forall>x\<in>set tabs. ?nt (racs_time_to_path dir (fst x) False)"
    using assms(1) tmpfile_of_path by (auto simp: segments_ok_def)
  have tmp: "\<forall>t\<in>set tmps. racs_is_tmpfile (racs_time_to_path dir t True)"
    using assms(2) tmpfile_of_path by (auto simp: segment_dirs_def)
  have t1: "filter ?nt (filter Q (map (\<lambda>(t, es). racs_time_to_path dir t False) tabs)) =
      map (\<lambda>(t, es). racs_time_to_path dir t False) (filter (\<lambda>(t, es). Q (racs_time_to_path dir t False)) tabs)" for Q
    using tab by (induction tabs) auto
  have t2: "filter ?nt (filter Q (map (\<lambda>t. racs_time_to_path dir t True) tmps)) = []" for Q
    using tmp by (induction tmps) auto
  have "mset ?T = mset (filter (prefix (r @ ''/'')) (map (\<lambda>(t, es). racs_time_to_path dir t False) tabs @
          map (\<lambda>t. racs_time_to_path dir t True) tmps))"
    using assms(2) by (simp add: segment_dirs_def)
  then have "mset (filter ?nt ?T) = mset (filter ?nt (filter (prefix (r @ ''/'')) (map (\<lambda>(t, es). racs_time_to_path dir t False) tabs @
          map (\<lambda>t. racs_time_to_path dir t True) tmps)))"
    by (metis mset_filter)
  also have "\<dots> = mset ?S" by (simp only: filter_append t1 t2 append_Nil2)
  finally have "sort (filter ?nt ?T) = ?S"
    by (intro properties_for_sort segment_paths_sorted [OF assms(1)]) simp
  then have "filter ?nt (sort ?T) = ?S" by (simp add: filter_sort)
  with list that show ?thesis by simp
qed

lemma covered_prefix:
  assumes "\<And>t es. (t, es) \<in> set tabs \<Longrightarrow> from \<le> t \<Longrightarrow> t \<le> to \<Longrightarrow> Q t"
  shows "covered from to (filter (\<lambda>(t, es). Q t) tabs) = covered from to tabs"
proof -
  have "filter (\<lambda>(t, es). from \<le> t \<and> t \<le> to) (filter (\<lambda>(t, es). Q t) tabs) = filter (\<lambda>(t, es). from \<le> t \<and> t \<le> to) tabs"
    using assms by (induction tabs) auto
  then show ?thesis by (simp add: covered_def)
qed

lemma range_timestamp_ext:
  assumes r: "in_range from" "in_range to" "from \<le> to" "dir \<noteq> []" "hd dir = CHR ''/''" "strstr dir ''.racs/seg'' = None"
    and fs: "segments_ok dir tabs file_at" "segment_dirs dir tabs tmps opendir"
    and m: "mem_entries st es" and pcm: "fmt_ok pcm" and c: "cache_good tabs c" and z: "zstd_bounded z"
  shows "\<exists>pcm' c'. racs_range_as_timestamp z dir opendir file_at st sid from to (pcm, c) = Some (pcm', c') \<and>
    cache_good tabs c' \<and>
    pcm_ext pcm (samples_of z (frame_size pcm) sid from to (covered from to tabs @ es)) pcm'"
proof -
  obtain p where p: "racs_time_range_to_path dir from to = Some p"
    using range_dir_prefix [OF r(1,2) order_refl r(3-5)] by blast
  have pre: "prefix (p @ ''/'') (racs_time_to_path dir t False)" if "from \<le> t" "t \<le> to" for t
    using range_dir_prefix [OF r(1,2) that r(4,5)] p by (auto simp: prefix_def)
  let ?sub = "filter (\<lambda>(t, es). prefix (p @ ''/'') (racs_time_to_path dir t False)) tabs"
  obtain list where list: "get_sorted_filelist p (opendir p) = Some list"
    "filter (\<lambda>p. \<not> racs_is_tmpfile p) (fl_files list) = map (\<lambda>(t, es). racs_time_to_path dir t False) ?sub"
    using range_listing [OF fs] .
  obtain p1 c1 where p1: "range_files z file_at sid from to (map (\<lambda>(t, es). racs_time_to_path dir t False) ?sub) (pcm, c) = Some (p1, c1)"
    "pcm_ext pcm (samples_of z (frame_size pcm) sid from to (covered from to ?sub)) p1" "cache_good tabs c1"
    using range_files_ext [OF fs(1) r(6) z _ pcm c, of ?sub sid "from" to] by auto
  have cov: "covered from to ?sub = covered from to tabs" by (rule covered_prefix) (rule pre)
  obtain h mt where mt: "mmt_head (st_mmt st) = Some h" "st_heap st h = Some mt" "mt_next mt = None" "mt_entries mt = es"
    "\<forall>e\<in>set es. entry_wf e" using m by (auto simp: mem_entries_def)
  note f = pcm_ext_fmt [OF p1(2) pcm]
  then have "fmt_ok p1" by simp
  from range_entries_ext [OF this mt(5) z] f obtain p2 where
    p2: "range_entries z sid from to es p1 = Some p2" "pcm_ext p1 (samples_of z (frame_size pcm) sid from to es) p2" by metis
  have "range_tables z sid from to (mmt_head (st_mmt st)) st p1 = Some p2"
    using mt p2(1) by (simp add: range_tables.simps)
  moreover have "range_files z file_at sid from to (fl_files list) (pcm, c) = Some (p1, c1)"
    by (subst range_files_skip_tmp) (simp add: list(2) p1(1))
  ultimately show ?thesis
    using p list(1) p1(3) pcm_ext_trans [OF p1(2) p2(2)] by (simp add: racs_range_as_timestamp_def cov)
qed

lemma pcm_start:
  assumes "md_channels m \<in> {1, 2}" "md_bit_depth m \<in> {16, 24}"
  obtains p where "racs_pcm_init (racs_pcm_set_sample_rate (racs_pcm_set_channels (racs_pcm_set_bit_depth pcm (md_bit_depth m)) (md_channels m)) (md_sample_rate m)) = Some p"
    "fmt_ok p" "frame_size p = unat (md_channels m) * unat (md_bit_depth m) div 8" "ms_data (pcm_out p) = replicate 8 0"
    "pcm_samples p = 0" "unat (pcm_channels p) = unat (md_channels m)" "unat (pcm_bit_depth p) = unat (md_bit_depth m)"
    "pcm_sample_rate p = md_sample_rate m"
proof -
  let ?q = "racs_pcm_set_sample_rate (racs_pcm_set_channels (racs_pcm_set_bit_depth pcm (md_bit_depth m)) (md_channels m)) (md_sample_rate m)"
  obtain s where s: "racs_pcm_init ?q = Some (?q\<lparr>pcm_samples := 0, pcm_out := s\<rparr>)" "ms_ok s" "ms_data s = replicate 8 0"
    by (rule pcm_init_eq)
  have "fmt_ok (?q\<lparr>pcm_samples := 0, pcm_out := s\<rparr>)"
    "frame_size (?q\<lparr>pcm_samples := 0, pcm_out := s\<rparr>) = unat (md_channels m) * unat (md_bit_depth m) div 8"
    "unat (pcm_channels (?q\<lparr>pcm_samples := 0, pcm_out := s\<rparr>)) = unat (md_channels m)"
    "unat (pcm_bit_depth (?q\<lparr>pcm_samples := 0, pcm_out := s\<rparr>)) = unat (md_bit_depth m)"
    using assms s(2) by (auto simp: fmt_ok_def frame_size_def racs_pcm_set_sample_rate_def racs_pcm_set_channels_def racs_pcm_set_bit_depth_def)
  then show thesis using that [OF s(1)] s(3) by (simp add: racs_pcm_set_sample_rate_def)
qed

lemma range_ext:
  assumes md: "racs_metadata_get dir md (racs_hash name) = Some (Some m)" "md_channels m \<in> {1, 2}" "md_bit_depth m \<in> {16, 24}"
    and t: "to_time (double (double (of_int (sint (md_ref m))) + double (start * 1000))) = Some from"
      "to_time (double (double (of_int from) + double (duration * 1000))) = Some to"
    and r: "in_range from" "in_range to" "from \<le> to" "dir \<noteq> []" "hd dir = CHR ''/''" "strstr dir ''.racs/seg'' = None"
    and fs: "segments_ok dir tabs file_at" "segment_dirs dir tabs tmps opendir"
    and rest: "mem_entries st es" "cache_good tabs c" "zstd_bounded z"
  shows "\<exists>p pcm' c'. racs_range z dir opendir file_at md st name start duration (pcm, c) = Some (True, pcm', c') \<and>
    cache_good tabs c' \<and> fmt_ok p \<and> ms_data (pcm_out p) = replicate 8 0 \<and> pcm_samples p = 0 \<and>
    unat (pcm_channels p) = unat (md_channels m) \<and> unat (pcm_bit_depth p) = unat (md_bit_depth m) \<and>
    pcm_sample_rate p = md_sample_rate m \<and> frame_size p = unat (md_channels m) * unat (md_bit_depth m) div 8 \<and>
    pcm_ext p (samples_of z (frame_size p) (racs_hash name) from to (covered from to tabs @ es)) pcm'"
proof -
  obtain p where p: "racs_pcm_init (racs_pcm_set_sample_rate (racs_pcm_set_channels (racs_pcm_set_bit_depth pcm (md_bit_depth m)) (md_channels m)) (md_sample_rate m)) = Some p"
    "fmt_ok p" "frame_size p = unat (md_channels m) * unat (md_bit_depth m) div 8" "ms_data (pcm_out p) = replicate 8 0"
    "pcm_samples p = 0" "unat (pcm_channels p) = unat (md_channels m)" "unat (pcm_bit_depth p) = unat (md_bit_depth m)"
    "pcm_sample_rate p = md_sample_rate m"
    using pcm_start [OF md(2,3)] by blast
  obtain pcm' c' where e: "racs_range_as_timestamp z dir opendir file_at st (racs_hash name) from to (p, c) = Some (pcm', c')"
    "cache_good tabs c'" "pcm_ext p (samples_of z (frame_size p) (racs_hash name) from to (covered from to tabs @ es)) pcm'"
    using range_timestamp_ext [OF r fs rest(1) p(2) rest(2,3)] by blast
  have "racs_range z dir opendir file_at md st name start duration (pcm, c) = Some (True, pcm', c')"
    unfolding racs_range_def Let_def prod.case md(1) bind.simps option.case p(1) t e(1) ..
  with e(2,3) p show ?thesis by blast
qed

text \<open>
  C4: What a range returns: for a stream that has metadata, \<open>racs_range\<close> is defined and the buffer holds
  eight zero bytes and then the whole samples of exactly these blocks of the stream with times in the
  range: first, in the order of time, those in the segments whose first block lies in the range too
  and whose checksum is intact, then those in the table in memory. Compressed blocks are decompressed,
  whatever was cached before is the contents of the files and stays so, and temporary files are
  ignored. Blocks of the range that are in a segment that starts earlier, or in a table that waits for
  its flush thread, are not returned.
\<close>

theorem range_exact:
  assumes "racs_metadata_get dir md (racs_hash name) = Some (Some m)" "md_channels m \<in> {1, 2}" "md_bit_depth m \<in> {16, 24}"
    and "to_time (double (double (of_int (sint (md_ref m))) + double (start * 1000))) = Some from"
    and "to_time (double (double (of_int from) + double (duration * 1000))) = Some to"
    and "in_range from" "in_range to" "from \<le> to" "dir \<noteq> []" "hd dir = CHR ''/''" "strstr dir ''.racs/seg'' = None"
    and "segments_ok dir tabs file_at" "segment_dirs dir tabs tmps opendir"
    and "mem_entries st es" "cache_good tabs c" "zstd_bounded z"
  shows "\<exists>pcm' c'. racs_range z dir opendir file_at md st name start duration (pcm, c) = Some (True, pcm', c') \<and>
    cache_good tabs c' \<and>
    ms_data (pcm_out pcm') = replicate 8 0 @
      samples_of z (unat (md_channels m) * unat (md_bit_depth m) div 8) (racs_hash name) from to (covered from to tabs @ es)"
  using range_ext [OF assms, of pcm] by (auto simp: pcm_ext_def)

section \<open>An example\<close>

definition flat_dir :: "string list \<Rightarrow> string \<Rightarrow> (string \<times> fs_node) list option" where
  "flat_dir paths p = Some (map (\<lambda>q. (drop (Suc (length p)) q, Reg [])) (filter (prefix (p @ ''/'')) paths))"

lemma flat_dir_files:
  "\<forall>q\<in>set paths. last q \<noteq> CHR ''.'' \<Longrightarrow>
   tree_files p (map (\<lambda>q. (drop (Suc (length p)) q, Reg [])) (filter (prefix (p @ ''/'')) paths)) = filter (prefix (p @ ''/'')) paths"
proof (induction paths)
  case (Cons q paths)
  show ?case
  proof (cases "prefix (p @ ''/'') q")
    case True
    then obtain n where q: "q = p @ ''/'' @ n" by (auto simp: prefix_def)
    moreover have "n \<noteq> ''.''" "n \<noteq> ''..''" using Cons.prems q by auto
    ultimately show ?thesis using Cons by simp
  qed (use Cons in simp)
qed simp

definition range_entry_at :: "racs_uint64 \<Rightarrow> bytes \<Rightarrow> racs_memtable_entry" where
  "range_entry_at t b = \<lparr>e_key = (racs_hash ''abc'', t), e_lsn = t, e_checksum = crc32c_of b,
     e_block_size = of_nat (length b), e_flags = 0, e_block = b\<rparr>"

theorem range_exact_witness:
  "\<exists>pcm' c'. racs_range (\<lambda>_. None) ''/d'' (flat_dir [racs_time_to_path ''/d'' 1000 False])
      (\<lambda>_. Some (sst_bytes [range_entry_at 1000 [1, 2, 3, 4], range_entry_at 2000 [5, 6, 7, 8, 9]]))
      [(racs_metadata_path ''/d'' (racs_hash ''abc'') False, md_bytes example_md)]
      \<lparr>st_heap = [0 \<mapsto> \<lparr>mt_entries = [range_entry_at 3000 [7, 7, 7, 7]], mt_capacity = 4, mt_next = None, mt_prev = None\<rparr>],
       st_fresh = 1, st_blocks = 4, st_mmt = \<lparr>mmt_index = 0, mmt_num_tables = 1, mmt_head = Some 0, mmt_tail = Some 0\<rparr>,
       st_threads = [], st_wal = [], st_segs = []\<rparr>
      ''abc'' 0 10 (\<lparr>pcm_channels = 9, pcm_bit_depth = 9, pcm_sample_rate = 9, pcm_samples = 9, pcm_out = racs_memstream_init\<rparr>,
        racs_scache_create 2) = Some (True, pcm', c') \<and>
    ms_data (pcm_out pcm') = replicate 8 0 @ [1, 2, 3, 4, 5, 6, 7, 8, 7, 7, 7, 7]"
proof -
  let ?es = "[range_entry_at 1000 [1, 2, 3, 4], range_entry_at 2000 [5, 6, 7, 8, 9]]"
  let ?tabs = "[(1000 :: int, ?es)]"
  let ?p = "racs_time_to_path ''/d'' 1000 False"
  have md: "racs_metadata_get ''/d'' [(racs_metadata_path ''/d'' (racs_hash ''abc'') False, md_bytes example_md)] (racs_hash ''abc'') =
      Some (Some example_md)"
    using metadata_read_eq [OF example_md_wf, of "[]"] by (simp add: metadata_get_path)
  have t1: "to_time (double (double (of_int (sint (md_ref example_md))) + double (0 * 1000))) = Some 1000" by code_simp
  have t2: "to_time (double (double (of_int 1000) + double (10 * 1000))) = Some 11000" by code_simp
  have r: "in_range 1000" "in_range 11000" "strstr ''/d'' ''.racs/seg'' = None" by (simp_all add: in_range_def time_limit_def)
  have last: "last ?p \<noteq> CHR ''.''" by code_simp
  have segs: "segments_ok ''/d'' ?tabs (\<lambda>_. Some (sst_bytes ?es))"
    using r by (simp add: segments_ok_def table_ok_def entry_wf_def range_entry_at_def)
  have dirs: "segment_dirs ''/d'' ?tabs [] (flat_dir [?p])"
    using flat_dir_files [of "[?p]"] last by (simp add: segment_dirs_def flat_dir_def)
  let ?st = "\<lparr>st_heap = [0 \<mapsto> \<lparr>mt_entries = [range_entry_at 3000 [7, 7, 7, 7]], mt_capacity = 4, mt_next = None, mt_prev = None\<rparr>],
       st_fresh = 1, st_blocks = 4, st_mmt = \<lparr>mmt_index = 0, mmt_num_tables = 1, mmt_head = Some 0, mmt_tail = Some 0\<rparr>,
       st_threads = [], st_wal = [], st_segs = []\<rparr> :: store"
  have mem: "mem_entries ?st [range_entry_at 3000 [7, 7, 7, 7]]" by (simp add: mem_entries_def entry_wf_def range_entry_at_def)
  have cache: "cache_good ?tabs (racs_scache_create 2)"
    using cache_rep_create [of 2] by (auto simp: cache_good_def cached_ok_def racs_scache_create_def)
  have z: "zstd_bounded (\<lambda>_. None)" by (simp add: zstd_bounded_def)
  have s: "samples_of (\<lambda>_. None) 4 (racs_hash ''abc'') 1000 11000 (covered 1000 11000 ?tabs @ [range_entry_at 3000 [7, 7, 7, 7]]) =
      [1, 2, 3, 4, 5, 6, 7, 8, 7, 7, 7, 7]"
    by (simp add: samples_of_def covered_def range_entry_at_def entry_ok_def in_query_def whole_def entry_samples_def)
  have n: "unat (md_channels example_md) * unat (md_bit_depth example_md) div 8 = 4" by (simp add: example_md_def)
  have fmt: "md_channels example_md \<in> {1, 2}" "md_bit_depth example_md \<in> {16, 24}" by (simp_all add: example_md_def)
  have o: "(1000 :: int) \<le> 11000" "''/d'' \<noteq> []" "hd ''/d'' = CHR ''/''" by simp_all
  show ?thesis
    using range_exact [OF md fmt t1 t2 r(1,2) o r(3) segs dirs mem cache z] unfolding n s by blast
qed

end
