(* ===== verification/Context.thy ===== *)
theory Context
  imports Guile Codecs Ops Range
begin

text \<open>
  The state of the server and what it uses besides, \<^verbatim>\<open>src/src/context.c\<close>. The operations of a context are
  creating and destroying it; the commands and the Scheme primitives work on it.
\<close>

section \<open>Context\<close>

record racs_context =
  cx_server :: server
  cx_cache :: "bytes racs_cache"

text \<open>
  What a command uses besides: the configuration, the reports of file operations, the clock, the
  libraries for compression and the lossy encoders, the listing of the segment files, the Scheme interpreter and whether its
  empty vectors are null, and the contents of uninitialised memory.
\<close>

record env =
  env_config :: config
  env_io :: seg_io
  env_now :: racs_int64
  env_zstd :: libzstd
  env_lame :: liblame
  env_opus :: libopusenc
  env_opendir :: "(string \<times> bytes) list \<Rightarrow> string \<Rightarrow> (string \<times> fs_node) list option"
  env_guile :: "racs_context interpreter"
  env_null_vector :: bool
  env_pcm :: racs_pcm
  env_wav :: racs_wav
  env_garbage :: "nat \<Rightarrow> racs_uint8"

text \<open>
  \<open>racs_context_init\<close> for a configuration: the entries of the cache, the number of tables and their size. The
  table of sessions is sized by the entries of the cache.
\<close>

definition racs_context_init :: "config \<Rightarrow> nat \<Rightarrow> int \<Rightarrow> int \<Rightarrow> store \<Rightarrow> racs_wal \<Rightarrow> md_files \<Rightarrow> racs_context option" where
  "racs_context_init cf entries tables table_entries st wal md =
     do { let scache = racs_scache_create entries;
          let kv = racs_streamkv_create entries;
          st \<leftarrow> racs_multi_memtable_create tables table_entries st;
          offsets \<leftarrow> racs_offsets_init (cf_dir cf) md (st_segs st) racs_offsets_create;
          Some \<lparr>cx_server = \<lparr>sv_store = st, sv_wal = wal, sv_offsets = offsets, sv_kv = kv, sv_md = md\<rparr>, cx_cache = scache\<rparr> }"

text \<open>
  The variables \<open>_log\<close> and \<open>_wal\<close> are static in their headers, so \<^verbatim>\<open>context.c\<close> has its own copies, and
  nothing in it assigns them. Destroying a null pointer is undefined.
\<close>

definition context_log :: "racs_wal option" where "context_log = None"

definition context_wal :: "racs_wal option" where "context_wal = None"

definition racs_context_destroy :: "env \<Rightarrow> racs_context \<Rightarrow> racs_context option" where
  "racs_context_destroy env ctx =
     do { let sv = cx_server ctx;
          st \<leftarrow> racs_multi_memtable_flush (env_io env) (cf_dir (env_config env)) (sv_store sv);
          let cache = racs_cache_destroy (cx_cache ctx);
          _ \<leftarrow> context_log;
          _ \<leftarrow> context_wal;
          Some (ctx\<lparr>cx_server := sv\<lparr>sv_store := st\<rparr>, cx_cache := cache\<rparr>) }"

section \<open>Null pointers\<close>

text \<open>The array an operation returns; reading at a null pointer is undefined.\<close>

definition not_null :: "'a option option \<Rightarrow> ('e + 'a) option" where
  "not_null r = do { p \<leftarrow> r; map_option Inr p }"

end
