(* ===== verification/Bindings.thy ===== *)
theory Bindings
  imports Context
begin

text \<open>
  The Scheme primitives, \<^verbatim>\<open>src/src/scm_bindings.c\<close>: the operations on samples, ranges, metadata, the list of
  streams and the encoders, with the conversions of their arguments. An error of a primitive goes to the
  interpreter. The command \<open>EVAL\<close> evaluates an expression over them.
\<close>

section \<open>Arguments\<close>

type_synonym 'a scm_result = "(guile_error + 'a) option"

definition scm_arg :: "guile_error + 'a \<Rightarrow> ('a \<Rightarrow> 'b scm_result) \<Rightarrow> 'b scm_result" where
  "scm_arg x f = (case x of Inl e \<Rightarrow> Some (Inl e) | Inr v \<Rightarrow> f v)"

definition wants :: "'a option \<Rightarrow> guile_error + 'a" where
  "wants x = (case x of None \<Rightarrow> Inl Scm_wrong_type_arg | Some v \<Rightarrow> Inr v)"

fun s32_elements :: "scm \<Rightarrow> racs_int32 list option" where
  "s32_elements (SCM_s32 xs) = Some xs"
| "s32_elements _ = None"

fun scm_to_int32 :: "scm \<Rightarrow> guile_error + racs_int32" where
  "scm_to_int32 (SCM_int i) = (if - (2 ^ 31) \<le> i \<and> i < 2 ^ 31 then Inr (word_of_int i) else Inl Scm_out_of_range)"
| "scm_to_int32 _ = Inl Scm_wrong_type_arg"

fun scm_to_uint16 :: "scm \<Rightarrow> guile_error + racs_uint16" where
  "scm_to_uint16 (SCM_int i) = (if 0 \<le> i \<and> i < 2 ^ 16 then Inr (word_of_int i) else Inl Scm_out_of_range)"
| "scm_to_uint16 _ = Inl Scm_wrong_type_arg"

definition misc_error :: "string \<Rightarrow> string \<Rightarrow> 'a scm_result" where
  "misc_error name message = Some (Inl (Scm_misc_error name message))"

text \<open>\<open>scm_take_s32vector\<close>: the vector has \<open>n\<close> elements, which must be in the array.\<close>

definition scm_take_s32vector :: "racs_int32 list \<Rightarrow> nat \<Rightarrow> scm scm_result" where
  "scm_take_s32vector out n = (if n \<le> length out then Some (Inr (SCM_s32 (take n out))) else None)"

text \<open>The common part of the primitives on one array: the elements, the check of the size, the operation.\<close>

definition sample_primitive :: "string \<Rightarrow> scm \<Rightarrow> (racs_int32 list \<Rightarrow> racs_int32 list scm_result) \<Rightarrow> scm scm_result" where
  "sample_primitive name inp operation =
     scm_arg (wants (s32_elements inp)) (\<lambda>xs.
       if length xs < 2 then misc_error name ''Missing input data.''
       else do { r \<leftarrow> operation xs;
                 case r of Inl e \<Rightarrow> Some (Inl e) | Inr out \<Rightarrow> scm_take_s32vector out (length out) })"

section \<open>Primitives on samples\<close>

definition racs_scm_gain :: "scm \<Rightarrow> scm \<Rightarrow> scm scm_result" where
  "racs_scm_gain inp gain =
     scm_arg (wants (scm_to_double gain)) (\<lambda>g. sample_primitive ''gain'' inp (\<lambda>xs. map_option Inr (racs_ops_gain xs g)))"

definition racs_scm_trim :: "scm \<Rightarrow> scm \<Rightarrow> scm \<Rightarrow> scm scm_result" where
  "racs_scm_trim inp left_seconds right_seconds =
     scm_arg (wants (scm_to_double left_seconds)) (\<lambda>l. scm_arg (wants (scm_to_double right_seconds)) (\<lambda>r.
       sample_primitive ''trim'' inp (\<lambda>xs. not_null (racs_ops_trim xs l r))))"

definition racs_scm_fade :: "scm \<Rightarrow> scm \<Rightarrow> scm \<Rightarrow> scm scm_result" where
  "racs_scm_fade inp fade_in_seconds fade_out_seconds =
     scm_arg (wants (scm_to_double fade_in_seconds)) (\<lambda>a. scm_arg (wants (scm_to_double fade_out_seconds)) (\<lambda>b.
       sample_primitive ''fade'' inp (\<lambda>xs. not_null (racs_ops_fade xs a b))))"

definition racs_scm_pan :: "scm \<Rightarrow> scm \<Rightarrow> scm scm_result" where
  "racs_scm_pan inp pan =
     scm_arg (wants (scm_to_double pan)) (\<lambda>p.
       if p < - 1 \<or> 1 < p then misc_error ''pan'' ''Pan must be between -1.0 and +1.0''
       else sample_primitive ''pan'' inp (\<lambda>xs.
              if channels_of (xs ! 1) < 2 then misc_error ''pan'' ''Invalid number of channels.''
              else not_null (racs_ops_pan xs p)))"

definition racs_scm_pad :: "scm \<Rightarrow> scm \<Rightarrow> scm \<Rightarrow> scm scm_result" where
  "racs_scm_pad inp left_seconds right_seconds =
     scm_arg (wants (scm_to_double left_seconds)) (\<lambda>l. scm_arg (wants (scm_to_double right_seconds)) (\<lambda>r.
       sample_primitive ''pad'' inp (\<lambda>xs. not_null (racs_ops_pad xs l r))))"

definition racs_scm_clip :: "scm \<Rightarrow> scm \<Rightarrow> scm \<Rightarrow> scm scm_result" where
  "racs_scm_clip inp minimum maximum =
     scm_arg (scm_to_int32 minimum) (\<lambda>lo. scm_arg (scm_to_int32 maximum) (\<lambda>hi.
       sample_primitive ''clip'' inp (\<lambda>xs. not_null (Some (racs_ops_clip xs lo hi)))))"

definition racs_scm_split :: "scm \<Rightarrow> scm \<Rightarrow> scm scm_result" where
  "racs_scm_split inp channel =
     scm_arg (scm_to_uint16 channel) (\<lambda>ch.
       sample_primitive ''split'' inp (\<lambda>xs.
         if channels_of (xs ! 1) \<noteq> 2 then misc_error ''split'' ''Invalid number of channels.''
         else if 1 < ch then misc_error ''split'' ''Invalid channel number.''
         else not_null (racs_ops_split xs ch)))"

text \<open>The error of \<open>mix\<close> carries the name of another primitive.\<close>

definition racs_scm_mix :: "scm \<Rightarrow> scm \<Rightarrow> scm scm_result" where
  "racs_scm_mix in_a in_b =
     scm_arg (wants (s32_elements in_a)) (\<lambda>a. scm_arg (wants (s32_elements in_b)) (\<lambda>b.
       if length a < 2 \<or> length b < 2 then misc_error ''trim'' ''Missing input data.''
       else do { out \<leftarrow> racs_ops_mix a b; scm_take_s32vector out (length out) }))"

definition racs_scm_merge :: "scm \<Rightarrow> scm \<Rightarrow> scm scm_result" where
  "racs_scm_merge in_a in_b =
     scm_arg (wants (s32_elements in_a)) (\<lambda>a. scm_arg (wants (s32_elements in_b)) (\<lambda>b.
       if length a < 2 \<or> length b < 2 then misc_error ''merge'' ''Missing input data.''
       else if channels_of (a ! 1) \<noteq> 1 \<or> channels_of (b ! 1) \<noteq> 1 then misc_error ''merge'' ''Inputs must be mono.''
       else if a ! 0 \<noteq> b ! 0 then misc_error ''merge'' ''Inputs must have the same sample rate.''
       else if a ! 1 AND 0xffff \<noteq> b ! 1 AND 0xffff then misc_error ''merge'' ''Inputs must have the same bit depth.''
       else do { out \<leftarrow> racs_ops_merge a b; scm_take_s32vector out (length out) }))"

section \<open>Primitives on the store\<close>

definition racs_scm_range :: "env \<Rightarrow> scm \<Rightarrow> scm \<Rightarrow> scm \<Rightarrow> racs_context \<Rightarrow> (scm \<times> racs_context) scm_result" where
  "racs_scm_range env sid start duration ctx =
     scm_arg (wants (scm_to_locale_string sid)) (\<lambda>name. scm_arg (wants (scm_to_double start)) (\<lambda>s.
       scm_arg (wants (scm_to_double duration)) (\<lambda>d.
         do { let sv = cx_server ctx;
              let segs = st_segs (sv_store sv);
              (found, pcm, cache) \<leftarrow> racs_range (racs_zstd_decompress (env_zstd env)) (cf_dir (env_config env)) (env_opendir env segs) (map_of segs)
                (sv_md sv) (sv_store sv) name s d (env_pcm env, cx_cache ctx);
              if \<not> found then misc_error ''range'' ''The stream-id does not exist''
              else do { let sz = unat (pcm_samples pcm * ucast (pcm_channels pcm));
                        let data = ms_data (pcm_out pcm);
                        samples \<leftarrow> (if pcm_bit_depth pcm = 16 then map_option Some (racs_s16_s32 (s16_of_bytes data) sz)
                                   else if pcm_bit_depth pcm = 24 then map_option Some (racs_s24_s32 (s24_of_bytes data) sz)
                                   else Some None);
                        case samples of
                          None \<Rightarrow> misc_error ''range'' ''Unknown error''
                        | Some xs \<Rightarrow>
                            if length xs < 2 then None
                            else do { r \<leftarrow> scm_take_s32vector (pcm_sample_rate pcm
                                          # (push_bit 16 (ucast (pcm_channels pcm)) OR ucast (pcm_bit_depth pcm)) # drop 2 xs) (sz + 2);
                                      Some (map_sum id (\<lambda>v. (v, ctx\<lparr>cx_cache := cache\<rparr>)) r) } } })))"

definition racs_scm_metadata :: "env \<Rightarrow> scm \<Rightarrow> scm \<Rightarrow> racs_context \<Rightarrow> scm scm_result" where
  "racs_scm_metadata env sid attr ctx =
     scm_arg (wants (scm_to_locale_string sid)) (\<lambda>name. scm_arg (wants (scm_to_locale_string attr)) (\<lambda>a.
       do { metadata \<leftarrow> racs_metadata_get (cf_dir (env_config env)) (sv_md (cx_server ctx)) (racs_hash name);
            case metadata of
              None \<Rightarrow> misc_error ''meta'' ''The stream-id does not exist.''
            | Some m \<Rightarrow>
                do { v \<leftarrow> (if strcmp a ''size'' = 0 then racs_offsets_get (sv_offsets (cx_server ctx)) (racs_hash name)
                          else Some (racs_metadata_attr m a));
                     if v = 0 then misc_error ''meta'' ''Invalid metadata attribute.''
                     else Some (Inr (SCM_int (sint v))) } }))"

definition racs_scm_stream_list :: "env \<Rightarrow> scm \<Rightarrow> racs_context \<Rightarrow> scm scm_result" where
  "racs_scm_stream_list env pattern ctx =
     scm_arg (wants (scm_to_locale_string pattern)) (\<lambda>p.
       do { ss \<leftarrow> racs_streams_list (cf_dir (env_config env)) (sv_md (cx_server ctx)) p racs_streams_init;
            Some (Inr (foldl (\<lambda>list s. SCM_cons (SCM_string s) list) SCM_EOL (streams ss))) })"

definition racs_scm_encode :: "env \<Rightarrow> scm \<Rightarrow> scm \<Rightarrow> scm scm_result" where
  "racs_scm_encode env data mime_type =
     scm_arg (wants (scm_to_locale_string mime_type)) (\<lambda>mime. scm_arg (wants (s32_elements data)) (\<lambda>xs.
       if length xs < 4 then misc_error ''encode'' ''Missing input data.''
       else do { let sz = (of_nat (length xs) - 2 :: racs_uint64);
                 let e = \<lparr>enc_channels = channels_of (xs ! 1), enc_sample_rate = xs ! 0, enc_bit_depth = ucast (xs ! 1 AND 0xffff)\<rparr>;
                 let n = unat (sz * ucast (enc_bit_depth e div 8) + 44);
                 (out, bytes) \<leftarrow> (if enc_channels e = 0 then None
                   else racs_encode_pcm (racs_mp3_write (env_lame env)) (racs_encode_ogg (env_opus env)) (env_wav env) e (drop 2 xs)
                          (map (env_garbage env) [0..<n]) (sz div ucast (enc_channels e)) mime);
                 if bytes \<le> length out then Some (Inr (SCM_u8 (take bytes out))) else None }))"

section \<open>The module\<close>

definition pure :: "racs_context \<Rightarrow> scm scm_result \<Rightarrow> ((guile_error + scm) \<times> racs_context) option" where
  "pure ctx r = map_option (\<lambda>v. (v, ctx)) r"

definition racs_scm_module :: "string list" where
  "racs_scm_module = [''range'', ''meta'', ''encode'', ''list'', ''mix'', ''gain'', ''trim'', ''fade'', ''pan'', ''pad'', ''clip'', ''split'', ''merge'']"

definition racs_scm_init_bindings :: "env \<Rightarrow> racs_context primitives" where
  "racs_scm_init_bindings env name args ctx =
     (if name \<notin> set racs_scm_module then Some (Inl Scm_unbound_variable, ctx)
      else case args of
        [a] \<Rightarrow> if name = ''list'' then pure ctx (racs_scm_stream_list env a ctx) else Some (Inl Scm_wrong_num_args, ctx)
      | [a, b] \<Rightarrow>
          if name = ''meta'' then pure ctx (racs_scm_metadata env a b ctx)
          else if name = ''encode'' then pure ctx (racs_scm_encode env a b)
          else if name = ''mix'' then pure ctx (racs_scm_mix a b)
          else if name = ''gain'' then pure ctx (racs_scm_gain a b)
          else if name = ''pan'' then pure ctx (racs_scm_pan a b)
          else if name = ''split'' then pure ctx (racs_scm_split a b)
          else if name = ''merge'' then pure ctx (racs_scm_merge a b)
          else Some (Inl Scm_wrong_num_args, ctx)
      | [a, b, c] \<Rightarrow>
          if name = ''range''
          then map_option (\<lambda>r. case r of Inl e \<Rightarrow> (Inl e, ctx) | Inr (v, ctx') \<Rightarrow> (Inr v, ctx')) (racs_scm_range env a b c ctx)
          else if name = ''trim'' then pure ctx (racs_scm_trim a b c)
          else if name = ''fade'' then pure ctx (racs_scm_fade a b c)
          else if name = ''pad'' then pure ctx (racs_scm_pad a b c)
          else if name = ''clip'' then pure ctx (racs_scm_clip a b c)
          else Some (Inl Scm_wrong_num_args, ctx)
      | _ \<Rightarrow> Some (Inl Scm_wrong_num_args, ctx))"

end
