(* ===== verification/Command.thy ===== *)
theory Command
  imports Bindings
begin

text \<open>
  The commands of \<^verbatim>\<open>src/src/command.c\<close>. A command gets its arguments, which are the elements of the one
  array that \<open>in_buf\<close> holds, and the output buffer, which holds the reply of the previous command of the
  pipeline. Its result is its status, the new output buffer and the context; \<open>None\<close> is undefined
  behaviour. The theorems: the replies are well typed; \<open>RANGE\<close> never succeeds without reading past its
  samples; and the sample commands compute what the Scheme primitives of the same names do.
\<close>

type_synonym command_func = "env \<Rightarrow> msgpack_object list \<Rightarrow> sbuffer \<Rightarrow> bool \<Rightarrow> racs_context
    \<Rightarrow> (racs_status \<times> sbuffer \<times> racs_context) option"

section \<open>Checks and replies\<close>

definition reply :: "racs_context \<Rightarrow> racs_status \<times> sbuffer \<Rightarrow> (racs_status \<times> sbuffer \<times> racs_context) option" where
  "reply ctx r = Some (fst r, snd r, ctx)"

text \<open>The failing case of \<open>racs_validate\<close>: the output buffer is cleared and gets the error.\<close>

definition racs_validate :: "racs_context \<Rightarrow> string \<Rightarrow> string \<Rightarrow> (racs_status \<times> sbuffer \<times> racs_context) option" where
  "racs_validate ctx command error = reply ctx (racs_pack_error [] command error)"

text \<open>The failing case of \<open>racs_validate_num_args\<close>, which does not clear the buffer.\<close>

definition racs_validate_num_args :: "racs_context \<Rightarrow> sbuffer \<Rightarrow> string \<Rightarrow> nat \<Rightarrow> nat \<Rightarrow> (racs_status \<times> sbuffer \<times> racs_context) option" where
  "racs_validate_num_args ctx out_buf command num_args actual =
     reply ctx (racs_pack_invalid_num_args out_buf command (int num_args) (int actual))"

text \<open>
  \<open>racs_validate_not_null\<close> and \<open>racs_validate_s32v\<close>, then the samples: an error message or the array.
\<close>

definition racs_validate_s32v :: "sbuffer \<Rightarrow> (string + racs_int32 list) option" where
  "racs_validate_s32v out_buf =
     (let msg2 = racs_parse_buf out_buf
      in if type_of msg2 = MSGPACK_OBJECT_NIL then Some (Inl ''Missing input data.'')
         else do { type \<leftarrow> racs_unpack_str msg2 0;
                   if type \<noteq> ''s32v'' then Some (Inl ''Invalid input type. Expected: int32 array'')
                   else map_option Inr (racs_unpack_s32v msg2 1) })"

text \<open>The last command of a pipeline drops the two elements in front of the samples.\<close>

definition pack_samples :: "racs_context \<Rightarrow> bool \<Rightarrow> racs_int32 list \<Rightarrow> nat \<Rightarrow> (racs_status \<times> sbuffer \<times> racs_context) option" where
  "pack_samples ctx is_final out out_size =
     do { r \<leftarrow> (if is_final then racs_pack_s32v [] (drop 2 out) (out_size - 2) else racs_pack_s32v [] out out_size);
          reply ctx r }"

text \<open>
  The common part of the sample commands, from the checks of the input on. The operation returns an
  error message or the new array; a null pointer is \<open>None\<close>, since the command goes on to read at it.
\<close>

definition sample_command :: "string \<Rightarrow> sbuffer \<Rightarrow> bool \<Rightarrow> racs_context
    \<Rightarrow> (racs_int32 list \<Rightarrow> (string + racs_int32 list) option) \<Rightarrow> (racs_status \<times> sbuffer \<times> racs_context) option" where
  "sample_command name out_buf is_final ctx operation =
     do { checked \<leftarrow> racs_validate_s32v out_buf;
          case checked of
            Inl error \<Rightarrow> racs_validate ctx name error
          | Inr samples \<Rightarrow>
              if length samples < 2 then racs_validate ctx name ''Missing input data.''
              else do { result \<leftarrow> operation samples;
                        case result of
                          Inl error \<Rightarrow> racs_validate ctx name error
                        | Inr out \<Rightarrow> pack_samples ctx is_final out (length out) } }"

section \<open>Commands on streams\<close>

definition racs_command_ping :: command_func where
  "racs_command_ping env args out_buf is_final ctx =
     (if length args \<noteq> 0 then racs_validate_num_args ctx [] ''PING'' 0 (length args)
      else reply ctx (racs_pack_str [] ''PONG''))"

definition racs_command_streamcreate :: command_func where
  "racs_command_streamcreate env args out_buf is_final ctx =
     (if length args \<noteq> 4 then racs_validate_num_args ctx [] ''CREATE'' 4 (length args)
      else if type_of (args ! 0) \<noteq> MSGPACK_OBJECT_STR then racs_validate ctx ''CREATE'' ''Invalid type at arg 1. Expected: string''
      else if type_of (args ! 1) \<noteq> MSGPACK_OBJECT_POSITIVE_INTEGER then racs_validate ctx ''CREATE'' ''Invalid type at arg 2. Expected: positive int''
      else if type_of (args ! 2) \<noteq> MSGPACK_OBJECT_POSITIVE_INTEGER then racs_validate ctx ''CREATE'' ''Invalid type at arg 3. Expected: positive int''
      else if type_of (args ! 3) \<noteq> MSGPACK_OBJECT_POSITIVE_INTEGER then racs_validate ctx ''CREATE'' ''Invalid type at arg 4. Expected: positive int''
      else do { name \<leftarrow> racs_unpack_str (MP_array args) 0;
                sample_rate \<leftarrow> racs_unpack_uint32 (MP_array args) 1;
                channels \<leftarrow> racs_unpack_uint16 (MP_array args) 2;
                bit_depth \<leftarrow> racs_unpack_uint16 (MP_array args) 3;
                if bit_depth \<noteq> 16 \<and> bit_depth \<noteq> 24
                then reply ctx (racs_pack_error [] ''CREATE'' ''Invalid bit-depth. Only 16- and 24-bit are supported.'')
                else if channels \<noteq> 1 \<and> channels \<noteq> 2
                then reply ctx (racs_pack_error [] ''CREATE'' ''Invalid number of channels. Must be mono or stereo.'')
                else do { (created, md) \<leftarrow> racs_stream_create (env_io env) (env_config env) (env_now env) name sample_rate
                            channels bit_depth (sv_md (cx_server ctx));
                          let ctx = ctx\<lparr>cx_server := (cx_server ctx)\<lparr>sv_md := md\<rparr>\<rparr>;
                          reply ctx (if created then racs_pack_null_with_status_ok []
                                     else racs_pack_error [] ''CREATE'' ''Stream already exist.'') } })"

definition racs_command_streamlist :: command_func where
  "racs_command_streamlist env args out_buf is_final ctx =
     (if length args \<noteq> 1 then racs_validate_num_args ctx [] ''LIST'' 1 (length args)
      else if type_of (args ! 0) \<noteq> MSGPACK_OBJECT_STR then racs_validate ctx ''LIST'' ''Invalid type at arg 1. Expected string''
      else do { pattern \<leftarrow> racs_unpack_str (MP_array args) 0;
                ss \<leftarrow> racs_streams_list (cf_dir (env_config env)) (sv_md (cx_server ctx)) pattern racs_streams_init;
                reply ctx (racs_pack_streams [] ss) })"

definition racs_command_streamopen :: command_func where
  "racs_command_streamopen env args out_buf is_final ctx =
     (if length args \<noteq> 1 then racs_validate_num_args ctx [] ''OPEN'' 1 (length args)
      else if type_of (args ! 0) \<noteq> MSGPACK_OBJECT_STR then racs_validate ctx ''OPEN'' ''Invalid type at arg 1. Expected string''
      else do { name \<leftarrow> racs_unpack_str (MP_array args) 0;
                (ok, kv) \<leftarrow> racs_stream_open (sv_kv (cx_server ctx)) (racs_hash name);
                let ctx = ctx\<lparr>cx_server := (cx_server ctx)\<lparr>sv_kv := kv\<rparr>\<rparr>;
                reply ctx (if ok then racs_pack_null_with_status_ok []
                           else racs_pack_error [] ''OPEN'' ''Stream is already open'') })"

definition racs_command_streamclose :: command_func where
  "racs_command_streamclose env args out_buf is_final ctx =
     (if length args \<noteq> 1 then racs_validate_num_args ctx [] ''CLOSE'' 1 (length args)
      else if type_of (args ! 0) \<noteq> MSGPACK_OBJECT_STR then racs_validate ctx ''CLOSE'' ''Invalid type at arg 1. Expected string''
      else do { name \<leftarrow> racs_unpack_str (MP_array args) 0;
                (ok, kv) \<leftarrow> racs_stream_close (sv_kv (cx_server ctx)) (racs_hash name);
                let ctx = ctx\<lparr>cx_server := (cx_server ctx)\<lparr>sv_kv := kv\<rparr>\<rparr>;
                reply ctx (if ok then racs_pack_null_with_status_ok []
                           else racs_pack_error [] ''CLOSE'' ''Stream is not open'') })"

definition racs_command_metadata :: command_func where
  "racs_command_metadata env args out_buf is_final ctx =
     (if length args \<noteq> 2 then racs_validate_num_args ctx [] ''META'' 2 (length args)
      else if type_of (args ! 0) \<noteq> MSGPACK_OBJECT_STR then racs_validate ctx ''META'' ''Invalid type at arg 1. Expected string''
      else if type_of (args ! 1) \<noteq> MSGPACK_OBJECT_STR then racs_validate ctx ''META'' ''Invalid type at arg 2. Expected string''
      else do { name \<leftarrow> racs_unpack_str (MP_array args) 0;
                attr \<leftarrow> racs_unpack_str (MP_array args) 1;
                metadata \<leftarrow> racs_metadata_get (cf_dir (env_config env)) (sv_md (cx_server ctx)) (racs_hash name);
                case metadata of
                  None \<Rightarrow> reply ctx (racs_pack_error [] ''META'' ''The stream-id does not exist.'')
                | Some m \<Rightarrow>
                    do { value \<leftarrow> (if strcmp attr ''size'' = 0
                                   then racs_offsets_get (sv_offsets (cx_server ctx)) (racs_hash name)
                                   else Some (racs_metadata_attr m attr));
                         reply ctx (if value = 0 then racs_pack_error [] ''META'' ''Invalid metadata attribute.''
                                    else racs_pack_int64 [] value) } })"

definition racs_command_eval :: command_func where
  "racs_command_eval env args out_buf is_final ctx =
     (if length args \<noteq> 1 then racs_validate_num_args ctx [] ''EVAL'' 1 (length args)
      else if type_of (args ! 0) \<noteq> MSGPACK_OBJECT_STR then racs_validate ctx ''EVAL'' ''Invalid type at arg 1. Expected string''
      else do { expr \<leftarrow> racs_unpack_str (MP_array args) 0;
                (res, error, ctx) \<leftarrow> racs_scm_safe_eval_with_error_handling (env_guile env) (racs_scm_init_bindings env) expr ctx;
                case error of
                  Some message \<Rightarrow> reply ctx (racs_pack_error [] ''EVAL'' message)
                | None \<Rightarrow> do { r \<leftarrow> racs_scm_pack (env_null_vector env) [] res is_final; reply ctx r } })"

definition racs_command_range :: command_func where
  "racs_command_range env args out_buf is_final ctx =
     (if length args \<noteq> 3 then racs_validate_num_args ctx [] ''RANGE'' 3 (length args)
      else if type_of (args ! 0) \<noteq> MSGPACK_OBJECT_STR then racs_validate ctx ''RANGE'' ''Invalid type at arg 1. Expected: string''
      else if type_of (args ! 1) \<noteq> MSGPACK_OBJECT_FLOAT64 then racs_validate ctx ''RANGE'' ''Invalid type at arg 2. Expected: float''
      else if type_of (args ! 2) \<noteq> MSGPACK_OBJECT_FLOAT64 then racs_validate ctx ''RANGE'' ''Invalid type at arg 3. Expected: float''
      else do { name \<leftarrow> racs_unpack_str (MP_array args) 0;
                start \<leftarrow> racs_unpack_float64 (MP_array args) 1;
                duration \<leftarrow> racs_unpack_float64 (MP_array args) 2;
                let sv = cx_server ctx;
                let segs = st_segs (sv_store sv);
                (found, pcm, cache) \<leftarrow> racs_range (racs_zstd_decompress (env_zstd env)) (cf_dir (env_config env)) (env_opendir env segs) (map_of segs)
                  (sv_md sv) (sv_store sv) name start duration (env_pcm env, cx_cache ctx);
                let ctx = ctx\<lparr>cx_cache := cache\<rparr>;
                if \<not> found then reply ctx (racs_pack_error [] ''RANGE'' ''The stream-id does not exist'')
                else do { let sz = unat (pcm_samples pcm * ucast (pcm_channels pcm));
                          let data = ms_data (pcm_out pcm);
                          samples \<leftarrow> (if pcm_bit_depth pcm = 16 then map_option Some (racs_s16_s32 (s16_of_bytes data) sz)
                                     else if pcm_bit_depth pcm = 24 then map_option Some (racs_s24_s32 (s24_of_bytes data) sz)
                                     else Some None);
                          case samples of
                            None \<Rightarrow> reply ctx (racs_pack_error [] ''RANGE'' ''Unknown error'')
                          | Some s \<Rightarrow>
                              if length s < 2 then None
                              else do { let s = pcm_sample_rate pcm # (push_bit 16 (ucast (pcm_channels pcm)) OR ucast (pcm_bit_depth pcm)) # drop 2 s;
                                        r \<leftarrow> (if is_final then racs_pack_s32v [] (drop 2 s) sz
                                             else racs_pack_s32v [] s (sz + 2));
                                        reply ctx r } } })"

definition racs_command_shutdown :: command_func where
  "racs_command_shutdown env args out_buf is_final ctx =
     do { ctx \<leftarrow> racs_context_destroy env ctx; reply ctx (RACS_STATUS_OK, out_buf) }"

section \<open>Commands on samples\<close>

definition racs_command_encode :: command_func where
  "racs_command_encode env args out_buf is_final ctx =
     (if length args \<noteq> 1 then racs_validate_num_args ctx out_buf ''ENCODE'' 1 (length args)
      else if type_of (args ! 0) \<noteq> MSGPACK_OBJECT_STR then racs_validate ctx ''ENCODE'' ''Invalid type at arg 1. Expected: string''
      else do { checked \<leftarrow> racs_validate_s32v out_buf;
                case checked of
                  Inl error \<Rightarrow> racs_validate ctx ''ENCODE'' error
                | Inr xs \<Rightarrow>
                    do { let sz = (of_nat (length xs) - 2 :: racs_uint64);
                         mime_type \<leftarrow> racs_unpack_str (MP_array args) 0;
                         if sz = 0 then racs_validate ctx ''ENCODE'' ''Missing input data.''
                         else if length xs < 2 then None
                         else do { let e = \<lparr>enc_channels = channels_of (xs ! 1), enc_sample_rate = xs ! 0,
                                           enc_bit_depth = ucast (xs ! 1 AND 0xffff)\<rparr>;
                                   let n = unat (sz * ucast (enc_bit_depth e div 8) + 44);
                                   (out, bytes) \<leftarrow> (if enc_channels e = 0 then None
                                     else racs_encode_pcm (racs_mp3_write (env_lame env)) (racs_encode_ogg (env_opus env)) (env_wav env) e (drop 2 xs)
                                            (map (env_garbage env) [0..<n]) (sz div ucast (enc_channels e)) mime_type);
                                   if bytes \<noteq> 0 then do { r \<leftarrow> racs_pack_u8v [] out bytes; reply ctx r }
                                   else racs_validate ctx ''ENCODE'' ''Unsupported format'' } } })"

definition racs_command_gain :: command_func where
  "racs_command_gain env args out_buf is_final ctx =
     (if length args \<noteq> 1 then racs_validate_num_args ctx out_buf ''GAIN'' 1 (length args)
      else if type_of (args ! 0) \<noteq> MSGPACK_OBJECT_FLOAT64 then racs_validate ctx ''GAIN'' ''Invalid type at arg 1. Expected: float''
      else sample_command ''GAIN'' out_buf is_final ctx (\<lambda>xs.
        do { gain \<leftarrow> racs_unpack_float64 (MP_array args) 0; map_option Inr (racs_ops_gain xs gain) }))"

definition racs_command_trim :: command_func where
  "racs_command_trim env args out_buf is_final ctx =
     (if length args \<noteq> 2 then racs_validate_num_args ctx out_buf ''TRIM'' 2 (length args)
      else if type_of (args ! 0) \<noteq> MSGPACK_OBJECT_FLOAT64 then racs_validate ctx ''TRIM'' ''Invalid type at arg 1. Expected: float''
      else if type_of (args ! 1) \<noteq> MSGPACK_OBJECT_FLOAT64 then racs_validate ctx ''TRIM'' ''Invalid type at arg 1. Expected: float''
      else sample_command ''TRIM'' out_buf is_final ctx (\<lambda>xs.
        do { l \<leftarrow> racs_unpack_float64 (MP_array args) 0;
             r \<leftarrow> racs_unpack_float64 (MP_array args) 1;
             not_null (racs_ops_trim xs l r) }))"

definition racs_command_fade :: command_func where
  "racs_command_fade env args out_buf is_final ctx =
     (if length args \<noteq> 2 then racs_validate_num_args ctx out_buf ''FADE'' 2 (length args)
      else if type_of (args ! 0) \<noteq> MSGPACK_OBJECT_FLOAT64 then racs_validate ctx ''FADE'' ''Invalid type at arg 1. Expected: float''
      else if type_of (args ! 1) \<noteq> MSGPACK_OBJECT_FLOAT64 then racs_validate ctx ''FADE'' ''Invalid type at arg 1. Expected: float''
      else sample_command ''FADE'' out_buf is_final ctx (\<lambda>xs.
        do { fade_in \<leftarrow> racs_unpack_float64 (MP_array args) 0;
             fade_out \<leftarrow> racs_unpack_float64 (MP_array args) 1;
             not_null (racs_ops_fade xs fade_in fade_out) }))"

text \<open>\<open>PAN\<close> checks its argument before it looks at the number of samples.\<close>

definition racs_command_pan :: command_func where
  "racs_command_pan env args out_buf is_final ctx =
     (if length args \<noteq> 1 then racs_validate_num_args ctx out_buf ''PAN'' 1 (length args)
      else if type_of (args ! 0) \<noteq> MSGPACK_OBJECT_FLOAT64 then racs_validate ctx ''PAN'' ''Invalid type at arg 1. Expected: float''
      else do { checked \<leftarrow> racs_validate_s32v out_buf;
                pan \<leftarrow> racs_unpack_float64 (MP_array args) 0;
                if \<not> isl checked \<and> (pan < - 1 \<or> 1 < pan)
                then racs_validate ctx ''PAN'' ''Pan must be between -1.0 and +1.0.''
                else sample_command ''PAN'' out_buf is_final ctx (\<lambda>xs. not_null (racs_ops_pan xs pan)) })"

definition racs_command_pad :: command_func where
  "racs_command_pad env args out_buf is_final ctx =
     (if length args \<noteq> 2 then racs_validate_num_args ctx out_buf ''PAD'' 2 (length args)
      else if type_of (args ! 0) \<noteq> MSGPACK_OBJECT_FLOAT64 then racs_validate ctx ''PAD'' ''Invalid type at arg 1. Expected: float''
      else if type_of (args ! 1) \<noteq> MSGPACK_OBJECT_FLOAT64 then racs_validate ctx ''PAD'' ''Invalid type at arg 2. Expected: float''
      else sample_command ''PAD'' out_buf is_final ctx (\<lambda>xs.
        do { l \<leftarrow> racs_unpack_float64 (MP_array args) 0;
             r \<leftarrow> racs_unpack_float64 (MP_array args) 1;
             not_null (racs_ops_pad xs l r) }))"

definition racs_command_clip :: command_func where
  "racs_command_clip env args out_buf is_final ctx =
     (if length args \<noteq> 2 then racs_validate_num_args ctx out_buf ''CLIP'' 2 (length args)
      else if type_of (args ! 0) \<noteq> MSGPACK_OBJECT_NEGATIVE_INTEGER then racs_validate ctx ''CLIP'' ''Invalid type at arg 1. Expected: negative int''
      else if type_of (args ! 1) \<noteq> MSGPACK_OBJECT_POSITIVE_INTEGER then racs_validate ctx ''CLIP'' ''Invalid type at arg 2. Expected: positive int''
      else sample_command ''CLIP'' out_buf is_final ctx (\<lambda>xs.
        do { min_val \<leftarrow> racs_unpack_int32 (MP_array args) 0;
             max_val \<leftarrow> racs_unpack_int32 (MP_array args) 1;
             not_null (Some (racs_ops_clip xs min_val max_val)) }))"

definition racs_command_split :: command_func where
  "racs_command_split env args out_buf is_final ctx =
     (if length args \<noteq> 1 then racs_validate_num_args ctx out_buf ''SPLIT'' 1 (length args)
      else if type_of (args ! 0) \<noteq> MSGPACK_OBJECT_POSITIVE_INTEGER then racs_validate ctx ''SPLIT'' ''Invalid type at arg 2. Expected: positive int''
      else sample_command ''SPLIT'' out_buf is_final ctx (\<lambda>xs.
        do { channel \<leftarrow> racs_unpack_uint16 (MP_array args) 0;
             if channels_of (xs ! 1) \<noteq> 2 then Some (Inl ''Invalid number of channels.'')
             else if 1 < channel then Some (Inl ''Invalid channel number.'')
             else not_null (racs_ops_split xs channel) }))"

text \<open>A batch of frames from a client; \<open>frames\<close> are the elements of the unpacked array.\<close>

definition racs_stream :: "env \<Rightarrow> bytes list \<Rightarrow> sbuffer \<Rightarrow> racs_context \<Rightarrow> (racs_status \<times> sbuffer \<times> racs_context) option" where
  "racs_stream env frames out_buf ctx =
     do { sv \<leftarrow> racs_stream_batch_append (env_config env) (racs_zstd_decompress (env_zstd env)) frames (cx_server ctx);
          reply (ctx\<lparr>cx_server := sv\<rparr>) (racs_pack_null_with_status_ok out_buf) }"

section \<open>Dispatch\<close>

datatype command_id =
    PING | CREATE | META | OPEN | CLOSE | LIST | RANGE | EVAL | ENCODE | SHUTDOWN
  | GAIN | TRIM | FADE | PAN | PAD | CLIP | SPLIT

fun command_of_id :: "command_id \<Rightarrow> command_func" where
  "command_of_id PING = racs_command_ping"
| "command_of_id CREATE = racs_command_streamcreate"
| "command_of_id META = racs_command_metadata"
| "command_of_id OPEN = racs_command_streamopen"
| "command_of_id CLOSE = racs_command_streamclose"
| "command_of_id LIST = racs_command_streamlist"
| "command_of_id RANGE = racs_command_range"
| "command_of_id EVAL = racs_command_eval"
| "command_of_id ENCODE = racs_command_encode"
| "command_of_id SHUTDOWN = racs_command_shutdown"
| "command_of_id GAIN = racs_command_gain"
| "command_of_id TRIM = racs_command_trim"
| "command_of_id FADE = racs_command_fade"
| "command_of_id PAN = racs_command_pan"
| "command_of_id PAD = racs_command_pad"
| "command_of_id CLIP = racs_command_clip"
| "command_of_id SPLIT = racs_command_split"

section \<open>Replies are well typed\<close>

definition replies_ok :: "sbuffer \<Rightarrow> bool" where
  "replies_ok buf \<longleftrightarrow> (\<forall>x\<in>set buf. \<exists>t. reply_ok t x)"

text \<open>
  Success leaves one reply, which is not an error; failure leaves an error as the last reply, after
  which there may only be what was in the buffer before.
\<close>

definition outcome_ok :: "racs_status \<Rightarrow> sbuffer \<Rightarrow> bool" where
  "outcome_ok st buf \<longleftrightarrow> replies_ok buf \<and> buf \<noteq> [] \<and>
     (st = RACS_STATUS_OK \<longrightarrow> length buf = 1 \<and> \<not> reply_ok RACS_TYPE_ERROR (hd buf)) \<and>
     (st = RACS_STATUS_ERROR \<longrightarrow> reply_ok RACS_TYPE_ERROR (last buf))"

definition typed :: "(racs_status \<times> sbuffer \<times> racs_context) option \<Rightarrow> bool" where
  "typed r \<longleftrightarrow> (\<forall>st buf ctx. r = Some (st, buf, ctx) \<longrightarrow> outcome_ok st buf)"

named_theorems typed_intros \<open>well-typed results\<close>

lemma reply_ok_unique: "reply_ok s x \<Longrightarrow> reply_ok t x \<Longrightarrow> s = t"
  by (auto simp: reply_ok_def racs_type_string_inject)

lemma outcome_single: "reply_ok t x \<Longrightarrow> t \<noteq> RACS_TYPE_ERROR \<Longrightarrow> outcome_ok RACS_STATUS_OK [x]"
  using reply_ok_unique by (auto simp: outcome_ok_def replies_ok_def)

lemma outcome_error_reply:
  "replies_ok buf \<Longrightarrow> outcome_ok RACS_STATUS_ERROR (buf @ [MP_array [racs_pack_type RACS_TYPE_ERROR, MP_str s]])"
  by (auto simp: outcome_ok_def replies_ok_def intro: exI [of _ RACS_TYPE_ERROR])

lemma outcome_error: "replies_ok buf \<Longrightarrow> snd (racs_pack_error buf c m) = buf' \<Longrightarrow> outcome_ok RACS_STATUS_ERROR buf'"
  by (drule outcome_error_reply [where s = "c @ '': '' @ m"]) (simp add: racs_pack_error_def)

lemma typed_reply: "outcome_ok (fst r) (snd r) \<Longrightarrow> typed (reply ctx r)"
  by (simp add: typed_def reply_def)

lemma typed_error [typed_intros]: "typed (reply ctx (racs_pack_error [] c m))"
  using outcome_error [of "[]" c m] by (intro typed_reply) (simp add: racs_pack_error_def replies_ok_def)

lemma typed_validate [typed_intros]: "typed (racs_validate ctx c m)"
  unfolding racs_validate_def by (rule typed_error)

lemma typed_num_args [typed_intros]: "replies_ok buf \<Longrightarrow> typed (racs_validate_num_args ctx buf c n k)"
  using outcome_error [of buf c]
  by (simp add: racs_validate_num_args_def racs_pack_invalid_num_args_def typed_def reply_def racs_pack_error_def)

lemma typed_pack [typed_intros]:
  "typed (reply ctx (racs_pack_str [] s))" "typed (reply ctx (racs_pack_null_with_status_ok []))"
  "typed (reply ctx (racs_pack_int64 [] d))" "typed (reply ctx (racs_pack_streams [] ss))"
  by (auto intro!: typed_reply outcome_single pack_reply
      simp: racs_pack_str_def racs_pack_null_with_status_ok_def racs_pack_int64_def racs_pack_streams_def)

lemma typed_reply_if [typed_intros]: "typed (reply ctx a) \<Longrightarrow> typed (reply ctx b) \<Longrightarrow> typed (reply ctx (if P then a else b))"
  by simp

lemma typed_s32v: "racs_pack_s32v [] xs n = Some r \<Longrightarrow> typed (reply ctx r)"
  by (auto intro!: typed_reply outcome_single pack_reply simp: racs_pack_s32v_def split: if_splits)

lemma typed_u8v: "racs_pack_u8v [] xs n = Some r \<Longrightarrow> typed (reply ctx r)"
  by (auto intro!: typed_reply outcome_single pack_reply simp: racs_pack_u8v_def split: if_splits)

lemma typed_None [typed_intros]: "typed None"
  by (simp add: typed_def)

lemma typed_bind [typed_intros]: "(\<And>x. m = Some x \<Longrightarrow> typed (f x)) \<Longrightarrow> typed (Option.bind m f)"
  by (cases m) (simp_all add: typed_def)

lemma typed_if [typed_intros]: "(P \<Longrightarrow> typed a) \<Longrightarrow> (\<not> P \<Longrightarrow> typed b) \<Longrightarrow> typed (if P then a else b)"
  by simp

lemma typed_cases [typed_intros]:
  "(\<And>a b. p = (a, b) \<Longrightarrow> typed (f a b)) \<Longrightarrow> typed (case p of (a, b) \<Rightarrow> f a b)"
  "(\<And>e. s = Inl e \<Longrightarrow> typed (g e)) \<Longrightarrow> (\<And>x. s = Inr x \<Longrightarrow> typed (h x)) \<Longrightarrow> typed (case s of Inl e \<Rightarrow> g e | Inr x \<Rightarrow> h x)"
  "(u = None \<Longrightarrow> typed k) \<Longrightarrow> (\<And>y. u = Some y \<Longrightarrow> typed (l y)) \<Longrightarrow> typed (case u of None \<Rightarrow> k | Some y \<Rightarrow> l y)"
  by (simp_all split: prod.split sum.split option.split)

lemma replies_ok_Nil [simp, typed_intros]: "replies_ok []"
  by (simp add: replies_ok_def)

lemma typed_pack_samples [typed_intros]: "typed (pack_samples ctx f xs n)"
  unfolding pack_samples_def by (intro typed_bind) (auto split: if_splits intro: typed_s32v)

lemma typed_sample_command [typed_intros]: "typed (sample_command name buf f ctx operation)"
  unfolding sample_command_def by (intro typed_intros)

lemma typed_simple_commands:
  "typed (racs_command_ping env args buf f ctx)" "typed (racs_command_streamcreate env args buf f ctx)"
  "typed (racs_command_streamlist env args buf f ctx)" "typed (racs_command_streamopen env args buf f ctx)"
  "typed (racs_command_streamclose env args buf f ctx)" "typed (racs_command_metadata env args buf f ctx)"
  unfolding racs_command_ping_def racs_command_streamcreate_def racs_command_streamlist_def
    racs_command_streamopen_def racs_command_streamclose_def racs_command_metadata_def Let_def
  by (intro typed_intros)+

lemma typed_scm_pack: "racs_scm_pack null [] x is_final = Some r \<Longrightarrow> typed (reply ctx r)"
proof -
  assume "racs_scm_pack null [] x is_final = Some r"
  then have "replied r" by (rule scm_pack_replied)
  then obtain t obj where r: "snd r = [obj]" "reply_ok t obj" "fst r = (if t = RACS_TYPE_ERROR then RACS_STATUS_ERROR else RACS_STATUS_OK)"
    by (auto simp: replied_def)
  have "outcome_ok (fst r) (snd r)"
  proof (cases "t = RACS_TYPE_ERROR")
    case True
    then show ?thesis using r by (auto simp: outcome_ok_def replies_ok_def)
  next
    case False
    then show ?thesis using r outcome_single [OF r(2)] by simp
  qed
  then show ?thesis by (rule typed_reply)
qed

lemma typed_eval: "typed (racs_command_eval env args buf f ctx)"
  unfolding racs_command_eval_def by (intro typed_intros; erule typed_scm_pack)

lemma typed_range: "typed (racs_command_range env args buf f ctx)"
  unfolding racs_command_range_def Let_def
  by (intro typed_intros) (auto split: if_splits intro: typed_s32v)

lemma typed_shutdown: "typed (racs_command_shutdown env args buf f ctx)"
  by (simp add: racs_command_shutdown_def racs_context_destroy_def context_log_def typed_def)

lemma typed_sample_commands:
  assumes "replies_ok buf"
  shows "typed (racs_command_encode env args buf f ctx)" "typed (racs_command_gain env args buf f ctx)"
    "typed (racs_command_trim env args buf f ctx)" "typed (racs_command_fade env args buf f ctx)"
    "typed (racs_command_pan env args buf f ctx)" "typed (racs_command_pad env args buf f ctx)"
    "typed (racs_command_clip env args buf f ctx)" "typed (racs_command_split env args buf f ctx)"
  unfolding racs_command_encode_def racs_command_gain_def racs_command_trim_def racs_command_fade_def
    racs_command_pan_def racs_command_pad_def racs_command_clip_def racs_command_split_def Let_def
  by (intro typed_intros assms; erule typed_u8v)+

lemma command_typed: "replies_ok buf \<Longrightarrow> typed (command_of_id c env args buf f ctx)"
  by (cases c) (simp_all add: typed_simple_commands typed_eval typed_range typed_shutdown typed_sample_commands)

section \<open>Properties\<close>

text \<open>A server with nothing stored, and an evaluator that knows no variable.\<close>

definition example_env :: env where
  "example_env = \<lparr>env_config = \<lparr>cf_dir = ''/d'', cf_fsync = 0\<rparr>,
     env_io = \<lparr>io_manifest = True, io_open = True, io_flock = True, io_rename = True, io_garbage = (\<lambda>_. 0)\<rparr>, env_now = 0,
     env_zstd = \<lparr>ZSTD_getFrameContentSize = \<lambda>_. None, ZSTD_decompress = \<lambda>_ _. None, ZSTD_compressBound = id,
       ZSTD_compress = \<lambda>src _ _. Some src\<rparr>, env_lame = (\<lambda>_ _ _ _. ([], 0)),
     env_opus = \<lparr>ope_encoder_create = \<lambda>_ _. False, ope_encoder_write = \<lambda>_ _ _. ([], False), ope_encoder_drain = \<lambda>_ _ _. []\<rparr>,
     env_opendir = (\<lambda>_ _. None), env_guile = (\<lambda>_ _ ctx. Some ((None, ''Unbound variable: foo''), ctx)), env_null_vector = False,
     env_pcm = \<lparr>pcm_channels = 0, pcm_bit_depth = 0, pcm_sample_rate = 0, pcm_samples = 0, pcm_out = racs_memstream_init\<rparr>,
     env_wav = \<lparr>wav_header = \<lparr>wh_chunk_id = [], wh_chunk_size = 0, wh_format = []\<rparr>,
       wav_format = \<lparr>wf_sub_chunk1_id = [], wf_sub_chunk1_size = 0, wf_audio_format = 0, wf_channels = 0,
         wf_sample_rate = 0, wf_byte_rate = 0, wf_block_align = 0, wf_bit_depth = 0\<rparr>,
       wav_data = \<lparr>wd_sub_chunk2_id = [], wd_sub_chunk2_size = 0\<rparr>, wav_pos = 0\<rparr>,
     env_garbage = (\<lambda>_. 0)\<rparr>"

definition example_context :: racs_context where
  "example_context = \<lparr>cx_server = \<lparr>sv_store = \<lparr>st_heap = Map.empty, st_fresh = 0, st_blocks = 0,
       st_mmt = \<lparr>mmt_index = 0, mmt_num_tables = 1, mmt_head = None, mmt_tail = None\<rparr>,
       st_threads = [], st_wal = [], st_segs = []\<rparr>,
     sv_wal = \<lparr>wal_fd = racs_wal_filename 1, wal_lsn = 1, wal_size = 0\<rparr>, sv_offsets = racs_offsets_create, sv_kv = racs_streamkv_create 2, sv_md = []\<rparr>,
     cx_cache = racs_scache_create 2\<rparr>"

lemma example_eval:
  "command_of_id EVAL example_env [MP_str ''(foo)''] buf f example_context
     = Some (RACS_STATUS_ERROR, [MP_array [racs_pack_type RACS_TYPE_ERROR, MP_str ''EVAL: Unbound variable: foo'']], example_context)"
  by (simp add: racs_command_eval_def reply_def racs_pack_error_def racs_unpack_str_def array_elem_def example_env_def
      racs_scm_safe_eval_with_error_handling_def racs_unescape_single_quotes_def)

text \<open>
  C13: Replies of commands. Whatever the arguments, the reply of the previous command and the state: a command
  that succeeds leaves exactly one well-formed reply in the output buffer, and that is not an error; one that
  fails leaves a well-formed error as the last reply; and everything in the buffer is a well-formed reply.
\<close>

theorem command_types:
  assumes "replies_ok out_buf"
    and "command_of_id c env args out_buf is_final ctx = Some (st, out_buf', ctx')"
  shows "outcome_ok st out_buf'"
  using command_typed [OF assms(1), of c env args is_final ctx] assms(2) by (simp add: typed_def)

theorem command_types_witness:
  "replies_ok [] \<and>
   (\<exists>buf. command_of_id EVAL example_env [MP_str ''(foo)''] [] True example_context
        = Some (RACS_STATUS_ERROR, buf, example_context) \<and>
      buf = [MP_array [racs_pack_type RACS_TYPE_ERROR, MP_str ''EVAL: Unbound variable: foo'']] \<and>
      outcome_ok RACS_STATUS_ERROR buf)"
  using example_eval command_types [OF replies_ok_Nil example_eval] by simp

text \<open>
  C37: \<open>RANGE\<close> never answers with samples without undefined behaviour. The samples begin at the third
  element of the converted array, which has \<open>size\<close> elements, and as many as \<open>size\<close> of them are packed; in
  front of another command \<open>size + 2\<close> elements are.
\<close>

theorem range_never_ok:
  "racs_command_range env args out_buf is_final ctx \<noteq> Some (RACS_STATUS_OK, reply_buf, ctx')"
proof -
  have s16: "racs_s16_s32 xs n = Some s \<Longrightarrow> length s = n" and s24: "racs_s24_s32 ys n = Some s \<Longrightarrow> length s = n" for xs ys n s
    by (auto simp: racs_s16_s32_def racs_s24_s32_def split: if_splits)
  show ?thesis
    by (auto simp: racs_command_range_def Let_def bind_eq_Some_conv racs_validate_def racs_validate_num_args_def reply_def
        racs_pack_error_def racs_pack_invalid_num_args_def racs_pack_s32v_def
        split: if_splits option.splits dest!: s16 s24)
qed

section \<open>Commands and primitives\<close>

text \<open>The reply that carries samples to the next command of a pipeline.\<close>

definition samples_reply :: "racs_int32 list \<Rightarrow> msgpack_object" where
  "samples_reply xs = MP_array [racs_pack_type RACS_TYPE_S32VEC, MP_bin (s32_bytes xs)]"

text \<open>A command that is not the last hands on the samples that the primitive returns, and otherwise hands on none.\<close>

definition same_samples :: "(racs_status \<times> sbuffer \<times> racs_context) option \<Rightarrow> scm scm_result \<Rightarrow> racs_context \<Rightarrow> bool" where
  "same_samples r p ctx \<longleftrightarrow>
     (\<forall>ys. p = Some (Inr (SCM_s32 ys)) \<longleftrightarrow> r = Some (RACS_STATUS_OK, [samples_reply ys], ctx))"

lemma samples_reply_inject: "samples_reply xs = samples_reply ys \<longleftrightarrow> xs = ys"
  by (metis option.inject s32v_unpack(2) samples_reply_def)

lemma validate_samples: "racs_validate_s32v [samples_reply xs] = Some (Inr xs)"
  by (simp add: racs_validate_s32v_def samples_reply_def racs_parse_buf_def s32v_unpack [unfolded One_nat_def])

text \<open>The command is the common part with the operation, the primitive the common part with the same operation.\<close>

lemma same_operation:
  assumes "\<And>ys. p = Some (Inr ys) \<longleftrightarrow> q = Some (Inr ys)" "2 \<le> length xs"
    and "op xs = p" "op' xs = q"
  shows "same_samples (sample_command name [samples_reply xs] False ctx op) (sample_primitive name' (SCM_s32 xs) op') ctx"
proof -
  have "sample_command name [samples_reply xs] False ctx op =
      (case p of None \<Rightarrow> None | Some (Inl e) \<Rightarrow> racs_validate ctx name e | Some (Inr ys) \<Rightarrow> Some (RACS_STATUS_OK, [samples_reply ys], ctx))"
    using assms(2,3)
    by (auto simp: sample_command_def validate_samples pack_samples_def racs_pack_s32v_def reply_def samples_reply_def [symmetric]
        split: option.split sum.split)
  moreover have "sample_primitive name' (SCM_s32 xs) op' =
      (case q of None \<Rightarrow> None | Some (Inl e) \<Rightarrow> Some (Inl e) | Some (Inr ys) \<Rightarrow> Some (Inr (SCM_s32 ys)))"
    using assms(2,4) by (auto simp: sample_primitive_def scm_arg_def wants_def scm_take_s32vector_def split: option.split sum.split)
  ultimately show ?thesis
    using assms(1) by (auto simp: same_samples_def samples_reply_inject racs_validate_def reply_def racs_pack_error_def
        split: option.splits sum.splits)
qed

lemma primitive_fails: "\<not> (\<exists>ys. r = Some (RACS_STATUS_OK, [samples_reply ys], ctx)) \<Longrightarrow> \<not> (\<exists>ys. p = Some (Inr ys)) \<Longrightarrow> same_samples r p ctx"
  by (auto simp: same_samples_def)

lemma float_arg: "racs_unpack_float64 (MP_array xs) n = (if n < length xs then case xs ! n of MP_f64 d \<Rightarrow> Some d | _ \<Rightarrow> None else None)"
  by (simp add: racs_unpack_float64_def array_elem_def)

lemma ucast_word_of_int: "(ucast (word_of_int i :: 64 word) :: 32 word) = word_of_int i" "(ucast (word_of_int i :: 64 word) :: 16 word) = word_of_int i"
  by (rule bit_word_eqI, auto simp: bit_simps)+

lemma match_gain:
  assumes "2 \<le> length xs"
  shows "same_samples (racs_command_gain env [MP_f64 (double g)] [samples_reply xs] False ctx)
    (racs_scm_gain (SCM_s32 xs) (SCM_num g)) ctx"
  by (simp add: racs_command_gain_def racs_scm_gain_def scm_arg_def wants_def float_arg)
    (rule same_operation [OF _ assms refl refl], simp)

lemma match_trim:
  assumes "2 \<le> length xs"
  shows "same_samples (racs_command_trim env [MP_f64 (double l), MP_f64 (double r)] [samples_reply xs] False ctx)
    (racs_scm_trim (SCM_s32 xs) (SCM_num l) (SCM_num r)) ctx"
  by (simp add: racs_command_trim_def racs_scm_trim_def scm_arg_def wants_def float_arg)
    (rule same_operation [OF _ assms refl refl], auto simp: not_null_def bind_eq_Some_conv)

lemma match_fade:
  assumes "2 \<le> length xs"
  shows "same_samples (racs_command_fade env [MP_f64 (double l), MP_f64 (double r)] [samples_reply xs] False ctx)
    (racs_scm_fade (SCM_s32 xs) (SCM_num l) (SCM_num r)) ctx"
  by (simp add: racs_command_fade_def racs_scm_fade_def scm_arg_def wants_def float_arg)
    (rule same_operation [OF _ assms refl refl], auto simp: not_null_def bind_eq_Some_conv)

lemma match_pad:
  assumes "2 \<le> length xs"
  shows "same_samples (racs_command_pad env [MP_f64 (double l), MP_f64 (double r)] [samples_reply xs] False ctx)
    (racs_scm_pad (SCM_s32 xs) (SCM_num l) (SCM_num r)) ctx"
  by (simp add: racs_command_pad_def racs_scm_pad_def scm_arg_def wants_def float_arg)
    (rule same_operation [OF _ assms refl refl], auto simp: not_null_def bind_eq_Some_conv)

lemma match_pan:
  assumes "2 \<le> length xs"
  shows "same_samples (racs_command_pan env [MP_f64 (double g)] [samples_reply xs] False ctx)
    (racs_scm_pan (SCM_s32 xs) (SCM_num g)) ctx"
proof (cases "double g < - 1 \<or> 1 < double g")
  case True
  then show ?thesis
    by (auto simp: same_samples_def racs_command_pan_def racs_scm_pan_def scm_arg_def wants_def float_arg validate_samples
        racs_validate_def reply_def racs_pack_error_def misc_error_def)
next
  case False
  have pan: "channels_of (xs ! 1) < 2 \<Longrightarrow> racs_ops_pan xs (double g) = Some None"
    using assms by (simp add: racs_ops_pan_def Let_def)
  show ?thesis
    using False
    by (simp add: racs_command_pan_def racs_scm_pan_def scm_arg_def wants_def float_arg validate_samples)
      (rule same_operation [OF _ assms refl refl], auto simp: not_null_def bind_eq_Some_conv misc_error_def pan)
qed

lemma int32_take: "ucast (word_of_int i :: racs_uint64) = (word_of_int (signed_take_bit 31 i) :: racs_int32)"
proof (rule bit_word_eqI)
  fix n
  assume "n < LENGTH(32)"
  then have "n < 31 \<or> n = 31" by auto
  then show "bit (ucast (word_of_int i :: racs_uint64) :: racs_int32) n = bit (word_of_int (signed_take_bit 31 i) :: racs_int32) n"
    by (auto simp: bit_simps)
qed

lemma int32_range: "- (2 ^ 31) \<le> signed_take_bit 31 i \<and> signed_take_bit 31 i < (2 :: int) ^ 31"
  using signed_take_bit_int_greater_eq_minus_exp [of 31 i] signed_take_bit_int_less_exp [of 31 i] by simp

lemma match_clip:
  assumes "2 \<le> length xs"
  shows "same_samples (racs_command_clip env [MP_neg (word_of_int lo), MP_uint (word_of_int hi)] [samples_reply xs] False ctx)
    (racs_scm_clip (SCM_s32 xs) (SCM_int (signed_take_bit 31 lo)) (SCM_int (signed_take_bit 31 hi))) ctx"
  using int32_range [of lo] int32_range [of hi]
  by (simp add: racs_command_clip_def racs_scm_clip_def scm_arg_def racs_unpack_int32_def racs_unpack_int64_def
      racs_unpack_uint64_def array_elem_def int32_take)
    (rule same_operation [OF _ assms(1) refl refl], auto simp: not_null_def)

lemma uint16_take: "ucast (word_of_int i :: racs_uint64) = (word_of_int (i mod 2 ^ 16) :: racs_uint16)"
proof -
  have "i mod 2 ^ 16 = take_bit 16 i" by (simp only: take_bit_eq_mod)
  then show ?thesis by (simp only:) (rule bit_word_eqI, auto simp: bit_simps)
qed

lemma match_split:
  assumes "2 \<le> length xs"
  shows "same_samples (racs_command_split env [MP_uint (word_of_int ch)] [samples_reply xs] False ctx)
    (racs_scm_split (SCM_s32 xs) (SCM_int (ch mod 2 ^ 16))) ctx"
  by (simp add: racs_command_split_def racs_scm_split_def scm_arg_def racs_unpack_uint16_def racs_unpack_uint64_def
      array_elem_def uint16_take)
    (rule same_operation [OF _ assms(1) refl refl], auto simp: misc_error_def not_null_def bind_eq_Some_conv)

text \<open>
  C39: Pipelines and Scheme expressions compute the same. On every array of samples the commands GAIN, TRIM, FADE,
  PAN and PAD hand on exactly the samples that the primitives of the same names return for the same arguments;
  where a primitive raises an error, the command hands on none, and the other way round. The integer arguments
  of CLIP and SPLIT are cut to the width of the operation, \<open>int32\<close> and \<open>uint16\<close>, where the
  primitive raises on a value that does not fit: CLIP and SPLIT hand on what the primitive returns for the
  arguments cut in this way, which are the arguments themselves in the range of the type. A lower bound
  of CLIP that is not negative is refused, whatever the primitive does with it.
\<close>

theorem commands_match_primitives:
  assumes "2 \<le> length xs"
  shows "same_samples (racs_command_gain env [MP_f64 (double g)] [samples_reply xs] False ctx)
      (racs_scm_gain (SCM_s32 xs) (SCM_num g)) ctx \<and>
    same_samples (racs_command_trim env [MP_f64 (double l), MP_f64 (double r)] [samples_reply xs] False ctx)
      (racs_scm_trim (SCM_s32 xs) (SCM_num l) (SCM_num r)) ctx \<and>
    same_samples (racs_command_fade env [MP_f64 (double l), MP_f64 (double r)] [samples_reply xs] False ctx)
      (racs_scm_fade (SCM_s32 xs) (SCM_num l) (SCM_num r)) ctx \<and>
    same_samples (racs_command_pan env [MP_f64 (double g)] [samples_reply xs] False ctx)
      (racs_scm_pan (SCM_s32 xs) (SCM_num g)) ctx \<and>
    same_samples (racs_command_pad env [MP_f64 (double l), MP_f64 (double r)] [samples_reply xs] False ctx)
      (racs_scm_pad (SCM_s32 xs) (SCM_num l) (SCM_num r)) ctx \<and>
    same_samples (racs_command_clip env [MP_neg (word_of_int lo), MP_uint (word_of_int hi)] [samples_reply xs] False ctx)
      (racs_scm_clip (SCM_s32 xs) (SCM_int (signed_take_bit 31 lo)) (SCM_int (signed_take_bit 31 hi))) ctx \<and>
    racs_command_clip env [MP_uint low, high] [samples_reply xs] False ctx =
      racs_validate ctx ''CLIP'' ''Invalid type at arg 1. Expected: negative int'' \<and>
    same_samples (racs_command_split env [MP_uint (word_of_int ch)] [samples_reply xs] False ctx)
      (racs_scm_split (SCM_s32 xs) (SCM_int (ch mod 2 ^ 16))) ctx"
  by (intro conjI match_gain match_trim match_fade match_pan match_pad match_clip match_split assms)
    (simp add: racs_command_clip_def)

text \<open>
  The two interfaces differ outside those ranges. The channel 65536 is channel 0 for the command and out of range
  for the primitive; the bounds 1 and 2 are refused by the command and clip in the primitive.
\<close>

lemma commands_differ:
  "racs_command_split example_env [MP_uint 65536] [samples_reply [44100, 131088, 1, 2]] False example_context =
     Some (RACS_STATUS_OK, [samples_reply [44100, 65552, 1]], example_context)"
  "racs_scm_split (SCM_s32 [44100, 131088, 1, 2]) (SCM_int 65536) = Some (Inl Scm_out_of_range)"
  "racs_command_clip example_env [MP_uint 1, MP_uint 2] [samples_reply [44100, 65552, 5]] False example_context =
     racs_validate example_context ''CLIP'' ''Invalid type at arg 1. Expected: negative int''"
  "racs_scm_clip (SCM_s32 [44100, 65552, 5]) (SCM_int 1) (SCM_int 2) = Some (Inr (SCM_s32 [44100, 65552, 2]))"
proof -
  have "racs_scm_split (SCM_s32 [44100, 131088, 1, 2]) (SCM_int (65536 mod 2 ^ 16)) = Some (Inr (SCM_s32 [44100, 65552, 1]))"
    by code_simp
  with match_split [of "[44100, 131088, 1, 2]" example_env 65536 example_context]
  show "racs_command_split example_env [MP_uint 65536] [samples_reply [44100, 131088, 1, 2]] False example_context =
     Some (RACS_STATUS_OK, [samples_reply [44100, 65552, 1]], example_context)"
    unfolding same_samples_def by simp
qed (code_simp, simp add: racs_command_clip_def, code_simp)

theorem commands_match_primitives_witness:
  "racs_command_split example_env [MP_uint (word_of_int 0)] [samples_reply [44100, 131088, 1, 2]] False example_context =
    Some (RACS_STATUS_OK, [samples_reply [44100, 65552, 1]], example_context)"
proof -
  have "racs_scm_split (SCM_s32 [44100, 131088, 1, 2]) (SCM_int 0) = Some (Inr (SCM_s32 [44100, 65552, 1]))" by code_simp
  moreover have "same_samples (racs_command_split example_env [MP_uint (word_of_int 0)] [samples_reply [44100, 131088, 1, 2]] False example_context)
      (racs_scm_split (SCM_s32 [44100, 131088, 1, 2]) (SCM_int 0)) example_context"
    using commands_match_primitives [of "[44100, 131088, 1, 2]" example_env _ example_context _ _ _ _ _ _ 0] by simp
  ultimately show ?thesis unfolding same_samples_def by blast
qed

end
