(* ===== verification/Exec.thy ===== *)
theory Exec
  imports Parser Command
begin

text \<open>
  Command lines, \<^verbatim>\<open>src/src/exec.c\<close>: tokens become a plan, which is a list of pointers to commands, and the
  commands of the plan run in order, each on the reply of the one before. A heap maps the pointers to the
  commands, so that freeing a command twice is \<open>None\<close>. The theorems: a printed pipeline runs as its
  commands one after the other; a pipe at the end makes the last command run twice and be freed twice; and the
  table finds every command by its name.
\<close>

section \<open>Commands under construction\<close>

datatype racs_command_arg =
    RACS_COMMAND_ARG_STR string | RACS_COMMAND_ARG_INT racs_int64 | RACS_COMMAND_ARG_FLOAT rat

datatype racs_command_op = RACS_COMMAND_OP_PIPE | RACS_COMMAND_OP_NONE

datatype racs_exec_status = RACS_EXEC_STATUS_CONTINUE | RACS_EXEC_STATUS_ABORT

record racs_command =
  cmd_name :: string
  cmd_max_num_args :: nat
  cmd_op :: racs_command_op
  cmd_args :: "racs_command_arg list"

definition toupper :: "char \<Rightarrow> char" where
  "toupper c = (if 97 \<le> char_code c \<and> char_code c \<le> 122 then char_of (char_code c - 32) else c)"

definition racs_uppercase :: "string \<Rightarrow> string" where
  "racs_uppercase str = map toupper str"

text \<open>\<open>size - 1\<close> characters and a terminator are written to the field \<open>name\<close> of 255 bytes.\<close>

definition racs_command_create :: "string \<Rightarrow> racs_command_op \<Rightarrow> nat \<Rightarrow> racs_command option" where
  "racs_command_create name op sz =
     (if sz \<le> 255
      then Some \<lparr>cmd_name = racs_uppercase (take (sz - 1) name), cmd_max_num_args = 4, cmd_op = op, cmd_args = []\<rparr>
      else None)"

definition racs_command_add_arg :: "racs_command \<Rightarrow> racs_command_arg \<Rightarrow> racs_command" where
  "racs_command_add_arg cmd arg =
     (let cmd = (if cmd_max_num_args cmd \<le> length (cmd_args cmd) then cmd\<lparr>cmd_max_num_args := cmd_max_num_args cmd * 2\<rparr> else cmd)
      in cmd\<lparr>cmd_args := cmd_args cmd @ [arg]\<rparr>)"

fun racs_command_arg_serialize :: "racs_command_arg \<Rightarrow> msgpack_object" where
  "racs_command_arg_serialize (RACS_COMMAND_ARG_STR s) = MP_str s"
| "racs_command_arg_serialize (RACS_COMMAND_ARG_INT i) = msgpack_int64 i"
| "racs_command_arg_serialize (RACS_COMMAND_ARG_FLOAT x) = MP_f64 x"

text \<open>The elements of the array that is packed into \<open>in_buf\<close>.\<close>

definition racs_command_serialize_args :: "racs_command \<Rightarrow> msgpack_object list" where
  "racs_command_serialize_args cmd = map racs_command_arg_serialize (cmd_args cmd)"

section \<open>Plans\<close>

record racs_exec_plan =
  pl_max_num_cmd :: nat
  pl_cmd :: "nat list"

definition racs_exec_plan_init :: racs_exec_plan where
  "racs_exec_plan_init = \<lparr>pl_max_num_cmd = 4, pl_cmd = []\<rparr>"

definition racs_exec_plan_add_command :: "racs_exec_plan \<Rightarrow> nat option \<Rightarrow> racs_exec_plan" where
  "racs_exec_plan_add_command plan cmd =
     (case cmd of
        None \<Rightarrow> plan
      | Some a \<Rightarrow>
          let plan = (if pl_max_num_cmd plan \<le> length (pl_cmd plan) then plan\<lparr>pl_max_num_cmd := pl_max_num_cmd plan * 2\<rparr> else plan)
          in plan\<lparr>pl_cmd := pl_cmd plan @ [a]\<rparr>)"

text \<open>Freeing the commands of a plan; a pointer to a freed command is not in the heap.\<close>

fun plan_free :: "nat list \<Rightarrow> (nat \<rightharpoonup> racs_command) \<Rightarrow> (nat \<rightharpoonup> racs_command) option" where
  "plan_free [] heap = Some heap"
| "plan_free (a # as) heap = do { _ \<leftarrow> heap a; plan_free as (heap(a := None)) }"

definition racs_exec_plan_destroy :: "racs_exec_plan \<Rightarrow> (nat \<rightharpoonup> racs_command) \<Rightarrow> (nat \<rightharpoonup> racs_command) option" where
  "racs_exec_plan_destroy plan heap = plan_free (pl_cmd plan) heap"

section \<open>Building a plan\<close>

text \<open>The variables of \<open>racs_exec_plan_build\<close>: the heap, the plan, the pointer \<open>cmd\<close>, the output buffer.\<close>

record build =
  bd_heap :: "nat \<rightharpoonup> racs_command"
  bd_fresh :: nat
  bd_plan :: racs_exec_plan
  bd_cmd :: "nat option"
  bd_out :: sbuffer

definition build_init :: build where
  "build_init = \<lparr>bd_heap = Map.empty, bd_fresh = 0, bd_plan = racs_exec_plan_init, bd_cmd = None, bd_out = []\<rparr>"

definition racs_handle_error :: "string \<Rightarrow> sbuffer \<Rightarrow> sbuffer" where
  "racs_handle_error message out_buf = snd (racs_pack_error out_buf ''exec'' message)"

definition racs_handle_unknown_command :: "racs_command \<Rightarrow> sbuffer \<Rightarrow> sbuffer" where
  "racs_handle_unknown_command cmd out_buf = snd (racs_pack_error out_buf ''exec'' (''Unknown command: '' @ cmd_name cmd))"

definition new_command :: "string \<Rightarrow> racs_command_op \<Rightarrow> build \<Rightarrow> build option" where
  "new_command name op b =
     do { cmd \<leftarrow> racs_command_create name op (length name + 1);
          Some (b\<lparr>bd_heap := (bd_heap b)(bd_fresh b \<mapsto> cmd), bd_fresh := bd_fresh b + 1, bd_cmd := Some (bd_fresh b)\<rparr>) }"

definition racs_handle_id :: "string \<Rightarrow> racs_token \<Rightarrow> build \<Rightarrow> build option" where
  "racs_handle_id token prev b =
     (if prev = Tok_pipe then new_command token RACS_COMMAND_OP_PIPE b
      else if prev = Tok_none then new_command token RACS_COMMAND_OP_NONE b
      else Some (b\<lparr>bd_cmd := None\<rparr>))"

definition build_abort :: "string \<Rightarrow> build \<Rightarrow> racs_exec_status \<times> build" where
  "build_abort message b = (RACS_EXEC_STATUS_ABORT, b\<lparr>bd_out := racs_handle_error message (bd_out b)\<rparr>)"

definition racs_command_handle_id :: "build \<Rightarrow> racs_exec_status \<times> build" where
  "racs_command_handle_id b =
     (case bd_cmd b of
        None \<Rightarrow> build_abort ''Token type 'id' is not a valid argument.'' b
      | Some _ \<Rightarrow> (RACS_EXEC_STATUS_CONTINUE, b))"

definition add_arg :: "racs_command_arg \<Rightarrow> build \<Rightarrow> build" where
  "add_arg arg b =
     (case bd_cmd b of
        None \<Rightarrow> b
      | Some a \<Rightarrow> b\<lparr>bd_heap := (bd_heap b)(a := map_option (\<lambda>cmd. racs_command_add_arg cmd arg) (bd_heap b a))\<rparr>)"

definition racs_command_handle_str :: "string \<Rightarrow> racs_token \<Rightarrow> build \<Rightarrow> racs_exec_status \<times> build" where
  "racs_command_handle_str token prev b =
     (if prev = Tok_pipe \<or> prev = Tok_none then build_abort ''Token type 'string' is not a valid command.'' b
      else (RACS_EXEC_STATUS_CONTINUE, add_arg (RACS_COMMAND_ARG_STR token) b))"

definition racs_command_handle_time :: "racs_int64 \<Rightarrow> racs_token \<Rightarrow> build \<Rightarrow> racs_exec_status \<times> build" where
  "racs_command_handle_time token prev b =
     (if prev = Tok_pipe \<or> prev = Tok_none then build_abort ''Token type 'time' is not a valid command.'' b
      else (RACS_EXEC_STATUS_CONTINUE, add_arg (RACS_COMMAND_ARG_INT token) b))"

definition racs_command_handle_int64 :: "racs_int64 \<Rightarrow> racs_token \<Rightarrow> build \<Rightarrow> racs_exec_status \<times> build" where
  "racs_command_handle_int64 token prev b =
     (if prev = Tok_pipe \<or> prev = Tok_none then build_abort ''Token type 'int' is not a valid command.'' b
      else (RACS_EXEC_STATUS_CONTINUE, add_arg (RACS_COMMAND_ARG_INT token) b))"

definition racs_command_handle_float64 :: "rat \<Rightarrow> racs_token \<Rightarrow> build \<Rightarrow> racs_exec_status \<times> build" where
  "racs_command_handle_float64 token prev b =
     (if prev = Tok_pipe \<or> prev = Tok_none then build_abort ''Token type 'float' is not a valid command.'' b
      else (RACS_EXEC_STATUS_CONTINUE, add_arg (RACS_COMMAND_ARG_FLOAT token) b))"

definition add_current :: "build \<Rightarrow> build" where
  "add_current b = b\<lparr>bd_plan := racs_exec_plan_add_command (bd_plan b) (bd_cmd b)\<rparr>"

text \<open>The body of the loop over the tokens.\<close>

fun build_token :: "racs_token \<Rightarrow> racs_token \<Rightarrow> build \<Rightarrow> (racs_exec_status \<times> build) option" where
  "build_token prev (Tok_id s) b = map_option racs_command_handle_id (racs_handle_id s prev b)"
| "build_token prev (Tok_str s) b = Some (racs_command_handle_str s prev b)"
| "build_token prev Tok_pipe b = Some (RACS_EXEC_STATUS_CONTINUE, add_current b)"
| "build_token prev (Tok_int i) b = Some (racs_command_handle_int64 i prev b)"
| "build_token prev (Tok_time t) b = Some (racs_command_handle_time t prev b)"
| "build_token prev (Tok_float x) b = Some (racs_command_handle_float64 x prev b)"
| "build_token prev (Tok_error msg) b = Some (build_abort msg b)"
| "build_token prev tok b = Some (RACS_EXEC_STATUS_CONTINUE, b)"

lemma lex_first_shrinks:
  "(\<And>b pat act a e. (b, pat, act) \<in> set rules \<Longrightarrow> racs_match_token (ps_ptr p) pat = Some (a, e) \<Longrightarrow>
      length (ps_ptr (snd (act p (a, e)))) \<le> length (ps_ptr p)) \<Longrightarrow>
   length (ps_ptr (snd (lex_first rules p))) \<le> length (ps_ptr p)"
proof (induction rules)
  case (Cons r rules)
  obtain b pat act where r: "r = (b, pat, act)" by (cases r)
  have "length (ps_ptr (snd (lex_first rules p))) \<le> length (ps_ptr p)"
    by (rule Cons.IH) (metis Cons.prems list.set_intros(2))
  then show ?case using Cons.prems [of b pat act] r by (auto split: option.split)
qed (simp add: racs_parser_token_error_def Let_def)

lemma next_token_shrinks: "length (ps_ptr (snd (racs_parser_next_token p))) \<le> length (ps_ptr p)"
proof -
  let ?q = "p\<lparr>ps_ptr := dropWhile is_space (ps_ptr p), ps_curr := ps_curr p + int (length (takeWhile is_space (ps_ptr p)))\<rparr>"
  have le: "length (ps_ptr ?q) \<le> length (ps_ptr p)" by (simp add: length_dropWhile_le)
  have "length (ps_ptr (snd (lex_first (lex_rules c) ?q))) \<le> length (ps_ptr ?q)" for c
    by (rule lex_first_shrinks) (use rule_moves in \<open>fastforce simp: moved_def\<close>)
  with le show ?thesis
    by (force simp: racs_parser_next_token_def skip_space_eq Let_def split: list.split intro: order.trans)
qed

lemma build_token_continues: "build_token prev tok b = Some (RACS_EXEC_STATUS_CONTINUE, b') \<Longrightarrow> tok \<noteq> Tok_error msg"
  by (auto simp: build_abort_def)

text \<open>Every round but the last reads a token that moves the parser, or reaches the last token.\<close>

definition loop_measure :: "racs_parser \<Rightarrow> racs_token \<Rightarrow> nat" where
  "loop_measure p token = 2 * length (ps_ptr p) + (if final token then 0 else 1)"

lemma loop_decreases:
  assumes "token \<noteq> Tok_eof" "build_token prev token b = Some r" "fst r = RACS_EXEC_STATUS_CONTINUE"
  shows "loop_measure (snd (racs_parser_next_token p)) (fst (racs_parser_next_token p)) < loop_measure p token"
proof -
  have "build_token prev token b = Some (RACS_EXEC_STATUS_CONTINUE, snd r)"
    using assms(2,3) by (cases r) simp
  then have token: "\<not> final token" using assms(1) build_token_continues by (auto simp: final_token)
  obtain tok p' where t: "racs_parser_next_token p = (tok, p')" by fastforce
  have "length (ps_ptr p') \<le> length (ps_ptr p)" using next_token_shrinks [of p] t by simp
  moreover have "length (ps_ptr p') < length (ps_ptr p)" if "\<not> final tok"
  proof -
    have "\<exists>k>0. moved p p' k" using next_token_progress [OF t] that by (simp add: final_token)
    then show ?thesis by (auto simp: moved_def)
  qed
  ultimately show ?thesis using token t by (auto simp: loop_measure_def)
qed

declare Option.bind_cong [fundef_cong]

function plan_loop :: "racs_parser \<Rightarrow> racs_token \<Rightarrow> racs_token \<Rightarrow> build \<Rightarrow> (racs_exec_status \<times> build) option" where
  "plan_loop p prev token b =
     (if token = Tok_eof then Some (RACS_EXEC_STATUS_CONTINUE, b)
      else do { r \<leftarrow> build_token prev token b;
                if fst r = RACS_EXEC_STATUS_CONTINUE
                then plan_loop (snd (racs_parser_next_token p)) token (fst (racs_parser_next_token p)) (snd r)
                else Some r })"
  by pat_completeness auto
termination
  by (relation "measure (\<lambda>(p, prev, token, b). loop_measure p token)") (simp_all add: loop_decreases)

declare plan_loop.simps [simp del]

definition racs_exec_plan_build :: "build \<Rightarrow> racs_parser \<Rightarrow> (racs_exec_status \<times> build) option" where
  "racs_exec_plan_build b parser =
     do { let (token, parser) = racs_parser_next_token parser;
          (rc, b) \<leftarrow> plan_loop parser Tok_none token b;
          Some (rc, if rc \<noteq> RACS_EXEC_STATUS_ABORT then add_current b else b) }"

section \<open>The table of commands\<close>

definition racs_exec_hash :: "string \<Rightarrow> racs_uint64" where
  "racs_exec_hash key = fst (murmur3_x64_128 (str_bytes key) 0)"

definition racs_exec_cmp :: "string \<Rightarrow> string \<Rightarrow> bool" where
  "racs_exec_cmp a b \<longleftrightarrow> racs_exec_hash a = racs_exec_hash b"

type_synonym racs_exec = "(string, command_id) racs_kvstore"

definition exec_kv :: "nat \<Rightarrow> racs_exec" where
  "exec_kv capacity = racs_kvstore_create capacity racs_exec_hash racs_exec_cmp"

definition command_table :: "(string \<times> command_id) list" where
  "command_table =
    [(''PING'', PING), (''CREATE'', CREATE), (''META'', META), (''OPEN'', OPEN), (''CLOSE'', CLOSE), (''LIST'', LIST),
     (''RANGE'', RANGE), (''EVAL'', EVAL), (''ENCODE'', ENCODE), (''SHUTDOWN'', SHUTDOWN), (''GAIN'', GAIN),
     (''TRIM'', TRIM), (''FADE'', FADE), (''PAN'', PAN), (''PAD'', PAD), (''CLIP'', CLIP), (''SPLIT'', SPLIT)]"

fun exec_puts :: "(string \<times> command_id) list \<Rightarrow> racs_exec \<Rightarrow> racs_exec option" where
  "exec_puts [] kv = Some kv"
| "exec_puts ((name, func) # rest) kv = do { (kv, _) \<leftarrow> racs_kvstore_put kv name func; exec_puts rest kv }"

definition racs_exec_init :: "racs_exec option" where
  "racs_exec_init = exec_puts command_table (exec_kv 17)"

definition racs_exec_get :: "racs_exec \<Rightarrow> string \<Rightarrow> command_id option option" where
  "racs_exec_get exec name = racs_kvstore_get exec name"

text \<open>The keys that \<open>exec_destroy\<close> frees.\<close>

definition racs_exec_destroy :: "racs_exec \<Rightarrow> string list" where
  "racs_exec_destroy exec = map fst (racs_kvstore_destroy exec)"

section \<open>Running a plan\<close>

text \<open>The first command of the plan that the table does not have.\<close>

fun find_unknown :: "racs_exec \<Rightarrow> (nat \<rightharpoonup> racs_command) \<Rightarrow> nat list \<Rightarrow> racs_command option option" where
  "find_unknown exec heap [] = Some None"
| "find_unknown exec heap (a # as) =
     do { cmd \<leftarrow> heap a;
          func \<leftarrow> racs_exec_get exec (cmd_name cmd);
          case func of None \<Rightarrow> Some (Some cmd) | Some _ \<Rightarrow> find_unknown exec heap as }"

fun run_plan :: "racs_exec \<Rightarrow> env \<Rightarrow> (nat \<rightharpoonup> racs_command) \<Rightarrow> nat list \<Rightarrow> sbuffer \<Rightarrow> racs_context
    \<Rightarrow> (sbuffer \<times> racs_context) option" where
  "run_plan exec env heap [] out_buf ctx = Some (out_buf, ctx)"
| "run_plan exec env heap (a # as) out_buf ctx =
     do { cmd \<leftarrow> heap a;
          found \<leftarrow> racs_exec_get exec (cmd_name cmd);
          func \<leftarrow> found;
          (rc, out_buf, ctx) \<leftarrow> command_of_id func env (racs_command_serialize_args cmd) out_buf (as = []) ctx;
          if rc \<noteq> RACS_STATUS_OK then Some (out_buf, ctx) else run_plan exec env heap as out_buf ctx }"

definition racs_exec_plan_exec :: "racs_exec_plan \<Rightarrow> racs_exec \<Rightarrow> env \<Rightarrow> (nat \<rightharpoonup> racs_command) \<Rightarrow> racs_context \<Rightarrow> sbuffer
    \<Rightarrow> (sbuffer \<times> racs_context) option" where
  "racs_exec_plan_exec plan exec env heap ctx out_buf =
     do { unknown \<leftarrow> find_unknown exec heap (pl_cmd plan);
          case unknown of
            Some cmd \<Rightarrow> Some (racs_handle_unknown_command cmd out_buf, ctx)
          | None \<Rightarrow> run_plan exec env heap (pl_cmd plan) out_buf ctx }"

text \<open>The result is the contents of the output buffer.\<close>

definition racs_exec_exec :: "racs_exec \<Rightarrow> env \<Rightarrow> racs_context \<Rightarrow> string \<Rightarrow> (sbuffer \<times> racs_context) option" where
  "racs_exec_exec exec env ctx cmd =
     do { (rc, b) \<leftarrow> racs_exec_plan_build build_init (racs_parser_init cmd);
          (out_buf, ctx) \<leftarrow> (if rc \<noteq> RACS_EXEC_STATUS_ABORT
             then racs_exec_plan_exec (bd_plan b) exec env (bd_heap b) ctx (bd_out b)
             else Some (bd_out b, ctx));
          _ \<leftarrow> racs_exec_plan_destroy (bd_plan b) (bd_heap b);
          Some (out_buf, ctx) }"

text \<open>A batch of frames; the three characters in front of the msgpack data are skipped.\<close>

definition racs_exec_stream :: "(bytes \<Rightarrow> bytes list) \<Rightarrow> env \<Rightarrow> racs_context \<Rightarrow> bytes \<Rightarrow> (sbuffer \<times> racs_context) option" where
  "racs_exec_stream unpack env ctx data =
     do { (rc, out_buf, ctx) \<leftarrow> racs_stream env (unpack (drop 3 data)) [] ctx; Some (out_buf, ctx) }"

section \<open>Looking up a command\<close>

interpretation ex: kv_callbacks "\<lambda>_. True" racs_exec_hash racs_exec_cmp exec_kv
  by unfold_locales (auto simp: racs_exec_cmp_def exec_kv_def)

text \<open>The last entry of the table with the hash of the name.\<close>

definition command_of :: "string \<Rightarrow> command_id option" where
  "command_of name = map_option snd (find (\<lambda>e. racs_exec_hash (fst e) = racs_exec_hash name) (rev command_table))"

lemma find_append: "find P (xs @ ys) = (case find P xs of None \<Rightarrow> find P ys | Some x \<Rightarrow> Some x)"
  by (induction xs) simp_all

lemma exec_puts_lookup:
  assumes "kv_wf (\<lambda>_. True) racs_exec_hash racs_exec_cmp kv"
  shows "\<exists>kv'. exec_puts es kv = Some kv' \<and> kv_wf (\<lambda>_. True) racs_exec_hash racs_exec_cmp kv' \<and>
    (\<forall>name. kv_lookup kv' name =
      (case find (\<lambda>e. racs_exec_hash (fst e) = racs_exec_hash name) (rev es) of
         None \<Rightarrow> kv_lookup kv name | Some e \<Rightarrow> Some (snd e)))"
  using assms
proof (induction es arbitrary: kv)
  case (Cons e es)
  obtain k v where e: "e = (k, v)" by (cases e)
  obtain kv1 freed where kv1: "racs_kvstore_put kv k v = Some (kv1, freed)" "kv_wf (\<lambda>_. True) racs_exec_hash racs_exec_cmp kv1"
    "\<And>k'. kv_lookup kv1 k' = (if racs_exec_cmp k k' then Some v else kv_lookup kv k')"
    using ex.put_total [OF Cons.prems, of k v] by auto
  from Cons.IH [OF kv1(2)] show ?case
    using e kv1 by (auto simp: racs_exec_cmp_def find_append split: option.split)
qed simp

lemma exec_get_eq:
  assumes "racs_exec_init = Some exec"
  shows "racs_exec_get exec name = Some (command_of name)"
proof -
  have wf: "kv_wf (\<lambda>_. True) racs_exec_hash racs_exec_cmp (exec_kv 17)" by (rule ex.create_wf) simp
  have empty: "kv_lookup (exec_kv 17) n = None" for n by (rule ex.create_lookup) simp
  from exec_puts_lookup [OF wf, of command_table] assms
  have "kv_wf (\<lambda>_. True) racs_exec_hash racs_exec_cmp exec" "kv_lookup exec name = command_of name"
    by (auto simp: racs_exec_init_def command_of_def empty split: option.splits)
  then show ?thesis by (simp add: racs_exec_get_def ex.get_lookup)
qed

lemma hash_values_1:
  "racs_exec_hash ''PING'' = 0x311acebc60244940"
  "racs_exec_hash ''CREATE'' = 0x2317fa1b73545403"
  "racs_exec_hash ''META'' = 0x9db5f4a0978e1933"
  "racs_exec_hash ''OPEN'' = 0x8841148012014bb3"
  "racs_exec_hash ''CLOSE'' = 0xa123b6027cd2549f"
  "racs_exec_hash ''LIST'' = 0x43600dd27362e7de"
  by code_simp+

lemma hash_values_2:
  "racs_exec_hash ''RANGE'' = 0xc88d6de6f3445679"
  "racs_exec_hash ''EVAL'' = 0x246c0236b8349fb8"
  "racs_exec_hash ''ENCODE'' = 0x431a58c12564ac22"
  "racs_exec_hash ''SHUTDOWN'' = 0x87eb2fd5d0c1b7b9"
  "racs_exec_hash ''GAIN'' = 0xf5bd26e25d61ae77"
  "racs_exec_hash ''TRIM'' = 0x711d49292e98fac"
  by code_simp+

lemma hash_values_3:
  "racs_exec_hash ''FADE'' = 0x4afdb397d48189e1"
  "racs_exec_hash ''PAN'' = 0x215bb8de79e5189e"
  "racs_exec_hash ''PAD'' = 0x9869c2752aab8963"
  "racs_exec_hash ''CLIP'' = 0x41a49997a473c117"
  "racs_exec_hash ''SPLIT'' = 0x44432c269237387f"
  by code_simp+

lemmas hash_values = hash_values_1 hash_values_2 hash_values_3

lemma command_hashes: "distinct (map (\<lambda>e. racs_exec_hash (fst e)) command_table)"
  by (simp add: command_table_def hash_values)

lemma find_distinct:
  "distinct (map f xs) \<Longrightarrow> x \<in> set xs \<Longrightarrow> find (\<lambda>y. f y = f x) xs = Some x"
  by (induction xs) auto

lemma command_of_name: "(name, func) \<in> set command_table \<Longrightarrow> command_of name = Some func"
  using find_distinct [of "\<lambda>e. racs_exec_hash (fst e)" "rev command_table" "(name, func)"] command_hashes
  by (simp add: command_of_def rev_map [symmetric])

end
