(* ===== verification/Pipeline.thy ===== *)
theory Pipeline
  imports Exec
begin

text \<open>
  The meaning of command lines. A printed pipeline, words with spaces between them and \<^verbatim>\<open>|>\<close> between the
  commands, is read, planned, run and freed by \<open>racs_exec_exec\<close> as its commands one after the other; a pipe
  at the end makes the last command run twice and be freed twice.
\<close>

section \<open>Command lines\<close>

text \<open>A pipeline: its commands with their arguments, which are strings, integers and fractions.\<close>

type_synonym pipeline = "(string \<times> word_form list) list"

fun arg_value :: "word_form \<Rightarrow> msgpack_object" where
  "arg_value (W_str s) = MP_str s"
| "arg_value (W_int i) = msgpack_int64 (word_of_int i)"
| "arg_value (W_float neg ds fs) = MP_f64 (double ((if neg then - 1 else 1) * (of_nat (str_val (ds @ fs)) / 10 ^ length fs)))"
| "arg_value _ = MP_nil"

definition arg_ok :: "word_form \<Rightarrow> bool" where
  "arg_ok w \<longleftrightarrow> word_ok w \<and> (case w of W_id _ \<Rightarrow> False | W_pipe \<Rightarrow> False | _ \<Rightarrow> True)"

definition command_ok :: "string \<times> word_form list \<Rightarrow> bool" where
  "command_ok c \<longleftrightarrow> word_ok (W_id (fst c)) \<and> length (fst c) < 255 \<and> list_all arg_ok (snd c)"

fun pipeline_words :: "pipeline \<Rightarrow> word_form list" where
  "pipeline_words [] = []"
| "pipeline_words [c] = W_id (fst c) # snd c"
| "pipeline_words (c # cs) = (W_id (fst c) # snd c) @ W_pipe # pipeline_words cs"

text \<open>
  What a pipeline means: if a command is unknown, nothing runs; otherwise each gets the reply of the one
  before, up to the first that fails.
\<close>

fun run_pipeline :: "env \<Rightarrow> pipeline \<Rightarrow> sbuffer \<Rightarrow> racs_context \<Rightarrow> (sbuffer \<times> racs_context) option" where
  "run_pipeline env [] out_buf ctx = Some (out_buf, ctx)"
| "run_pipeline env (c # cs) out_buf ctx =
     do { func \<leftarrow> command_of (racs_uppercase (fst c));
          (rc, out_buf, ctx) \<leftarrow> command_of_id func env (map arg_value (snd c)) out_buf (cs = []) ctx;
          if rc = RACS_STATUS_OK then run_pipeline env cs out_buf ctx else Some (out_buf, ctx) }"

definition pipeline_meaning :: "env \<Rightarrow> pipeline \<Rightarrow> racs_context \<Rightarrow> (sbuffer \<times> racs_context) option" where
  "pipeline_meaning env cs ctx =
     (case find (\<lambda>c. command_of (racs_uppercase (fst c)) = None) cs of
        Some c \<Rightarrow> Some ([MP_array [racs_pack_type RACS_TYPE_ERROR, MP_str (''exec: Unknown command: '' @ racs_uppercase (fst c))]], ctx)
      | None \<Rightarrow> run_pipeline env cs [] ctx)"

section \<open>From words to plans\<close>

text \<open>The loop over the words of a printed line.\<close>

fun loop_words :: "racs_token \<Rightarrow> word_form list \<Rightarrow> build \<Rightarrow> (racs_exec_status \<times> build) option" where
  "loop_words prev [] b = Some (RACS_EXEC_STATUS_CONTINUE, b)"
| "loop_words prev (w # ws) b =
     do { r \<leftarrow> build_token prev (word_token w) b;
          if fst r = RACS_EXEC_STATUS_CONTINUE then loop_words (word_token w) ws (snd r) else Some r }"

lemma word_token_not_eof: "word_token w \<noteq> Tok_eof"
  by (cases w) simp_all

lemma plan_loop_words:
  "list_all word_ok ws \<Longrightarrow> ps_ptr p = line_text ws \<or> ws \<noteq> [] \<and> ps_ptr p = CHR '' '' # line_text ws \<Longrightarrow>
   plan_loop (snd (racs_parser_next_token p)) prev (fst (racs_parser_next_token p)) b = loop_words prev ws b"
proof (induction ws arbitrary: p prev b)
  case Nil
  then show ?case by (simp add: next_token_end plan_loop.simps)
next
  case (Cons w ws)
  obtain p' where p': "racs_parser_next_token p = (word_token w, p')"
    "ps_ptr p' = (if ws = [] then [] else CHR '' '' # line_text ws)"
    using next_token_word [of w p ws] Cons.prems by auto
  have "plan_loop (snd (racs_parser_next_token p')) (word_token w) (fst (racs_parser_next_token p')) b' = loop_words (word_token w) ws b'" for b'
    using Cons.IH [of p' "word_token w" b'] Cons.prems(1) p'(2) by simp
  moreover have "plan_loop p' prev (word_token w) b =
      do { r \<leftarrow> build_token prev (word_token w) b;
           if fst r = RACS_EXEC_STATUS_CONTINUE
           then plan_loop (snd (racs_parser_next_token p')) (word_token w) (fst (racs_parser_next_token p')) (snd r)
           else Some r }"
    by (simp only: plan_loop.simps [of p'] word_token_not_eof if_False)
  ultimately show ?case
    using p'(1) by (simp only: fst_conv snd_conv loop_words.simps)
qed

lemma plan_build_words:
  assumes "list_all word_ok ws"
  shows "racs_exec_plan_build b (racs_parser_init (line_text ws)) =
    map_option (\<lambda>(rc, b). (rc, if rc \<noteq> RACS_EXEC_STATUS_ABORT then add_current b else b)) (loop_words Tok_none ws b)"
proof -
  let ?p = "racs_parser_init (line_text ws)"
  have "plan_loop (snd (racs_parser_next_token ?p)) Tok_none (fst (racs_parser_next_token ?p)) b = loop_words Tok_none ws b"
    by (rule plan_loop_words [OF assms]) (simp add: racs_parser_init_def)
  then show ?thesis
    by (cases "loop_words Tok_none ws b") (auto simp: racs_exec_plan_build_def split: prod.split)
qed

text \<open>The commands in the heap that a list of pointers stands for.\<close>

definition command_is :: "racs_command \<Rightarrow> string \<times> word_form list \<Rightarrow> bool" where
  "command_is cmd c \<longleftrightarrow> cmd_name cmd = racs_uppercase (fst c) \<and> racs_command_serialize_args cmd = map arg_value (snd c)"

definition stands_for :: "(nat \<rightharpoonup> racs_command) \<Rightarrow> nat list \<Rightarrow> pipeline \<Rightarrow> bool" where
  "stands_for heap as cs \<longleftrightarrow> list_all2 (\<lambda>a c. \<exists>cmd. heap a = Some cmd \<and> command_is cmd c) as cs"

definition built :: "build \<Rightarrow> pipeline \<Rightarrow> bool" where
  "built b cs \<longleftrightarrow> stands_for (bd_heap b) (pl_cmd (bd_plan b)) cs \<and> distinct (pl_cmd (bd_plan b)) \<and>
     (\<forall>a\<in>set (pl_cmd (bd_plan b)). a < bd_fresh b) \<and> bd_out b = []"

lemma built_init: "built build_init []"
  by (simp add: built_def build_init_def racs_exec_plan_init_def stands_for_def)

lemma add_current_fields:
  "bd_heap (add_current b) = bd_heap b" "bd_fresh (add_current b) = bd_fresh b" "bd_out (add_current b) = bd_out b"
  "bd_cmd (add_current b) = bd_cmd b"
  "pl_cmd (bd_plan (add_current b)) = pl_cmd (bd_plan b) @ (case bd_cmd b of None \<Rightarrow> [] | Some a \<Rightarrow> [a])"
  by (auto simp: add_current_def racs_exec_plan_add_command_def Let_def split: option.split)

text \<open>While the words of a command are read, \<open>cmd\<close> points to it and it is not in the plan.\<close>

definition building :: "build \<Rightarrow> pipeline \<Rightarrow> string \<times> word_form list \<Rightarrow> bool" where
  "building b cs c \<longleftrightarrow> built b cs \<and> (\<exists>a cmd. bd_cmd b = Some a \<and> a < bd_fresh b \<and> a \<notin> set (pl_cmd (bd_plan b)) \<and>
     bd_heap b a = Some cmd \<and> command_is cmd c)"

lemma building_id:
  assumes "built b cs" "prev = Tok_pipe \<or> prev = Tok_none" "length n < 255"
  shows "\<exists>b'. build_token prev (Tok_id n) b = Some (RACS_EXEC_STATUS_CONTINUE, b') \<and> building b' cs (n, [])"
proof -
  have fresh: "bd_fresh b \<notin> set (pl_cmd (bd_plan b))" using assms(1) by (auto simp: built_def)
  then have keep: "stands_for ((bd_heap b)(bd_fresh b \<mapsto> cmd)) (pl_cmd (bd_plan b)) cs" for cmd
    using assms(1) unfolding built_def stands_for_def by (auto elim!: list_all2_mono simp: list_all2_iff set_zip)
  show ?thesis
    using assms keep fresh
    by (auto simp: racs_handle_id_def new_command_def racs_command_create_def racs_command_handle_id_def building_def built_def
        command_is_def racs_command_serialize_args_def)
qed

lemma building_arg:
  assumes "building b cs (n, ws)" "arg_ok w" "prev \<noteq> Tok_pipe" "prev \<noteq> Tok_none"
  shows "\<exists>b'. build_token prev (word_token w) b = Some (RACS_EXEC_STATUS_CONTINUE, b') \<and> building b' cs (n, ws @ [w])"
proof -
  obtain a cmd where a: "bd_cmd b = Some a" "a < bd_fresh b" "a \<notin> set (pl_cmd (bd_plan b))" "bd_heap b a = Some cmd"
    "command_is cmd (n, ws)" and b: "built b cs"
    using assms(1) by (auto simp: building_def)
  have keep: "stands_for ((bd_heap b)(a \<mapsto> cmd')) (pl_cmd (bd_plan b)) cs" for cmd'
    using b a(3) unfolding built_def stands_for_def by (auto elim!: list_all2_mono simp: list_all2_iff set_zip)
  have add: "building (add_arg arg b) cs (n, ws @ [w])" if "racs_command_arg_serialize arg = arg_value w" for arg
    using a b keep that
    by (auto simp: add_arg_def building_def built_def command_is_def racs_command_serialize_args_def racs_command_add_arg_def Let_def)
  show ?thesis
    using assms(2-4) add
    by (cases w) (auto simp: arg_ok_def racs_command_handle_str_def racs_command_handle_int64_def racs_command_handle_float64_def)
qed

lemma building_args:
  "building b cs (n, ws) \<Longrightarrow> list_all arg_ok vs \<Longrightarrow> prev \<noteq> Tok_pipe \<Longrightarrow> prev \<noteq> Tok_none \<Longrightarrow>
   \<exists>b' prev'. loop_words prev (vs @ rest) b = loop_words prev' rest b' \<and> building b' cs (n, ws @ vs)"
proof (induction vs arbitrary: b ws prev)
  case (Cons v vs)
  obtain b' where b': "build_token prev (word_token v) b = Some (RACS_EXEC_STATUS_CONTINUE, b')" "building b' cs (n, ws @ [v])"
    using building_arg [OF Cons.prems(1) _ Cons.prems(3,4), of v] Cons.prems(2) by auto
  have "word_token v \<noteq> Tok_pipe" "word_token v \<noteq> Tok_none" using Cons.prems(2) by (cases v; simp add: arg_ok_def)+
  then show ?case using Cons.IH [OF b'(2)] Cons.prems(2) b'(1) by simp
qed auto

lemma building_command:
  assumes "built b cs" "prev = Tok_pipe \<or> prev = Tok_none" "command_ok c"
  shows "\<exists>b' prev'. loop_words prev ((W_id (fst c) # snd c) @ rest) b = loop_words prev' rest b' \<and> building b' cs c"
proof -
  obtain b1 where b1: "build_token prev (Tok_id (fst c)) b = Some (RACS_EXEC_STATUS_CONTINUE, b1)" "building b1 cs (fst c, [])"
    using building_id [OF assms(1,2), of "fst c"] assms(3) by (auto simp: command_ok_def)
  obtain b2 prev2 where "loop_words (Tok_id (fst c)) (snd c @ rest) b1 = loop_words prev2 rest b2" "building b2 cs c"
    using building_args [OF b1(2), of "snd c" "Tok_id (fst c)" rest] assms(3) by (auto simp: command_ok_def)
  moreover have "loop_words prev ((W_id (fst c) # snd c) @ rest) b = loop_words (Tok_id (fst c)) (snd c @ rest) b1"
    using b1(1) by (simp del: build_token.simps)
  ultimately show ?thesis by metis
qed

lemma building_done: "building b cs c \<Longrightarrow> built (add_current b) (cs @ [c])"
  by (auto simp: building_def built_def add_current_fields stands_for_def list_all2_appendI)

text \<open>The loop reads a whole pipeline, and the plan then has its commands but the last, which is pointed to.\<close>

lemma building_pipeline:
  assumes "built b done" "prev = Tok_pipe \<or> prev = Tok_none" "list_all command_ok (cs @ [c])"
  shows "\<exists>b' prev'. loop_words prev (pipeline_words (cs @ [c]) @ rest) b = loop_words prev' rest b' \<and> building b' (done @ cs) c"
  using assms
proof (induction cs arbitrary: b prev "done")
  case Nil
  then show ?case using building_command [OF Nil(1,2), of c rest] by simp
next
  case (Cons d cs)
  let ?rest = "pipeline_words (cs @ [c]) @ rest"
  obtain b1 prev1 where b1: "loop_words prev ((W_id (fst d) # snd d) @ W_pipe # ?rest) b = loop_words prev1 (W_pipe # ?rest) b1"
    "building b1 done d"
    using building_command [OF Cons.prems(1,2), of d "W_pipe # ?rest"] Cons.prems(3) by auto
  have "pipeline_words (d # cs @ [c]) = (W_id (fst d) # snd d) @ W_pipe # pipeline_words (cs @ [c])"
    by (cases cs) simp_all
  then have "loop_words prev (pipeline_words (d # cs @ [c]) @ rest) b = loop_words Tok_pipe ?rest (add_current b1)"
    using b1(1) by simp
  then show ?case using Cons.IH [OF building_done [OF b1(2)], of Tok_pipe] Cons.prems(3) by auto
qed

lemma command_words_ok: "command_ok c \<Longrightarrow> word_ok (W_id (fst c)) \<and> list_all word_ok (snd c)"
  by (simp add: command_ok_def arg_ok_def list_all_iff del: word_ok.simps)

lemma pipeline_words_ok: "list_all command_ok cs \<Longrightarrow> list_all word_ok (pipeline_words cs)"
  by (induction cs rule: pipeline_words.induct) (simp_all add: command_words_ok del: word_ok.simps(1))

section \<open>Running and freeing\<close>

lemma stands_for_find:
  assumes "\<And>name. racs_exec_get exec name = Some (command_of name)"
  shows "stands_for heap as cs \<Longrightarrow> \<exists>r. find_unknown exec heap as = Some r \<and>
    (case find (\<lambda>c. command_of (racs_uppercase (fst c)) = None) cs of
       None \<Rightarrow> r = None | Some c \<Rightarrow> \<exists>cmd. r = Some cmd \<and> cmd_name cmd = racs_uppercase (fst c))"
  unfolding stands_for_def
proof (induction rule: list_all2_induct)
  case (Cons a as c cs)
  then show ?case using assms by (cases "command_of (racs_uppercase (fst c))") (auto simp: command_is_def)
qed simp

lemma stands_for_run:
  assumes "\<And>name. racs_exec_get exec name = Some (command_of name)"
  shows "stands_for heap as cs \<Longrightarrow> run_plan exec env heap as out_buf ctx = run_pipeline env cs out_buf ctx"
  unfolding stands_for_def
proof (induction arbitrary: out_buf ctx rule: list_all2_induct)
  case (Cons a as c cs)
  have "(as = []) = (cs = [])" using Cons.hyps(2) by auto
  then show ?case using Cons assms
    by (cases "command_of (racs_uppercase (fst c))") (auto simp: command_is_def intro!: Option.bind_cong split: prod.split)
qed simp

lemma plan_free_distinct: "distinct as \<Longrightarrow> set as \<subseteq> dom heap \<Longrightarrow> \<exists>heap'. plan_free as heap = Some heap'"
proof (induction as arbitrary: heap)
  case (Cons a as)
  then have "set as \<subseteq> dom (heap(a := None))" by auto
  then show ?case using Cons by auto
qed simp

lemma plan_free_freed: "heap a = None \<Longrightarrow> a \<in> set as \<Longrightarrow> plan_free as heap = None"
  by (induction as arbitrary: heap) (auto simp: bind_eq_None_conv)

lemma plan_free_twice: "\<not> distinct as \<Longrightarrow> plan_free as heap = None"
proof (induction as arbitrary: heap)
  case (Cons a as)
  then show ?case using plan_free_freed [of "heap(a := None)" a as]
    by (cases "heap a"; cases "a \<in> set as") auto
qed simp

lemma exec_words:
  assumes exec: "racs_exec_init = Some exec" and loop: "loop_words Tok_none ws build_init = Some (RACS_EXEC_STATUS_CONTINUE, b)"
    and ok: "list_all word_ok ws" "built (add_current b) cs"
  shows "racs_exec_exec exec env ctx (line_text ws) = pipeline_meaning env cs ctx"
proof -
  define as where "as = pl_cmd (bd_plan (add_current b))"
  define heap where "heap = bd_heap (add_current b)"
  have as: "stands_for heap as cs" "distinct as" "bd_out (add_current b) = []"
    using ok(2) by (simp_all add: built_def as_def heap_def)
  have "set as \<subseteq> dom heap"
    using as(1) by (fastforce simp: stands_for_def list_all2_conv_all_nth in_set_conv_nth)
  then obtain heap' where free: "plan_free as heap = Some heap'" using plan_free_distinct [OF as(2)] by blast
  note get = exec_get_eq [OF exec]
  note find = stands_for_find [OF get as(1)]
  have "racs_exec_plan_exec (bd_plan (add_current b)) exec env heap ctx [] = pipeline_meaning env cs ctx"
    using find stands_for_run [OF get as(1)]
    by (auto simp: racs_exec_plan_exec_def pipeline_meaning_def as_def [symmetric] racs_handle_unknown_command_def
        racs_pack_error_def split: option.splits)
  then show ?thesis
    using free as(3)
    by (simp add: racs_exec_exec_def plan_build_words [OF ok(1)] loop racs_exec_plan_destroy_def as_def [symmetric]
        heap_def [symmetric] split: prod.split)
qed

lemma exec_pipeline_run:
  assumes "racs_exec_init = Some exec" "list_all command_ok cs"
  shows "racs_exec_exec exec env ctx (line_text (pipeline_words cs)) = pipeline_meaning env cs ctx"
proof (cases cs rule: rev_cases)
  case Nil
  have "built (add_current build_init) []"
    using built_init by (simp add: add_current_def racs_exec_plan_add_command_def build_init_def)
  with assms(1) Nil show ?thesis
    using exec_words [of exec "[]" build_init "[]"] by simp
next
  case (snoc init c)
  obtain b prev where b: "loop_words Tok_none (pipeline_words cs @ []) build_init = loop_words prev [] b" "building b init c"
    using building_pipeline [OF built_init, of Tok_none init c "[]"] assms(2) snoc by auto
  show ?thesis
    by (rule exec_words [OF assms(1) _ pipeline_words_ok [OF assms(2)]])
      (use b building_done [OF b(2)] snoc in auto)
qed

lemma exec_trailing_pipe:
  assumes "list_all command_ok (cs @ [c])"
  shows "racs_exec_exec exec env ctx (line_text (pipeline_words (cs @ [c]) @ [W_pipe])) = None"
proof -
  let ?ws = "pipeline_words (cs @ [c]) @ [W_pipe]"
  obtain b prev where b: "loop_words Tok_none ?ws build_init = loop_words prev [W_pipe] b" "building b cs c"
    using building_pipeline [OF built_init, of Tok_none cs c "[W_pipe]"] assms by auto
  have "loop_words Tok_none ?ws build_init = Some (RACS_EXEC_STATUS_CONTINUE, add_current b)" using b(1) by simp
  moreover have "list_all word_ok ?ws" using pipeline_words_ok [OF assms] by simp
  moreover obtain a where "bd_cmd b = Some a" using b(2) by (auto simp: building_def)
  then have "\<not> distinct (pl_cmd (bd_plan (add_current (add_current b))))" by (simp add: add_current_fields)
  ultimately show ?thesis
    by (simp add: racs_exec_exec_def plan_build_words racs_exec_plan_destroy_def plan_free_twice bind_eq_None_conv split: prod.split)
qed

lemma exec_init_Some: "\<exists>exec. racs_exec_init = Some exec"
proof -
  have "kv_wf (\<lambda>_. True) racs_exec_hash racs_exec_cmp (exec_kv 17)" by (rule ex.create_wf) simp
  from exec_puts_lookup [OF this, of command_table] show ?thesis by (auto simp: racs_exec_init_def)
qed

section \<open>Properties\<close>

text \<open>
  The table of commands is complete. Filling it succeeds; a lookup never leaves the table and depends on the
  hash of the name only; and each of the 17 names finds its own command, since their hashes differ.
\<close>

theorem exec_table:
  "\<exists>exec. racs_exec_init = Some exec \<and> (\<forall>name. racs_exec_get exec name = Some (command_of name)) \<and>
     list_all (\<lambda>(name, func). racs_exec_get exec name = Some (Some func)) command_table"
proof -
  obtain exec where exec: "racs_exec_init = Some exec" using exec_init_Some by blast
  then show ?thesis using exec_get_eq [OF exec] command_of_name by (auto simp: list_all_iff)
qed

text \<open>
  C6: Command lines mean pipelines. For every pipeline of commands with string, integer and decimal arguments
  whose names fit into their field, the printed line, lexed, planned, executed and freed, gives what the pipeline
  means: an error if some command is unknown, before anything runs; otherwise the replies of the commands one
  after the other, each on the reply of the one before, up to the first that does not succeed. Names may be in
  either case.
\<close>

theorem exec_pipeline:
  assumes "racs_exec_init = Some exec" and "list_all command_ok cs"
  shows "racs_exec_exec exec env ctx (line_text (pipeline_words cs)) = pipeline_meaning env cs ctx"
  using assms by (rule exec_pipeline_run)

theorem exec_pipeline_witness:
  "\<exists>exec. racs_exec_init = Some exec \<and>
     racs_exec_exec exec example_env example_context (line_text (pipeline_words [(''eval'', [W_str ''(foo)'']), (''ping'', [])])) =
       Some ([MP_array [racs_pack_type RACS_TYPE_ERROR, MP_str ''EVAL: Unbound variable: foo'']], example_context)"
proof -
  obtain exec where exec: "racs_exec_init = Some exec" using exec_init_Some by blast
  let ?cs = "[(''eval'', [W_str ''(foo)'']), (''ping'', [])]"
  have ok: "list_all command_ok ?cs"
    by (simp add: command_ok_def arg_ok_def id_char_def is_alpha_def is_digit_def char_code_def)
  have up: "racs_uppercase ''eval'' = ''EVAL''" "racs_uppercase ''ping'' = ''PING''" by code_simp+
  have found: "command_of ''EVAL'' = Some EVAL" "command_of ''PING'' = Some PING"
    by (rule command_of_name; simp add: command_table_def)+
  have "pipeline_meaning example_env ?cs example_context =
      Some ([MP_array [racs_pack_type RACS_TYPE_ERROR, MP_str ''EVAL: Unbound variable: foo'']], example_context)"
    by (simp add: pipeline_meaning_def up found example_eval del: command_of_id.simps)
  with exec_pipeline [OF exec ok, of example_env example_context] exec show ?thesis by auto
qed

text \<open>
  C38: A pipe at the end of a pipeline frees a command twice. The loop adds the command in front of the pipe to
  the plan and the end of the line adds it again; whatever running it twice does, \<open>racs_exec_plan_destroy\<close>
  then uses and frees memory that is already freed.
\<close>

theorem trailing_pipe_faults:
  assumes "list_all command_ok (cs @ [c])"
  shows "racs_exec_exec exec env ctx (line_text (pipeline_words (cs @ [c]) @ [W_pipe])) = None"
  using assms by (rule exec_trailing_pipe)

theorem trailing_pipe_faults_witness:
  "\<exists>exec. racs_exec_init = Some exec \<and> racs_exec_exec exec example_env example_context ''PING |>'' = None"
proof -
  have ok: "list_all command_ok ([] @ [(''PING'', [])])"
    by (simp add: command_ok_def id_char_def is_alpha_def is_digit_def char_code_def)
  have "line_text (pipeline_words ([] @ [(''PING'', [])]) @ [W_pipe]) = ''PING |>''" by simp
  then show ?thesis
    using trailing_pipe_faults [OF ok, of _ example_env example_context] exec_init_Some by simp
qed

end
