(* ===== verification/Server.thy ===== *)
theory Server
  imports Pipeline
begin

text \<open>
  Messages between clients, the server and its slaves, \<^verbatim>\<open>src/src/server.c\<close> and \<^verbatim>\<open>src/src/db.c\<close>. A message is a
  length in eight bytes and a body, which is a command line with its terminator, or a batch of frames. The event
  loop calls \<open>racs_read_callback\<close> when bytes have arrived; the buffers of \<^verbatim>\<open>libevent\<close> are lists of
  bytes. The encoding of replies and the unpacking of batches are those of the msgpack library, and are
  parameters. The theorems: a message is answered and forwarded once however it is cut into pieces; one
  call answers at most one message; and a message of length 0 blocks its connection.
\<close>

section \<open>State\<close>

text \<open>The output buffer of a slave is \<open>None\<close> when its connection has been freed or was never made.\<close>

record racs_slave_connection =
  sl_host :: string
  sl_port :: racs_uint16
  sl_connected :: bool
  sl_out :: "bytes option"

record racs_db =
  db_ctx :: racs_context
  db_exec :: racs_exec

record racs_connection_context =
  cc_db :: racs_db
  cc_slaves :: "racs_slave_connection list"

text \<open>The input and output buffers of the connection to a client.\<close>

record bufferevent =
  ev_in :: bytes
  ev_out :: bytes

record libmsgpack =
  msgpack_encode :: "sbuffer \<Rightarrow> bytes"
  msgpack_frames :: "bytes \<Rightarrow> bytes list"

section \<open>The database\<close>

definition racs_db_open :: "config \<Rightarrow> nat \<Rightarrow> int \<Rightarrow> int \<Rightarrow> store \<Rightarrow> racs_wal \<Rightarrow> md_files \<Rightarrow> racs_db option" where
  "racs_db_open cf entries tables table_entries st wal md =
     do { ctx \<leftarrow> racs_context_init cf entries tables table_entries st wal md;
          exec \<leftarrow> racs_exec_init;
          Some \<lparr>db_ctx = ctx, db_exec = exec\<rparr> }"

text \<open>A result is the bytes of the packed replies.\<close>

definition racs_db_exec :: "libmsgpack \<Rightarrow> env \<Rightarrow> racs_db \<Rightarrow> string \<Rightarrow> (bytes \<times> racs_db) option" where
  "racs_db_exec lib env db cmd =
     do { (out_buf, ctx) \<leftarrow> racs_exec_exec (db_exec db) env (db_ctx db) cmd;
          Some (msgpack_encode lib out_buf, db\<lparr>db_ctx := ctx\<rparr>) }"

definition racs_db_stream_batch :: "libmsgpack \<Rightarrow> env \<Rightarrow> racs_db \<Rightarrow> bytes \<Rightarrow> (bytes \<times> racs_db) option" where
  "racs_db_stream_batch lib env db data =
     do { (out_buf, ctx) \<leftarrow> racs_exec_stream (msgpack_frames lib) env (db_ctx db) data;
          Some (msgpack_encode lib out_buf, db\<lparr>db_ctx := ctx\<rparr>) }"

section \<open>Messages\<close>

text \<open>The length of the first message, or 0 if it is not complete. The sum is of 64 bits.\<close>

definition racs_length_prefix :: "bytes \<Rightarrow> racs_uint64" where
  "racs_length_prefix inp =
     (if length inp < 8 then 0
      else let len = of_le_bytes (take 8 inp) in if of_nat (length inp) < 8 + len then 0 else len)"

fun racs_broadcast_to_slaves :: "racs_slave_connection list \<Rightarrow> bytes \<Rightarrow> racs_slave_connection list option" where
  "racs_broadcast_to_slaves [] buf = Some []"
| "racs_broadcast_to_slaves (s # slaves) buf =
     do { s \<leftarrow> (if \<not> sl_connected s then Some s
                else do { out \<leftarrow> sl_out s; Some (s\<lparr>sl_out := Some (out @ buf)\<rparr>) });
          slaves \<leftarrow> racs_broadcast_to_slaves slaves buf;
          Some (s # slaves) }"

definition racs_handle_slaves :: "bytes \<Rightarrow> racs_connection_context \<Rightarrow> nat \<Rightarrow> racs_connection_context option" where
  "racs_handle_slaves inp ctx len =
     do { slaves \<leftarrow> racs_broadcast_to_slaves (cc_slaves ctx) (take (8 + len) inp); Some (ctx\<lparr>cc_slaves := slaves\<rparr>) }"

text \<open>What the database makes of the body of a message, which is taken as a C string if it is not a frame.\<close>

definition db_message :: "libmsgpack \<Rightarrow> env \<Rightarrow> racs_db \<Rightarrow> bytes \<Rightarrow> (bytes \<times> racs_db) option" where
  "db_message lib env db buf =
     do { frame \<leftarrow> racs_is_frame buf;
          if frame then racs_db_stream_batch lib env db buf
          else do { cmd \<leftarrow> c_str buf 0; racs_db_exec lib env db cmd } }"

text \<open>
  A length for which \<open>8 + len\<close> wraps is taken as complete; the allocation of the body then fails, and the null
  pointer is used.
\<close>

definition racs_read_callback :: "libmsgpack \<Rightarrow> env \<Rightarrow> bufferevent \<Rightarrow> racs_connection_context
    \<Rightarrow> (bufferevent \<times> racs_connection_context) option" where
  "racs_read_callback lib env bev ctx =
     (let inp = ev_in bev; len = racs_length_prefix inp
      in if len = 0 then Some (bev, ctx)
         else if 2 ^ 64 \<le> 8 + unat len then None
         else do { ctx \<leftarrow> racs_handle_slaves inp ctx (unat len);
                   (res, db) \<leftarrow> db_message lib env (cc_db ctx) (take (unat len) (drop 8 inp));
                   Some (\<lparr>ev_in = drop (unat len) (drop 8 inp),
                          ev_out = ev_out bev @ le_bytes 8 (of_nat (length res) :: racs_uint64) @ res\<rparr>,
                         ctx\<lparr>cc_db := db\<rparr>) })"

section \<open>Slaves\<close>

definition RACS_MAX_SLAVES :: nat where "RACS_MAX_SLAVES = 5"

text \<open>
  The addresses of the slaves: every slave gets the first entry of the configuration. When there are too many,
  the number of slaves stays uninitialised. \<open>connects\<close> says which connections can be initiated.
\<close>

definition racs_slaves_init_addrs :: "(string \<times> int) list \<Rightarrow> (string \<times> racs_uint16) list option" where
  "racs_slaves_init_addrs config =
     (if RACS_MAX_SLAVES < length config then None
      else Some (map (\<lambda>i. (fst (hd config), word_of_int (snd (hd config)))) [0..<length config]))"

definition racs_slaves_init_sockets :: "(nat \<Rightarrow> bool) \<Rightarrow> (string \<times> racs_uint16) list \<Rightarrow> racs_slave_connection list" where
  "racs_slaves_init_sockets connects addrs =
     map (\<lambda>(i, host, port). \<lparr>sl_host = host, sl_port = port, sl_connected = connects i,
            sl_out = (if connects i then Some [] else None)\<rparr>)
       (zip [0..<length addrs] addrs)"

lemma slaves_same_address:
  "racs_slaves_init_addrs ((host, port) # config) = Some addrs \<Longrightarrow> addrs = replicate (Suc (length config)) (host, word_of_int port)"
  by (auto simp: racs_slaves_init_addrs_def map_replicate_const simp del: upt_Suc split: if_splits)

section \<open>Framing\<close>

text \<open>The bytes of a message.\<close>

definition message :: "bytes \<Rightarrow> bytes" where
  "message body = le_bytes 8 (of_nat (length body) :: racs_uint64) @ body"

text \<open>Bytes arrive in pieces; after each the callback runs.\<close>

fun deliver :: "libmsgpack \<Rightarrow> env \<Rightarrow> bytes list \<Rightarrow> bufferevent \<Rightarrow> racs_connection_context
    \<Rightarrow> (bufferevent \<times> racs_connection_context) option" where
  "deliver lib env [] bev ctx = Some (bev, ctx)"
| "deliver lib env (piece # pieces) bev ctx =
     do { (bev, ctx) \<leftarrow> racs_read_callback lib env (bev\<lparr>ev_in := ev_in bev @ piece\<rparr>) ctx; deliver lib env pieces bev ctx }"

lemma size_word: "n < 2 ^ 64 \<Longrightarrow> unat (of_nat n :: racs_uint64) = n"
  by (simp add: unsigned_of_nat take_bit_nat_eq_self)

lemma length_prefix_complete:
  assumes "length body + length rest < 2 ^ 63"
  shows "racs_length_prefix (message body @ rest) = of_nat (length body)"
proof -
  have "unat (of_nat (8 + length body + length rest) :: racs_uint64) = 8 + length body + length rest"
    "unat (of_nat (8 + length body) :: racs_uint64) = 8 + length body"
    using assms by (simp_all add: size_word del: of_nat_add)
  then have "\<not> (of_nat (8 + length body + length rest) :: racs_uint64) < of_nat (8 + length body)"
    by (simp add: word_less_nat_alt del: of_nat_add)
  then show ?thesis by (simp add: racs_length_prefix_def message_def Let_def add.assoc)
qed

lemma length_prefix_partial:
  assumes "length body < 2 ^ 63" "message body = part @ missing" "missing \<noteq> []"
  shows "racs_length_prefix part = 0"
proof (cases "length part < 8")
  case False
  have "length part + length missing = 8 + length body" using arg_cong [OF assms(2), of length] by (simp add: message_def)
  then have less: "length part < 8 + length body" using assms(3) by (cases missing) auto
  have "take 8 (message body) = take 8 part" using assms(2) False by simp
  then have len: "of_le_bytes (take 8 part) = (of_nat (length body) :: racs_uint64)" using of_le_bytes_le_bytes [of 8 "of_nat (length body) :: racs_uint64"] by (simp add: message_def)
  have "unat (of_nat (length part) :: racs_uint64) = length part"
    "unat (of_nat (8 + length body) :: racs_uint64) = 8 + length body"
    using assms(1) less by (simp_all add: size_word del: of_nat_add)
  then have "(of_nat (length part) :: racs_uint64) < of_nat (8 + length body)"
    using less by (simp add: word_less_nat_alt del: of_nat_add)
  then show ?thesis by (simp add: racs_length_prefix_def Let_def len)
qed (simp add: racs_length_prefix_def)

lemma callback_waits: "racs_length_prefix (ev_in bev) = 0 \<Longrightarrow> racs_read_callback lib env bev ctx = Some (bev, ctx)"
  by (simp add: racs_read_callback_def)

text \<open>The slaves after a message: the connected ones have it as it came.\<close>

definition slaves_live :: "racs_connection_context \<Rightarrow> bool" where
  "slaves_live ctx \<longleftrightarrow> (\<forall>s\<in>set (cc_slaves ctx). sl_connected s \<longrightarrow> sl_out s \<noteq> None)"

definition forwarded :: "bytes \<Rightarrow> racs_connection_context \<Rightarrow> racs_connection_context" where
  "forwarded body ctx = ctx\<lparr>cc_slaves := map (\<lambda>s. if sl_connected s
     then s\<lparr>sl_out := map_option (\<lambda>out. out @ message body) (sl_out s)\<rparr> else s) (cc_slaves ctx)\<rparr>"

lemma broadcast_eq:
  "racs_broadcast_to_slaves slaves buf =
     (if \<forall>s\<in>set slaves. sl_connected s \<longrightarrow> sl_out s \<noteq> None
      then Some (map (\<lambda>s. if sl_connected s then s\<lparr>sl_out := map_option (\<lambda>out. out @ buf) (sl_out s)\<rparr> else s) slaves)
      else None)"
  by (induction slaves) auto

lemma handle_slaves_message:
  "racs_handle_slaves (message body @ rest) ctx (length body) = (if slaves_live ctx then Some (forwarded body ctx) else None)"
proof -
  have m: "take (8 + length body) (message body @ rest) = message body" by (simp add: message_def)
  show ?thesis unfolding racs_handle_slaves_def m by (auto simp: broadcast_eq slaves_live_def forwarded_def)
qed

lemma callback_message:
  assumes "length body + length rest < 2 ^ 63" "body \<noteq> []"
  shows "racs_read_callback lib env \<lparr>ev_in = message body @ rest, ev_out = out\<rparr> ctx =
    (if slaves_live ctx
     then map_option (\<lambda>(res, db). (\<lparr>ev_in = rest, ev_out = out @ message res\<rparr>, (forwarded body ctx)\<lparr>cc_db := db\<rparr>))
       (db_message lib env (cc_db ctx) body)
     else None)"
proof -
  have n: "unat (of_nat (length body) :: racs_uint64) = length body" using assms(1) by (simp add: size_word)
  then have nz: "(of_nat (length body) :: racs_uint64) \<noteq> 0" using assms(2) by (metis length_0_conv unat_0)
  have m: "drop 8 (message body @ rest) = body @ rest" by (simp add: message_def)
  have big: "\<not> 2 ^ 64 \<le> 8 + length body" using assms(1) by simp
  have cc: "cc_db (forwarded body ctx) = cc_db ctx" by (simp add: forwarded_def)
  show ?thesis
    unfolding racs_read_callback_def Let_def bufferevent.select_convs length_prefix_complete [OF assms(1)] n m handle_slaves_message
    using nz big
    by (cases "db_message lib env (cc_db ctx) body") (auto simp: cc m message_def)
qed

lemma db_message_command:
  "3 \<le> length body \<Longrightarrow> take 3 body \<noteq> [0x72, 0x73, 0x70] \<Longrightarrow> c_str body 0 = Some cmd \<Longrightarrow>
   db_message lib env db body = racs_db_exec lib env db cmd"
  by (simp add: db_message_def racs_is_frame_def read_bin_def slice_def)

lemma callback_command:
  assumes "length body + length rest < 2 ^ 63" "3 \<le> length body" "take 3 body \<noteq> [0x72, 0x73, 0x70]" "c_str body 0 = Some cmd"
  shows "racs_read_callback lib env \<lparr>ev_in = message body @ rest, ev_out = out\<rparr> ctx =
    (if slaves_live ctx
     then map_option (\<lambda>(res, db). (\<lparr>ev_in = rest, ev_out = out @ message res\<rparr>, (forwarded body ctx)\<lparr>cc_db := db\<rparr>))
       (racs_db_exec lib env (cc_db ctx) cmd)
     else None)"
proof -
  have "body \<noteq> []" using assms(2) by auto
  then show ?thesis using callback_message [OF assms(1)] by (simp add: db_message_command [OF assms(2-4)])
qed

text \<open>How a message is cut does not matter.\<close>

lemma deliver_pieces:
  assumes "length body < 2 ^ 63"
  shows "part @ concat pieces = message body \<Longrightarrow> pieces \<noteq> [] \<Longrightarrow> [] \<notin> set pieces \<Longrightarrow>
    deliver lib env pieces \<lparr>ev_in = part, ev_out = out\<rparr> ctx =
      racs_read_callback lib env \<lparr>ev_in = message body, ev_out = out\<rparr> ctx"
proof (induction pieces arbitrary: part)
  case (Cons piece pieces)
  show ?case
  proof (cases pieces)
    case Nil
    then show ?thesis using Cons.prems(1) by (cases "racs_read_callback lib env \<lparr>ev_in = message body, ev_out = out\<rparr> ctx") auto
  next
    case (Cons q qs)
    then have "concat pieces \<noteq> []" using Cons.prems(3) by auto
    then have "racs_length_prefix (part @ piece) = 0"
      using length_prefix_partial [OF assms, of "part @ piece" "concat pieces"] Cons.prems(1) by simp
    then show ?thesis
      using Cons.IH [of "part @ piece"] Cons.prems Cons by (simp add: callback_waits)
  qed
qed simp

text \<open>One call answers one message; the next waits for more bytes to arrive.\<close>

lemma one_message_per_event:
  assumes "length body + length rest < 2 ^ 63" "3 \<le> length body" "take 3 body \<noteq> [0x72, 0x73, 0x70]" "c_str body 0 = Some cmd"
    "racs_db_exec lib env (cc_db ctx) cmd = Some (res, db)" "slaves_live ctx"
  shows "deliver lib env [message body @ rest] \<lparr>ev_in = [], ev_out = out\<rparr> ctx =
    Some (\<lparr>ev_in = rest, ev_out = out @ message res\<rparr>, (forwarded body ctx)\<lparr>cc_db := db\<rparr>)"
  by (simp add: callback_command [OF assms(1-4)] assms(5,6))

section \<open>Properties\<close>

text \<open>
  A message of length 0 blocks its connection. Its length is the one that stands for an incomplete message,
  so nothing is consumed: whatever arrives afterwards, in whatever pieces, is never answered or forwarded.
\<close>

theorem zero_length_blocks:
  "deliver lib env pieces \<lparr>ev_in = replicate 8 0 @ rest, ev_out = out\<rparr> ctx =
    Some (\<lparr>ev_in = replicate 8 0 @ rest @ concat pieces, ev_out = out\<rparr>, ctx)"
proof (induction pieces arbitrary: rest)
  case (Cons piece pieces)
  have "of_le_bytes (replicate 8 (0 :: racs_uint8)) = (0 :: racs_uint64)" by (simp add: eval_nat_numeral)
  then have "racs_length_prefix (replicate 8 0 @ rest @ piece) = 0" by (simp add: racs_length_prefix_def)
  then show ?case using Cons.IH [of "rest @ piece"] by (simp add: callback_waits)
qed simp

end
