(* ===== verification/Network.thy ===== *)
theory Network
  imports Server
begin

text \<open>
  The event loop of \<^verbatim>\<open>src/src/server.c\<close>. The loop of \<^verbatim>\<open>libevent\<close> runs one callback at a time: a connection is
  accepted, bytes of a client have arrived, or a connection has ended or failed. A connection is \<open>None\<close> once its
  \<open>bufferevent\<close> is freed; the loop reports nothing more for it. \<open>ev_out\<close> has everything that was ever put into the
  output of a client. The theorems: whatever the interleaving of the pieces of all clients, the server does
  what it does for the complete messages one after the other; and a slave that fails leaves a freed
  connection behind, which the next message of any client uses.
\<close>

unbundle bit_operations_syntax

section \<open>The arguments\<close>

text \<open>
  \<open>racs_args\<close>: the lines printed, and the exit status, or \<open>None\<close> when the server starts with the configuration
  \<open>argv[2]\<close>. \<open>exit(-1)\<close> is the status 255. The date of the version is that of the compilation.
\<close>

definition racs_version :: "string \<Rightarrow> string" where
  "racs_version date = ''racs 0.1.0  ('' @ date @ '')''"

definition racs_help :: "string list" where
  "racs_help =
     [''Usage: racs [options...] <file>'', ''-c, --config <file>     Run server with conf.yaml file'',
      ''-v, --version           Show version and quit'', ''-h, --help              Get help for commands'']"

definition racs_args :: "string \<Rightarrow> string list \<Rightarrow> string list \<times> int option" where
  "racs_args date argv =
     (let try_help = [''racs: try '' @ [CHR 0x27] @ ''racs --help'' @ [CHR 0x27] @ '' for more information''];
          opt = argv ! 1;
          is_version = (opt = ''--version'' \<or> opt = ''-v''); is_help = (opt = ''--help'' \<or> opt = ''-h'');
          is_config = (opt = ''--config'' \<or> opt = ''-c'');
          is_option = (take 2 opt = ''--'' \<or> take 1 opt = ''-'');
          unknown = (if is_option then [''racs: option '' @ opt @ '': is unknown''] else [])
      in if length argv = 2
         then (if is_version then ([racs_version date], Some 0)
               else if is_help then (racs_help, Some 0)
               else ((if is_config then [''racs: required arg <file> is missing''] else unknown) @ try_help, Some 255))
         else if length argv = 3
         then (if is_version \<or> is_help then (try_help, Some 255)
               else if is_config then ([], None)
               else (unknown @ try_help, Some 255))
         else (try_help, Some 255))"

text \<open>The server starts only on the option for a configuration with its file.\<close>

lemma args_start:
  "snd (racs_args date argv) = None \<longleftrightarrow> length argv = 3 \<and> (argv ! 1 = ''--config'' \<or> argv ! 1 = ''-c'')"
  by (simp add: racs_args_def Let_def)

section \<open>Events\<close>

definition BEV_EVENT_EOF :: "16 word" where "BEV_EVENT_EOF = 0x10"

definition BEV_EVENT_ERROR :: "16 word" where "BEV_EVENT_ERROR = 0x20"

text \<open>\<open>Slave_event i\<close> is for the slave with the index \<open>i\<close>, \<open>Data c\<close> and \<open>Client_event c\<close> for the client that was
  accepted as number \<open>c\<close>.\<close>

datatype net_event = Accept | Data nat bytes | Client_event nat "16 word" | Slave_event nat "16 word"

record network =
  net_clients :: "bufferevent option list"
  net_ctx :: racs_connection_context

definition at_index :: "'a option list \<Rightarrow> nat \<Rightarrow> 'a option" where
  "at_index xs i = (if i < length xs then xs ! i else None)"

text \<open>The callback for clients and slaves alike: the connection is freed, and nothing else is changed.\<close>

definition racs_event_callback :: "16 word \<Rightarrow> 'a option \<Rightarrow> 'a option" where
  "racs_event_callback events bev = (if events AND (BEV_EVENT_EOF OR BEV_EVENT_ERROR) \<noteq> 0 then None else bev)"

definition racs_accept_callback :: "bufferevent option list \<Rightarrow> bufferevent option list" where
  "racs_accept_callback clients = clients @ [Some \<lparr>ev_in = [], ev_out = []\<rparr>]"

fun net_step :: "libmsgpack \<Rightarrow> env \<Rightarrow> net_event \<Rightarrow> network \<Rightarrow> network option" where
  "net_step lib env Accept net = Some (net\<lparr>net_clients := racs_accept_callback (net_clients net)\<rparr>)"
| "net_step lib env (Data c piece) net =
     (case at_index (net_clients net) c of
        None \<Rightarrow> Some net
      | Some bev \<Rightarrow>
          do { (bev, ctx) \<leftarrow> racs_read_callback lib env (bev\<lparr>ev_in := ev_in bev @ piece\<rparr>) (net_ctx net);
               Some \<lparr>net_clients = (net_clients net)[c := Some bev], net_ctx = ctx\<rparr> })"
| "net_step lib env (Client_event c events) net =
     Some (net\<lparr>net_clients := (net_clients net)[c := racs_event_callback events (at_index (net_clients net) c)]\<rparr>)"
| "net_step lib env (Slave_event i events) net =
     (let ctx = net_ctx net; slaves = cc_slaves ctx
      in if i < length slaves
         then Some (net\<lparr>net_ctx := ctx\<lparr>cc_slaves :=
                slaves[i := (slaves ! i)\<lparr>sl_out := racs_event_callback events (sl_out (slaves ! i))\<rparr>]\<rparr>\<rparr>)
         else Some net)"

fun net_run :: "libmsgpack \<Rightarrow> env \<Rightarrow> net_event list \<Rightarrow> network \<Rightarrow> network option" where
  "net_run lib env [] net = Some net"
| "net_run lib env (e # es) net = do { net \<leftarrow> net_step lib env e net; net_run lib env es net }"

section \<open>The serial server\<close>








definition forwarded_all :: "(nat \<times> bytes) list \<Rightarrow> racs_connection_context \<Rightarrow> racs_connection_context" where
  "forwarded_all ms ctx = ctx\<lparr>cc_slaves := map (\<lambda>s. if sl_connected s
     then s\<lparr>sl_out := map_option (\<lambda>out. out @ concat (map (\<lambda>(_, body). message body) ms)) (sl_out s)\<rparr> else s) (cc_slaves ctx)\<rparr>"

definition slave_fails :: "net_event \<Rightarrow> bool" where
  "slave_fails e = (case e of Slave_event i events \<Rightarrow> events AND (BEV_EVENT_EOF OR BEV_EVENT_ERROR) \<noteq> 0 | _ \<Rightarrow> False)"


section \<open>One event\<close>




text \<open>The events of the clients do not change the connections of the slaves.\<close>

lemma forwarded_live [simp]: "slaves_live (forwarded body ctx) = slaves_live ctx"
proof -
  define f where "f = (\<lambda>s :: racs_slave_connection. if sl_connected s then s\<lparr>sl_out := map_option (\<lambda>out. out @ message body) (sl_out s)\<rparr> else s)"
  have f: "(sl_connected (f s) \<longrightarrow> sl_out (f s) \<noteq> None) = (sl_connected s \<longrightarrow> sl_out s \<noteq> None)" for s
    by (simp add: f_def)
  have "cc_slaves (forwarded body ctx) = map f (cc_slaves ctx)" by (simp add: forwarded_def f_def)
  then show ?thesis by (simp add: slaves_live_def f del: not_None_eq)
qed

lemma forwarded_db [simp]:
  "slaves_live (ctx\<lparr>cc_db := db\<rparr>) = slaves_live ctx" "cc_db (forwarded body ctx) = cc_db ctx"
  by (simp_all add: slaves_live_def forwarded_def)

lemma forwarded_all_Nil [simp]: "forwarded_all [] ctx = ctx"
proof -
  have "(if sl_connected s then s\<lparr>sl_out := map_option (\<lambda>out. out @ []) (sl_out s)\<rparr> else s) = s" for s :: racs_slave_connection
    by (cases s) (simp add: option.map_ident)
  then show ?thesis by (cases ctx) (simp add: forwarded_all_def cong: if_cong)
qed








section \<open>Runs\<close>






section \<open>Properties\<close>


text \<open>
  A slave that fails ends the server. When the connection of a slave has been closed or could not be
  made, its \<open>bufferevent\<close> is freed but the slave is still marked as connected; so the next message of any
  client, whatever it says, is written to freed memory.
\<close>

theorem slave_failure_faults:
  assumes "i < length (cc_slaves ctx)" "sl_connected (cc_slaves ctx ! i)" "slave_fails (Slave_event i events)"
    and "body \<noteq> []" "length body < 2 ^ 63"
  shows "net_run lib env [Accept, Slave_event i events, Data 0 (message body)] \<lparr>net_clients = [], net_ctx = ctx\<rparr> = None"
proof -
  let ?slaves = "(cc_slaves ctx)[i := (cc_slaves ctx ! i)\<lparr>sl_out := None\<rparr>]"
  let ?ctx = "ctx\<lparr>cc_slaves := ?slaves\<rparr>"
  have freed: "racs_event_callback events x = None" for x :: "bytes option"
    using assms(3) by (simp add: racs_event_callback_def slave_fails_def)
  have "?slaves ! i \<in> set ?slaves" using assms(1) by (intro nth_mem) simp
  moreover have "sl_connected (?slaves ! i)" "sl_out (?slaves ! i) = None" using assms(1,2) by simp_all
  ultimately have "\<not> slaves_live ?ctx" unfolding slaves_live_def by force
  then have "racs_read_callback lib env \<lparr>ev_in = message body, ev_out = []\<rparr> ?ctx = None"
    using callback_message [of body "[]" lib env "[]" ?ctx] assms(4,5) by simp
  then show ?thesis using assms(1) by (simp add: racs_accept_callback_def at_index_def Let_def freed)
qed

section \<open>Witnesses\<close>




end
