(* ===== verification/Readback.thy ===== *)
theory Readback
  imports Range
begin

text \<open>
  Streaming and reading together: the samples that a client has streamed in frames
  (\<^verbatim>\<open>src/src/stream.c\<close>, \<^verbatim>\<open>src/src/memtable.c\<close>) are what a range of the stream
  (\<^verbatim>\<open>src/src/range.c\<close>) returns, behind what it returned before. The theory joins \<open>Stream\<close> and
  \<open>Range\<close>: an append puts its block behind the others of the table in memory, under the time of its
  position, and the range scans that table last.
\<close>

section \<open>The table in memory\<close>

lemma multi_append_room:
  assumes inv: "mm_inv capacity lg fl st" and cap: "cap_ok capacity" and mem: "mem_entries st es"
    and room: "int (length es) < capacity"
    and app: "racs_multi_memtable_append key block block_size checksum flags lsn st = Some st'"
  shows "mem_entries st' (es @ [mk_entry key block block_size checksum flags lsn])"
proof -
  have len: "unat block_size \<le> length block" by (rule multi_append_SomeD [OF app])
  from mem inv obtain h m where h: "mmt_head (st_mmt st) = Some h" "st_heap st h = Some m" "mt_next m = None"
    "mt_entries m = es" "\<forall>e\<in>set es. entry_wf e" "mt_capacity m = word_of_int capacity"
    by (auto simp: mem_entries_def mm_inv_def)
  have "append_begin st = Some (None, st)" using h room cap by (simp add: append_begin_def cap_uint)
  then have "racs_memtable_append h key block block_size checksum flags lsn st = Some st'"
    using app h(1) by (simp add: racs_multi_memtable_append_def append_end_def)
  then have "st' = st\<lparr>st_heap := (st_heap st)
      (h \<mapsto> m\<lparr>mt_entries := es @ [mk_entry key block block_size checksum flags lsn]\<rparr>)\<rparr>"
    using memtable_append_eq [of st h m block_size block key checksum flags lsn] h len room cap
    by (simp add: cap_unat)
  then show ?thesis using h entry_wf_mk [OF len] by (auto simp: mem_entries_def)
qed

section \<open>One frame\<close>

text \<open>A block of samples that is not compressed, in a frame of the stream and the session.\<close>

definition stream_block :: "racs_uint64 \<Rightarrow> bytes \<Rightarrow> racs_frame_header \<times> bytes \<Rightarrow> bool" where
  "stream_block sid ses b \<longleftrightarrow>
     (case b of (h, pcm) \<Rightarrow> frame_wf h \<and> stream_id h = sid \<and> session_id h = ses \<and> frm_flags h = 0 \<and>
        length pcm = unat (frm_block_size h) \<and> frm_checksum h = crc32c_of pcm)"

lemma append_step:
  assumes inv: "sv_inv cf capacity (Suc n) sv" and b: "stream_block sid ses (h, pcm)"
    and ses: "session_of (sv_kv sv) sid \<in> {Some (replicate 16 0), Some ses}"
    and md: "racs_metadata_get (cf_dir cf) (sv_md sv) sid = Some (Some m)"
    and ts: "racs_metadata_timestamp m (offset_of (sv_offsets sv) sid) = Some t"
    and mem: "mem_entries (sv_store sv) es" and room: "int (length es) < capacity"
  shows "\<exists>sv' e. racs_stream_append cf z (frame_bytes h pcm) sv = Some (RACS_STREAM_OK, sv') \<and>
    sv_inv cf capacity n sv' \<and> sv_md sv' = sv_md sv \<and> session_of (sv_kv sv') sid = Some ses \<and>
    offset_of (sv_offsets sv') sid = offset_of (sv_offsets sv) sid + of_nat (length pcm) \<and>
    mem_entries (sv_store sv') (es @ [e]) \<and> e_key e = (sid, t) \<and> e_flags e = 0 \<and> e_block e = pcm"
proof -
  have h: "frame_wf h" "stream_id h = sid" "session_id h = ses" "frm_flags h = 0"
    "length pcm = unat (frm_block_size h)" "frm_checksum h = crc32c_of pcm"
    using b by (auto simp: stream_block_def)
  have st: "append_status cf sv h pcm (Some m) = RACS_STREAM_OK"
    using ses h by (auto simp: append_status_def)
  have size: "(ucast (frm_block_size h) :: racs_uint64) = of_nat (length pcm)" by (simp add: h(5))
  obtain sv' where sv': "racs_stream_append cf z (frame_bytes h pcm) sv = Some (RACS_STREAM_OK, sv')"
    "sv_inv cf capacity n sv'" "sv_md sv' = sv_md sv" "session_of (sv_kv sv') sid = Some ses"
    "offset_of (sv_offsets sv') sid = offset_of (sv_offsets sv) sid + of_nat (length pcm)"
    using append_accepted [OF inv h(1,5) _ _ st, of t z "[]"] md ts h(2,3,4) size
    by (auto simp: block_advance_def)
  obtain lg fl where mm: "mm_inv capacity lg fl (sv_store sv)" and off: "offsets_inv (sv_offsets sv)" and cap: "cap_ok capacity"
    using inv by (auto simp: sv_inv_def)
  have f: "racs_frame_parse (frame_bytes h pcm) = Some (True, \<lparr>header = h, pcm_block = pcm\<rparr>)"
    using frame_parse_bytes [OF h(1,5), of "[]"] h(6) by simp
  obtain dir lsn where "racs_multi_memtable_append (sid, t) pcm (frm_block_size h) (frm_checksum h) (frm_flags h) lsn
      ((sv_store sv)\<lparr>st_wal := dir\<rparr>) = Some (sv_store sv')"
    using sv'(1) f md ts h(2) offsets_get_eq [OF off, of sid]
    by (auto simp: racs_stream_append_def Let_def split: option.splits if_splits prod.splits elim!: bind_eq_SomeE)
  moreover have "mm_inv capacity lg fl ((sv_store sv)\<lparr>st_wal := dir\<rparr>)" "mem_entries ((sv_store sv)\<lparr>st_wal := dir\<rparr>) es"
    using mm mem by (auto simp: mem_entries_def)
  ultimately have "mem_entries (sv_store sv') (es @ [mk_entry (sid, t) pcm (frm_block_size h) (frm_checksum h) (frm_flags h) lsn])"
    using multi_append_room cap room by blast
  with sv' h(4,5) show ?thesis
    by (intro exI [of _ sv'] exI [of _ "mk_entry (sid, t) pcm (frm_block_size h) (frm_checksum h) (frm_flags h) lsn"])
      (simp add: mk_entry_def)
qed

section \<open>A sequence of frames\<close>

definition block_requests :: "(racs_frame_header \<times> bytes) list \<Rightarrow> request list" where
  "block_requests blocks = map (\<lambda>(h, pcm). Append (frame_bytes h pcm)) blocks"

definition total_bytes :: "(racs_frame_header \<times> bytes) list \<Rightarrow> nat" where
  "total_bytes blocks = (\<Sum>(h, pcm)\<leftarrow>blocks. length pcm)"

lemma block_lists [simp]:
  "block_requests [] = []" "block_requests ((h, pcm) # blocks) = Append (frame_bytes h pcm) # block_requests blocks"
  "total_bytes [] = 0" "total_bytes ((h, pcm) # blocks) = length pcm + total_bytes blocks"
  by (simp_all add: block_requests_def total_bytes_def)

lemma elapsed_nonneg: "0 \<le> elapsed_ms md offset"
proof -
  have "elapsed_ms md 0 = 0" by (simp add: elapsed_ms_def trunc_int_def)
  then show ?thesis using elapsed_mono [of 0 offset md] by simp
qed

lemma unat_plus_nat: "unat (a :: racs_uint64) + k < 2 ^ 64 \<Longrightarrow> unat (a + of_nat k) = unat a + k"
  by (simp add: unat_word_ariths unsigned_of_nat take_bit_nat_eq_self)

text \<open>
  The entries that a sequence of frames adds, when the first position is not before the start of the range
  and the end is not after its end.
\<close>

lemma append_blocks:
  assumes "sv_inv cf capacity (length blocks) sv" "\<forall>b\<in>set blocks. stream_block sid ses b"
    and "session_of (sv_kv sv) sid \<in> {Some (replicate 16 0), Some ses}"
    and "racs_metadata_get (cf_dir cf) (sv_md sv) sid = Some (Some m)" "byte_rate m \<noteq> 0" "0 \<le> sint (md_ref m)" "to < 2 ^ 62"
    and "unat (offset_of (sv_offsets sv) sid) + total_bytes blocks < 2 ^ 64"
    and "from \<le> elapsed_ms m (offset_of (sv_offsets sv) sid) + sint (md_ref m)"
    and "elapsed_ms m (offset_of (sv_offsets sv) sid + of_nat (total_bytes blocks)) + sint (md_ref m) \<le> to"
    and "mem_entries (sv_store sv) es" "int (length es + length blocks) \<le> capacity"
  shows "\<exists>sv' oks new. serve_all cf z (block_requests blocks) sv = Some (oks, sv') \<and>
    oks = map (\<lambda>r. (r, True)) (block_requests blocks) \<and> sv_md sv' = sv_md sv \<and> mem_entries (sv_store sv') (es @ new) \<and>
    samples_of z n sid from to new = concat (map (\<lambda>(h, pcm). whole n pcm) blocks)"
  using assms
proof (induction blocks arbitrary: sv es)
  case Nil
  then show ?case by (intro exI [of _ sv] exI [of _ "[]"]) simp
next
  case (Cons b blocks)
  obtain h pcm where b: "b = (h, pcm)" by (cases b)
  let ?off = "offset_of (sv_offsets sv) sid"
  let ?e = "elapsed_ms m" and ?r = "sint (md_ref m)"
  let ?next = "?off + of_nat (length pcm)" and ?last = "?off + of_nat (length pcm) + of_nat (total_bytes blocks)"
  have lt: "unat ?off + (length pcm + total_bytes blocks) < 2 ^ 64" using Cons.prems(8) by (simp add: b)
  have un: "unat ?next = unat ?off + length pcm" "unat ?last = unat ?off + length pcm + total_bytes blocks"
    using unat_plus_nat [of ?off "length pcm"] unat_plus_nat [of ?next "total_bytes blocks"] lt by auto
  have mono: "?e ?off \<le> ?e ?next" "?e ?next \<le> ?e ?last" using un by (auto intro: elapsed_mono)
  have last: "?e ?last + ?r \<le> to" using Cons.prems(10) by (simp add: b add.assoc)
  have "0 \<le> ?e ?off" by (rule elapsed_nonneg)
  then have "?e ?off < 2 ^ 62" "?r < 2 ^ 62" using mono last Cons.prems(6,7) by linarith+
  then obtain t where t: "racs_metadata_timestamp m ?off = Some t" "sint t = ?e ?off + ?r"
    using timestamp_elapsed [OF Cons.prems(5,6)] elapsed_nonneg by blast
  have inv: "sv_inv cf capacity (Suc (length blocks)) sv" "stream_block sid ses (h, pcm)" "int (length es) < capacity"
    using Cons.prems(1,2,12) b by auto
  obtain sv1 e where s: "racs_stream_append cf z (frame_bytes h pcm) sv = Some (RACS_STREAM_OK, sv1)"
    "sv_inv cf capacity (length blocks) sv1" "sv_md sv1 = sv_md sv" "session_of (sv_kv sv1) sid = Some ses"
    "offset_of (sv_offsets sv1) sid = ?next" "mem_entries (sv_store sv1) (es @ [e])"
    "e_key e = (sid, t)" "e_flags e = 0" "e_block e = pcm"
    using append_step [OF inv(1,2) Cons.prems(3,4) t(1) Cons.prems(11) inv(3), of z] by auto
  have "from \<le> ?e ?next + ?r" using mono(1) Cons.prems(9) by linarith
  then obtain sv' oks new where r: "serve_all cf z (block_requests blocks) sv1 = Some (oks, sv')"
    "oks = map (\<lambda>r. (r, True)) (block_requests blocks)" "sv_md sv' = sv_md sv1"
    "mem_entries (sv_store sv') ((es @ [e]) @ new)" "samples_of z n sid from to new = concat (map (\<lambda>(h, pcm). whole n pcm) blocks)"
    using Cons.IH [OF s(2) _ _ _ Cons.prems(5,6,7) _ _ _ s(6)] Cons.prems(2,4,12) s(3,4,5) un lt last by (auto simp: add.assoc)
  have "in_query sid from to e" using s(7) t(2) mono last Cons.prems(9) by (simp add: in_query_def)
  then have "samples_of z n sid from to (e # new) = whole n pcm @ samples_of z n sid from to new"
    using s(8,9) by (simp add: samples_of_def entry_samples_def)
  moreover have "serve_all cf z (block_requests (b # blocks)) sv = Some ((Append (frame_bytes h pcm), True) # oks, sv')"
    using r(1) s(1) by (simp add: b serve_def)
  moreover have "mem_entries (sv_store sv') (es @ e # new)" using r(4) by simp
  ultimately show ?case using r(2,3,5) s(3)
    by (intro exI [of _ sv'] exI [of _ "(Append (frame_bytes h pcm), True) # oks"] exI [of _ "e # new"]) (simp add: b)
qed

section \<open>Properties\<close>

text \<open>
  C5: What is streamed is read: an open session sends any number of frames of uncompressed samples to a
  stream, as many as the table in memory has room for. All are accepted, and a range that contains the times of
  their positions is defined and returns, behind the samples that it would have returned before, the whole
  samples of every block in the order in which they were sent.
\<close>

theorem stream_then_range:
  assumes "sv_inv cf capacity (length blocks) sv" "\<forall>b\<in>set blocks. stream_block (racs_hash name) ses b"
    and "session_of (sv_kv sv) (racs_hash name) \<in> {Some (replicate 16 0), Some ses}"
    and "mem_entries (sv_store sv) es" "int (length es + length blocks) \<le> capacity"
    and "racs_metadata_get (cf_dir cf) (sv_md sv) (racs_hash name) = Some (Some m)"
    and "md_channels m \<in> {1, 2}" "md_bit_depth m \<in> {16, 24}" "byte_rate m \<noteq> 0" "0 \<le> sint (md_ref m)"
    and "to_time (double (double (of_int (sint (md_ref m))) + double (start * 1000))) = Some from"
    and "to_time (double (double (of_int from) + double (duration * 1000))) = Some to"
    and "in_range from" "in_range to" "from \<le> to"
    and "unat (offset_of (sv_offsets sv) (racs_hash name)) + total_bytes blocks < 2 ^ 64"
    and "from \<le> elapsed_ms m (offset_of (sv_offsets sv) (racs_hash name)) + sint (md_ref m)"
    and "elapsed_ms m (offset_of (sv_offsets sv) (racs_hash name) + of_nat (total_bytes blocks)) + sint (md_ref m) \<le> to"
    and "cf_dir cf \<noteq> []" "hd (cf_dir cf) = CHR ''/''" "strstr (cf_dir cf) ''.racs/seg'' = None"
    and "segments_ok (cf_dir cf) tabs file_at" "segment_dirs (cf_dir cf) tabs tmps opendir" "cache_good tabs c" "zstd_bounded z"
  shows "\<exists>sv' pcm1 c1 pcm2 c2.
    racs_range z (cf_dir cf) opendir file_at (sv_md sv) (sv_store sv) name start duration (pcm, c) = Some (True, pcm1, c1) \<and>
    serve_all cf z (block_requests blocks) sv = Some (map (\<lambda>r. (r, True)) (block_requests blocks), sv') \<and>
    racs_range z (cf_dir cf) opendir file_at (sv_md sv') (sv_store sv') name start duration (pcm, c1) = Some (True, pcm2, c2) \<and>
    ms_data (pcm_out pcm2) =
      ms_data (pcm_out pcm1) @ concat (map (\<lambda>(h, d). whole (unat (md_channels m) * unat (md_bit_depth m) div 8) d) blocks)"
proof -
  have big: "to < 2 ^ 62" using assms(14) by (simp add: in_range_def time_limit_def)
  obtain sv' new where s: "serve_all cf z (block_requests blocks) sv = Some (map (\<lambda>r. (r, True)) (block_requests blocks), sv')"
    "sv_md sv' = sv_md sv" "mem_entries (sv_store sv') (es @ new)"
    "samples_of z (unat (md_channels m) * unat (md_bit_depth m) div 8) (racs_hash name) from to new =
      concat (map (\<lambda>(h, d). whole (unat (md_channels m) * unat (md_bit_depth m) div 8) d) blocks)"
    using append_blocks [OF assms(1-3,6,9,10) big assms(16-18,4,5)] by blast
  note rd = range_ext [OF assms(6-8,11-15,19-23)]
  obtain pcm1 c1 where r1: "racs_range z (cf_dir cf) opendir file_at (sv_md sv) (sv_store sv) name start duration (pcm, c) =
      Some (True, pcm1, c1)" "cache_good tabs c1" "ms_data (pcm_out pcm1) = replicate 8 0 @
        samples_of z (unat (md_channels m) * unat (md_bit_depth m) div 8) (racs_hash name) from to (covered from to tabs @ es)"
    using rd [OF assms(4,24,25), of pcm] by (auto simp: pcm_ext_def)
  obtain pcm2 c2 where r2: "racs_range z (cf_dir cf) opendir file_at (sv_md sv) (sv_store sv') name start duration (pcm, c1) =
      Some (True, pcm2, c2)" "ms_data (pcm_out pcm2) = replicate 8 0 @
        samples_of z (unat (md_channels m) * unat (md_bit_depth m) div 8) (racs_hash name) from to (covered from to tabs @ es @ new)"
    using rd [OF s(3) r1(2) assms(25), of pcm] by (auto simp: pcm_ext_def)
  show ?thesis using s r1 r2 by (metis append.assoc samples_of_simps(2))
qed

section \<open>An example\<close>

lemma create_no_entries:
  assumes "server_create tables entries cache_entries files = Some sv" "1 \<le> tables" "cap_ok entries"
  shows "mem_entries (sv_store sv) []"
proof -
  obtain w st where "racs_multi_memtable_create tables entries (empty_store w) = Some st" "sv_store sv = st"
    using assms(1) by (auto simp: server_create_def elim!: bind_eq_SomeE split: prod.splits)
  then have "mm_inv entries [] [] (sv_store sv)"
    using mm_inv_create [of "empty_store w" tables entries st] assms(2,3) by (simp add: empty_store_def)
  then show ?thesis by (auto simp: mm_inv_def mem_entries_def)
qed

definition example_block_of :: "bytes \<Rightarrow> racs_frame_header \<times> bytes" where
  "example_block_of pcm = (\<lparr>chunk_id = [0x72, 0x73, 0x70], session_id = replicate 16 9, stream_id = racs_hash ''abc'',
     frm_checksum = crc32c_of pcm, frm_block_size = of_nat (length pcm), frm_flags = 0\<rparr>, pcm)"

lemma example_block_ok:
  "length pcm < 65536 \<Longrightarrow> stream_block (racs_hash ''abc'') (replicate 16 9) (example_block_of pcm)"
  by (simp add: stream_block_def example_block_of_def frame_wf_def unsigned_of_nat take_bit_nat_eq_self)

definition abc_files :: md_files where
  "abc_files = [(racs_metadata_path ''/d'' (racs_hash ''abc'') False, md_bytes example_md)]"

theorem stream_then_range_witness:
  "\<exists>sv kv sv' pcm1 c1 pcm2 c2.
    server_create 1 4 8 abc_files = Some sv \<and> racs_stream_open (sv_kv sv) (racs_hash ''abc'') = Some (True, kv) \<and>
    racs_range (\<lambda>_. None) ''/d'' (flat_dir []) (\<lambda>_. None) abc_files (sv_store sv) ''abc'' 0 10
      (\<lparr>pcm_channels = 9, pcm_bit_depth = 9, pcm_sample_rate = 9, pcm_samples = 9, pcm_out = racs_memstream_init\<rparr>,
        racs_scache_create 2) = Some (True, pcm1, c1) \<and>
    serve_all example_cf (\<lambda>_. None) (block_requests [example_block_of [1, 2, 3, 4, 5, 6, 7, 8], example_block_of [9, 10, 11, 12]])
      (sv\<lparr>sv_kv := kv\<rparr>) = Some (map (\<lambda>r. (r, True))
        (block_requests [example_block_of [1, 2, 3, 4, 5, 6, 7, 8], example_block_of [9, 10, 11, 12]]), sv') \<and>
    racs_range (\<lambda>_. None) ''/d'' (flat_dir []) (\<lambda>_. None) (sv_md sv') (sv_store sv') ''abc'' 0 10
      (\<lparr>pcm_channels = 9, pcm_bit_depth = 9, pcm_sample_rate = 9, pcm_samples = 9, pcm_out = racs_memstream_init\<rparr>,
        c1) = Some (True, pcm2, c2) \<and>
    ms_data (pcm_out pcm2) = ms_data (pcm_out pcm1) @ [1, 2, 3, 4, 5, 6, 7, 8, 9, 10, 11, 12]"
proof -
  let ?blocks = "[example_block_of [1, 2, 3, 4, 5, 6, 7, 8], example_block_of [9, 10, 11, 12]]"
  let ?id = "racs_hash ''abc''"
  obtain sv where sv: "server_create 1 4 8 abc_files = Some sv" "sv_inv example_cf 4 2 sv"
    "session_of (sv_kv sv) = Map.empty" "offset_of (sv_offsets sv) = (\<lambda>_. 0)" "sv_md sv = abc_files"
    by (rule server_create_inv [of 1 4 8 example_cf 2 abc_files]) (simp_all add: cap_ok_def example_cf_def)
  have kvi: "kv_inv (sv_kv sv)" using sv(2) by (simp add: sv_inv_def)
  obtain kv where kv: "racs_streamkv_put (sv_kv sv) ?id (replicate 16 0) = Some kv" "kv_inv kv"
    "session_of kv = [?id \<mapsto> replicate 16 0]"
    using streamkv_put_eq [OF kvi, of "replicate 16 0" ?id] sv(3) by auto
  have opened: "racs_stream_open (sv_kv sv) ?id = Some (True, kv)"
    using kv sv(3) by (simp add: racs_stream_open_def streamkv_get_eq [OF kvi])
  let ?sv = "sv\<lparr>sv_kv := kv\<rparr>"
  have inv: "sv_inv example_cf 4 (length ?blocks) ?sv" using sv(2) kv(2) by (simp add: sv_inv_def numeral_2_eq_2)
  have mem: "mem_entries (sv_store ?sv) []" using create_no_entries [OF sv(1)] by (simp add: cap_ok_def)
  have blocks: "\<forall>b\<in>set ?blocks. stream_block ?id (replicate 16 9) b" by (simp add: example_block_ok)
  have total: "total_bytes ?blocks = 12" by (simp add: total_bytes_def example_block_of_def)
  have md: "racs_metadata_get (cf_dir example_cf) (sv_md ?sv) ?id = Some (Some example_md)"
    using metadata_read_eq [OF example_md_wf, of "[]"] sv(5) by (simp add: metadata_get_path abc_files_def example_cf_def)
  have fmt: "md_channels example_md \<in> {1, 2}" "md_bit_depth example_md \<in> {16, 24}" "byte_rate example_md \<noteq> 0" "0 \<le> sint (md_ref example_md)"
    by (simp_all add: example_md_def byte_rate_def)
  have t1: "to_time (double (double (of_int (sint (md_ref example_md))) + double (0 * 1000))) = Some 1000" by code_simp
  have t2: "to_time (double (double (of_int 1000) + double (10 * 1000))) = Some 11000" by code_simp
  have rate: "unat (byte_rate example_md) = 192000" by (simp add: byte_rate_def example_md_def)
  have "\<bar>elapsed_ms example_md 12\<bar> \<le> 1" using elapsed_accurate(1) [of 12 example_md] rate by simp
  then have late: "elapsed_ms example_md 12 + sint (md_ref example_md) \<le> 11000" by (simp add: example_md_def)
  have early: "1000 \<le> elapsed_ms example_md 0 + sint (md_ref example_md)" using elapsed_nonneg [of example_md 0] by (simp add: example_md_def)
  have r: "in_range 1000" "in_range 11000" "strstr ''/d'' ''.racs/seg'' = None" by (simp_all add: in_range_def time_limit_def)
  have segs: "segments_ok ''/d'' [] (\<lambda>_. None)" by (simp add: segments_ok_def)
  have dirs: "segment_dirs ''/d'' [] [] (flat_dir [])" by (simp add: segment_dirs_def flat_dir_def)
  have cache: "cache_good [] (racs_scache_create 2)"
    using cache_rep_create [of 2] by (auto simp: cache_good_def cached_ok_def racs_scache_create_def)
  have z: "zstd_bounded (\<lambda>_. None)" by (simp add: zstd_bounded_def)
  have whole: "concat (map (\<lambda>(h, d). whole (unat (md_channels example_md) * unat (md_bit_depth example_md) div 8) d) ?blocks) =
      [1, 2, 3, 4, 5, 6, 7, 8, 9, 10, 11, 12]"
    by (simp add: example_block_of_def whole_def example_md_def)
  have ses: "session_of (sv_kv ?sv) ?id \<in> {Some (replicate 16 0), Some (replicate 16 9)}" by (simp add: kv(3))
  have room: "int (length [] + length ?blocks) \<le> 4" "(1000 :: int) \<le> 11000" by simp_all
  have space: "unat (offset_of (sv_offsets ?sv) ?id) + total_bytes ?blocks < 2 ^ 64" by (simp add: sv(4) total)
  have "elapsed_ms example_md (offset_of (sv_offsets ?sv) ?id + of_nat (total_bytes ?blocks)) + sint (md_ref example_md) \<le> 11000"
    "1000 \<le> elapsed_ms example_md (offset_of (sv_offsets ?sv) ?id) + sint (md_ref example_md)"
    using late early by (simp_all add: sv(4) total)
  note times = this(2,1)
  have cf: "cf_dir example_cf = ''/d''" by (simp add: example_cf_def)
  then have dir: "cf_dir example_cf \<noteq> []" "hd (cf_dir example_cf) = CHR ''/''" "strstr (cf_dir example_cf) ''.racs/seg'' = None"
    using r(3) by simp_all
  note run = stream_then_range [OF inv blocks ses mem room(1) md fmt t1 t2 r(1,2) room(2) space times dir
      segs [folded cf] dirs [folded cf] cache z]
  from run [of "\<lparr>pcm_channels = 9, pcm_bit_depth = 9, pcm_sample_rate = 9, pcm_samples = 9, pcm_out = racs_memstream_init\<rparr>"]
  show ?thesis using sv(1,5) opened unfolding whole cf by auto
qed

end
