(* ===== verification/Crc32c_Big.thy ===== *)
theory Crc32c_Big
  imports Crc32c
begin

text \<open>
  CRC-32C on machines other than x86-64, \<^verbatim>\<open>src/src/crc32c.c\<close>: the software routine for a big-endian
  machine, whose tables and register hold their bytes in the reverse order, and the choice of a routine
  by the byte order. All routines compute the same reference, so a store that was written on one machine
  can be read on another.
\<close>

section \<open>Definitions\<close>

text \<open>The portable version of the swap of bytes.\<close>

definition swap :: "racs_uint64 \<Rightarrow> racs_uint64" where
  "swap x =
     (let x = (push_bit 8 x AND 0xff00ff00ff00ff00) OR (drop_bit 8 x AND 0xff00ff00ff00ff);
          x = (push_bit 16 x AND 0xffff0000ffff0000) OR (drop_bit 16 x AND 0xffff0000ffff)
      in push_bit 32 x OR drop_bit 32 x)"

text \<open>The table of bytes and the recurrence of the rows are those of the little-endian routine.\<close>

definition crc32c_table_big_byte :: "racs_uint32 list" where
  "crc32c_table_big_byte = map (\<lambda>n. (crc_bit ^^ 8) (of_nat n)) [0..<256]"

primrec crc32c_table_big_col :: "nat \<Rightarrow> nat \<Rightarrow> racs_uint32" where
  "crc32c_table_big_col n 0 = crc32c_table_big_byte ! n"
| "crc32c_table_big_col n (Suc k) =
     (let crc = crc32c_table_big_col n k
      in crc32c_table_big_byte ! unat (crc AND 0xff) XOR drop_bit 8 crc)"

definition crc32c_table_big :: "racs_uint64 list list" where
  "crc32c_table_big = map (\<lambda>k. map (\<lambda>n. swap (ucast (crc32c_table_big_col n k))) [0..<256]) [0..<8]"

definition sw_big_byte :: "racs_uint32 \<Rightarrow> racs_uint8 \<Rightarrow> racs_uint32" where
  "sw_big_byte crc b = crc32c_table_big_byte ! unat ((crc XOR ucast b) AND 0xff) XOR drop_bit 8 crc"

text \<open>A big-endian machine reads the eight bytes with the first one as the highest.\<close>

definition sw_big_word :: "racs_uint64 \<Rightarrow> bytes \<Rightarrow> racs_uint64" where
  "sw_big_word crcw bs =
     (let crcw = crcw XOR of_le_bytes (rev bs) in
      crc32c_table_big ! 0 ! crcw_index crcw 0 XOR
      crc32c_table_big ! 1 ! crcw_index crcw 1 XOR
      crc32c_table_big ! 2 ! crcw_index crcw 2 XOR
      crc32c_table_big ! 3 ! crcw_index crcw 3 XOR
      crc32c_table_big ! 4 ! crcw_index crcw 4 XOR
      crc32c_table_big ! 5 ! crcw_index crcw 5 XOR
      crc32c_table_big ! 6 ! crcw_index crcw 6 XOR
      crc32c_table_big ! 7 ! unat (drop_bit 56 crcw))"

function sw_big_words :: "racs_uint64 \<Rightarrow> bytes \<Rightarrow> racs_uint64 \<times> bytes" where
  "sw_big_words crcw bs =
     (if 8 \<le> length bs then sw_big_words (sw_big_word crcw (take 8 bs)) (drop 8 bs) else (crcw, bs))"
  by pat_completeness auto
termination
  by (relation "measure (\<lambda>(c, bs). length bs)") auto

declare sw_big_words.simps [simp del]

definition crc32c_sw_big :: "racs_uint32 \<Rightarrow> nat \<Rightarrow> bytes \<Rightarrow> racs_uint32" where
  "crc32c_sw_big crc addr buf =
     (let (crc, next) = leading sw_big_byte (NOT crc) addr buf;
          (crc, next) = (if 8 \<le> length next
             then (let (crcw, rest) = sw_big_words (swap (ucast crc)) next in (ucast (swap crcw), rest))
             else (crc, next))
      in NOT (foldl sw_big_byte crc next))"

text \<open>The exported software routine; \<open>little\<close> is the byte order of the machine.\<close>

definition crc32c_sw :: "bool \<Rightarrow> racs_uint32 \<Rightarrow> nat \<Rightarrow> bytes \<Rightarrow> racs_uint32" where
  "crc32c_sw little crc addr buf =
     (if little then crc32c_sw_little crc addr buf else crc32c_sw_big crc addr buf)"

section \<open>The swap of bytes\<close>

lemma less_64: "n < 64 \<Longrightarrow> n \<in> set [0..<64]" for n :: nat
  by simp

lemma bit_swap:
  assumes "n < 64"
  shows "bit (swap x) n = bit x (56 - 8 * (n div 8) + n mod 8)"
proof -
  have "\<forall>n\<in>set [0..<64]. bit (swap x) n = bit x (56 - 8 * (n div 8) + n mod 8)"
    unfolding swap_def Let_def
    by (simp add: upt_rec bit_or_iff bit_and_iff bit_push_bit_iff bit_drop_bit_eq) (simp add: eval_nat_numeral)
  then show ?thesis using assms by (metis less_64)
qed

lemma swap_xor: "swap (a XOR b) = swap a XOR swap b"
  by (rule bit_eqI) (simp add: bit_xor_iff bit_swap)

lemma swap_index:
  assumes "n < 64"
  shows "56 - 8 * (n div 8) + n mod 8 < 64" "(56 - 8 * (n div 8) + n mod 8) div 8 = 7 - n div 8"
    "(56 - 8 * (n div 8) + n mod 8) mod 8 = (n mod 8 :: nat)"
proof -
  have q: "n div 8 < 8" using assms by simp
  have "56 - 8 * (n div 8) = 8 * (7 - n div 8)" by (simp add: diff_mult_distrib2)
  then have e: "56 - 8 * (n div 8) + n mod 8 = 8 * (7 - n div 8) + n mod 8" by simp
  have "n mod 8 < 8" by simp
  then show "56 - 8 * (n div 8) + n mod 8 < 64" unfolding e using q by linarith
  show "(56 - 8 * (n div 8) + n mod 8) div 8 = 7 - n div 8"
    "(56 - 8 * (n div 8) + n mod 8) mod 8 = n mod 8"
    unfolding e by simp_all
qed

lemma swap_swap [simp]: "swap (swap x) = x"
proof (rule bit_eqI)
  fix n assume "possible_bit TYPE(64 word) n"
  then have n: "n < 64" by simp
  have "56 - 8 * (7 - n div 8) + n mod 8 = n"
  proof -
    have "56 - 8 * (7 - n div 8) = 8 * (n div 8)" using n by simp
    then show ?thesis by simp
  qed
  then show "bit (swap (swap x)) n = bit x n"
    using swap_index [OF n] by (simp only: bit_swap [OF n] bit_swap [OF swap_index(1) [OF n]])
qed

lemma swap_le_bytes:
  assumes "length bs = 8"
  shows "of_le_bytes (rev bs) = swap (of_le_bytes bs)"
proof (rule bit_eqI)
  fix n assume "possible_bit TYPE(64 word) n"
  then have n: "n < 64" by simp
  have q: "7 - n div 8 < 8" by (rule le_less_trans [OF diff_le_self]) simp
  from n have "n div 8 < 8" by simp
  with q show "bit (of_le_bytes (rev bs) :: racs_uint64) n = bit (swap (of_le_bytes bs)) n"
    using n assms swap_index [OF n] by (auto simp: bit_swap bit_of_le_bytes rev_nth)
qed

lemma swap_byte:
  assumes "i < 8"
  shows "crcw_index (swap w) i = crcw_index w (7 - i)"
proof -
  have "drop_bit (8 * i) (swap w) AND 0xff = drop_bit (8 * (7 - i)) w AND 0xff"
  proof (rule bit_eqI)
    fix n assume "possible_bit TYPE(64 word) n"
    have "bit (swap w) (8 * i + n) = bit w (8 * (7 - i) + n)" if "n < 8"
    proof -
      have "(8 * i + n) div 8 = i" "(8 * i + n) mod 8 = n" "8 * i + n < 64" using that assms by auto
      then show ?thesis using assms by (simp add: bit_swap diff_mult_distrib2)
    qed
    then show "bit (drop_bit (8 * i) (swap w) AND 0xff) n = bit (drop_bit (8 * (7 - i)) w AND 0xff) n"
      by (auto simp: and_0xff bit_take_bit_iff bit_drop_bit_eq)
  qed
  then show ?thesis by (simp add: crcw_index_def)
qed

section \<open>The big-endian routine simulates the little-endian one\<close>

lemma big_byte_table: "crc32c_table_big_byte = crc32c_table0"
  by (simp add: crc32c_table_big_byte_def crc32c_table0_def)

lemma sw_big_byte_eq: "sw_big_byte = crc_byte"
  unfolding sw_byte_fun [symmetric]
  by (intro ext) (simp add: sw_big_byte_def sw_byte_def big_byte_table table_little_row0 unat_low_byte)

lemma big_col_eq: "crc32c_table_big_col n k = crc32c_table_col n k"
  by (induction k) (simp_all add: big_byte_table)

lemma table_big_nth:
  "k < 8 \<Longrightarrow> n < 256 \<Longrightarrow> crc32c_table_big ! k ! n = swap (ucast (crc32c_table_little ! k ! n))"
  by (simp add: crc32c_table_big_def crc32c_table_little_def big_col_eq)

lemma table_big_index:
  "k < 8 \<Longrightarrow> i < 8 \<Longrightarrow> crc32c_table_big ! k ! crcw_index (swap w) i =
     swap (ucast (crc32c_table_little ! k ! crcw_index w (7 - i)))"
  unfolding swap_byte [symmetric] by (subst table_big_nth) (simp_all add: crcw_index_def unat_low_byte)

lemma ucast_xor_64: "(ucast (a XOR b :: racs_uint32) :: racs_uint64) = ucast a XOR ucast b"
  by (rule bit_eqI) (auto simp: bit_ucast_iff bit_xor_iff)

lemma sw_big_word_eq:
  assumes "length bs = 8"
  shows "sw_big_word (swap c) bs = swap (sw_word c bs)"
proof -
  define w where "w = c XOR of_le_bytes bs"
  have "swap c XOR of_le_bytes (rev bs) = swap w" by (simp add: w_def swap_xor swap_le_bytes [OF assms])
  then show ?thesis
    unfolding sw_big_word_def sw_word_def Let_def crcw_index_7 w_def [symmetric]
    by (simp add: table_big_index swap_xor ucast_xor_64 xor.assoc xor.commute xor.left_commute)
qed

lemma sw_big_words_eq:
  "sw_big_words (swap c) bs = (let (w, rest) = sw_words c bs in (swap w, rest))"
proof (induction c bs rule: sw_words.induct)
  case (1 c bs)
  then show ?case
    by (simp add: sw_words.simps [of c bs] sw_big_words.simps [of "swap c" bs] sw_big_word_eq)
qed

lemma crc32c_sw_big_eq: "crc32c_sw_big crc addr buf = crc32c_sw_little crc addr buf"
  unfolding crc32c_sw_big_def crc32c_sw_little_def Let_def sw_big_byte_eq sw_byte_fun sw_big_words_eq
  by (simp add: case_prod_unfold)

section \<open>Properties\<close>

text \<open>
  The checksum does not depend on the machine: whatever an x86-64 processor reports (\<open>sse42\<close>), on
  machines of either byte order (\<open>little\<close>), and for every alignment and length of the buffer, the
  routine that is chosen returns the CRC-32C of the bytes. The hardware loops that interleave three
  blocks and join them with GF(2) shift tables, the software loop over eight sliced tables, and its
  byte-swapped version all compute the bit-serial division.
\<close>

theorem crc32c_portable:
  "crc32c sse42 addr crc buf = NOT (crc_bytes (NOT crc) buf) \<and>
   crc32c_sw little crc addr buf = NOT (crc_bytes (NOT crc) buf)"
  by (simp add: crc32c_eq_bytes crc32c_sw_def crc32c_sw_big_eq crc32c_sw_little_eq)

end
