(* ===== verification/Spec2Isabelle.thy ===== *)
theory Spec2Isabelle
  imports Network Readback Crc32c_Big
begin

text \<open>
  RACS is a server that stores streams of audio and answers commands on them. This development models its C
  sources under \<^verbatim>\<open>src/src\<close> and proves what makes the parts correct, and where they are not.

  \<^bold>\<open>The program.\<close> A client sends messages (\<^verbatim>\<open>server.c\<close>), which are command lines or batches of frames. A
  frame (\<^verbatim>\<open>frame.c\<close>) appends a block of samples to an open stream (\<^verbatim>\<open>stream.c\<close>): it is written to the
  log (\<^verbatim>\<open>wal.c\<close>), gets a time from the metadata of its stream (\<^verbatim>\<open>metadata.c\<close>) and the bytes before it
  (\<^verbatim>\<open>offsets.c\<close>), and goes into the table in memory (\<^verbatim>\<open>memtable.c\<close>), which a thread writes to a segment file
  when it is full. A command line (\<^verbatim>\<open>parser.c\<close>, \<^verbatim>\<open>exec.c\<close>) is a pipeline of commands (\<^verbatim>\<open>command.c\<close>)
  that read a range of a stream (\<^verbatim>\<open>range.c\<close>, through the cache of \<^verbatim>\<open>cache.c\<close>), change its samples
  (\<^verbatim>\<open>ops.c\<close>) and encode them (\<^verbatim>\<open>encode.c\<close>); \<open>EVAL\<close> does the same in Scheme (\<^verbatim>\<open>scm.c\<close>,
  \<^verbatim>\<open>scm_bindings.c\<close>). After a restart the log is replayed (\<^verbatim>\<open>wal_replay.c\<close>).

  \<^bold>\<open>Conventions.\<close> Definitions carry the names of the C functions. A C function that changes state takes the state
  and returns the new one. The value \<open>None\<close> of the outer option type is undefined behaviour: a read or write
  outside an object, a use of freed or uninitialised memory, a null pointer, a division by zero, an overflow of a
  signed number or a conversion that is out of range, and also a loop that does not end and an error that ends the
  process. So every statement that a result is \<open>Some\<close> includes that memory is used correctly, with two reads
  excepted that the types do not show: the one of \<open>snprintf\<close> behind a string of msgpack (\<open>Pack.racs_unpack_str\<close>), and the
  one of a cached value after the lock is released (\<open>Cache\<close>). Failures that the C
  code reports are values: a status, an inner option, or a sum with an error message. Machine integers are words of
  their width; byte buffers are lists of bytes; objects that are shared by pointers live in a heap, a map from
  addresses (\<open>Cache\<close>, \<open>Multi\<close>, \<open>Exec\<close>). Doubles are rationals with rounding to nearest after every
  operation, so infinities, NaN and the loss of precision near zero are not modelled; a literal of hundreds of digits in a command
  can reach them. Positions in a line are unbounded, so lines are taken to be shorter than 2^31 characters
  (\<open>regoff_t\<close>). Allocation does not fail.

  \<^bold>\<open>Theories, from below.\<close>

  \<^item> \<open>Racs_Prelude\<close>, \<open>Bytes\<close> (\<^verbatim>\<open>bytes.h\<close>): slices and patches of buffers, little-endian accessors; the locale
    \<open>scalar_codec\<close> is the contract of an accessor for one width, interpreted for 16, 32 and 64 bits.
  \<^item> \<open>Crc32c\<close>, \<open>Crc32c_Big\<close> (\<^verbatim>\<open>crc32c.c\<close>): the versions of the checksum, with the instruction and with tables for
    either byte order, are the bitwise definition, for every alignment; what bursts of errors it detects.
  \<^item> \<open>Murmur3\<close>, \<open>Kvstore\<close> (\<^verbatim>\<open>murmur3.c\<close>, \<^verbatim>\<open>kvstore.c\<close>): the hash table. The locale \<open>kv_callbacks\<close>
    has what the callbacks must satisfy, \<open>kv_map\<close> what a client may rely on; they are interpreted for the tables of
    \<open>Offsets\<close>, \<open>Cache\<close>, \<open>Stream\<close> and \<open>Exec\<close>.
  \<^item> \<open>Offsets\<close>, \<open>Cache\<close>: the table of offsets is a total function; the cache on linked nodes refines a list in
    the order of use.
  \<^item> \<open>Text\<close>, \<open>Floats\<close>: \<open>printf\<close>, \<open>strtoull\<close>, \<open>sscanf\<close> and comparison of strings; rounding.
  \<^item> \<open>Frame\<close>, \<open>Timepath\<close>, \<open>Filelist\<close> (\<^verbatim>\<open>frame.c\<close>, \<^verbatim>\<open>time.c\<close>, \<^verbatim>\<open>filelist.c\<close>): which frames are accepted,
    paths of segments from times and back, listing of directories.
  \<^item> \<open>Wal\<close> (\<^verbatim>\<open>wal.c\<close>): the log on a file system with synced and pending bytes; reading back, what a crash
    leaves, truncation, reopening. A crash keeps the synced bytes of the files whose directory entries survive, which the
    code does not sync, and leaves anything of the pending ones (\<open>os_crash\<close>, \<open>crash_possible\<close>).
  \<^item> \<open>Sstable\<close>, \<open>Multi\<close> (\<^verbatim>\<open>memtable.c\<close>): the segment format, and the tables on a heap with the flush threads as
    separate steps. \<open>mm_reach\<close> are the reachable states, of which every entry is in a table, in a segment or with a
    thread.
  \<^item> \<open>Metadata\<close>, \<open>Stream\<close> (\<^verbatim>\<open>metadata.c\<close>, \<^verbatim>\<open>stream.c\<close>): metadata files, time stamps, the listing of streams;
    sessions and the append of a frame.
  \<^item> \<open>Recovery\<close> (\<^verbatim>\<open>wal_replay.c\<close>, \<open>racs_offsets_init\<close>): what a restart restores, and that it is undefined as soon as
    there are segments.
  \<^item> \<open>Samples\<close>, \<open>Range\<close>, \<open>Ops\<close>, \<open>Wav\<close>, \<open>Codecs\<close> (\<^verbatim>\<open>types.c\<close>, \<^verbatim>\<open>memory.c\<close>, \<^verbatim>\<open>pcm.c\<close>, \<^verbatim>\<open>range.c\<close>,
    \<^verbatim>\<open>ops.c\<close>, \<^verbatim>\<open>wav.c\<close>, \<^verbatim>\<open>encode.c\<close>, \<^verbatim>\<open>mp3.c\<close>, \<^verbatim>\<open>ogg.c\<close>, \<^verbatim>\<open>zstd.c\<close>): what a range contains, inverse
    operations and bounds of the samples, the WAV format, the wrappers of the lossy encoders with the
    life of the Ogg encoder. \<open>Readback\<close> joins streaming and reading: what is appended is what a range returns.
  \<^item> \<open>Regex\<close>, \<open>Parser\<close> (\<^verbatim>\<open>parser.c\<close>): matching by derivatives, leftmost and longest; tokens. Printed words are read
    back as their tokens, and lexing ends.
  \<^item> \<open>Pack\<close>, \<open>Guile\<close>, \<open>Context\<close>, \<open>Bindings\<close>, \<open>Command\<close> (\<^verbatim>\<open>pack.c\<close>, \<^verbatim>\<open>scm.c\<close>, \<^verbatim>\<open>context.c\<close>,
    \<^verbatim>\<open>scm_bindings.c\<close>, \<^verbatim>\<open>command.c\<close>): replies as objects of msgpack, the 17 commands and 13 Scheme primitives. The
    collection \<open>typed_intros\<close> proves that replies are well formed.
  \<^item> \<open>Exec\<close>, \<open>Pipeline\<close> (\<^verbatim>\<open>exec.c\<close>): plans, and the proof that a printed pipeline does what it means.
  \<^item> \<open>Server\<close>, \<open>Network\<close> (\<^verbatim>\<open>server.c\<close>, \<^verbatim>\<open>db.c\<close>): framing of messages and the slaves; the events of many connections
    in any order, which have the effect of a serial execution of the messages. The theorem below joins lexer, plans, commands
    and framing.

  \<^bold>\<open>Parameters.\<close> What is not in the sources is an argument: the reports of file operations and the contents of
  uninitialised memory (\<open>seg_io\<close>, \<open>env\<close>), the clock, the libraries for Zstandard, MP3 and Ogg, the Guile
  interpreter, and the byte format of msgpack. Theorems hold for all of them, except where a hypothesis says
  otherwise: ranges of compressed blocks need that a block is decompressed to less than 2^56 bytes (\<open>zstd_bounded\<close>), and
  listing a directory must give the files of the store (\<open>segment_dirs\<close>).

  \<^bold>\<open>Bounds.\<close> Loops are structural recursions or have a measure; no definition has fuel. Lines of commands and messages are
  shorter than 2^63 bytes, tables have at most 32740 entries where the size of a segment must not overflow, which is
  exactly the bound of the code, and times lie in the years 1970 to 9999, for which the paths of segments have their
  fixed width.

  \<^bold>\<open>Not modelled.\<close> The instruction \<open>cpuid\<close>, whose answer is an argument; the YAML
  configuration, whose values are arguments; the log of messages, which nothing reads; \<open>main\<close> and the inside of the event loop,
  whose callbacks are modelled; the sandbox of the interpreter. Commands run on the one thread of the event loop; the only
  other threads are those that flush a table. \<open>mm_reach\<close> lets them run between appends, and
  \<open>mmt_flush_race\<close> shows what happens inside one. Directories report the types of their entries (\<open>d_type\<close>).
\<close>

section \<open>From the wire to the store\<close>

text \<open>
  C1: The server answers pipelines. The message of a printed pipeline, a line of commands with its terminator
  behind its length, in whatever pieces it arrives: the client gets one message, with the replies that the
  pipeline means in the state of the server; the connected slaves get the message as it came; the server goes
  into the state the pipeline leads to; and nothing is left in the input buffer. When the connection of a slave has
  been freed that is still marked as connected (\<open>slave_failure_faults\<close>), the message is written to freed memory.
\<close>

theorem server_pipeline:
  assumes "racs_exec_init = Some (db_exec (cc_db ctx))"
    and "list_all command_ok cs" and "cstr_ok (line_text (pipeline_words cs))"
    and "body = str_bytes (line_text (pipeline_words cs)) @ [0]"
    and "4 \<le> length body" and "length body < 2 ^ 63" and "take 3 (line_text (pipeline_words cs)) \<noteq> ''rsp''"
    and "concat pieces = message body" and "[] \<notin> set pieces"
    and "pipeline_meaning env cs (db_ctx (cc_db ctx)) = Some (replies, ctx')"
  shows "deliver lib env pieces \<lparr>ev_in = [], ev_out = out\<rparr> ctx =
    (if slaves_live ctx
     then Some (\<lparr>ev_in = [], ev_out = out @ message (msgpack_encode lib replies)\<rparr>,
       (forwarded body ctx)\<lparr>cc_db := (cc_db ctx)\<lparr>db_ctx := ctx'\<rparr>\<rparr>)
     else None)"
proof -
  let ?line = "line_text (pipeline_words cs)"
  have cmd: "c_str body 0 = Some ?line" using c_str_at [OF assms(3), of 0 "[]" "[]"] assms(4) by simp
  have "bytes_str [0x72, 0x73, 0x70] = ''rsp''" by code_simp
  moreover have "take 3 body = str_bytes (take 3 ?line)"
    using assms(4,5) by (simp add: str_bytes_def take_map)
  then have "bytes_str (take 3 body) = take 3 ?line" by simp
  ultimately have "take 3 body \<noteq> [0x72, 0x73, 0x70]" using assms(7) by metis
  note step = callback_command [where rest = "[]" and body = body and cmd = ?line, OF _ _ this cmd]
  have "racs_db_exec lib env (cc_db ctx) ?line = Some (msgpack_encode lib replies, (cc_db ctx)\<lparr>db_ctx := ctx'\<rparr>)"
    using exec_pipeline_run [OF assms(1,2)] assms(10) by (simp add: racs_db_exec_def)
  moreover have "pieces \<noteq> []" using assms(8) by (auto simp: message_def le_bytes_def)
  then have "deliver lib env pieces \<lparr>ev_in = [], ev_out = out\<rparr> ctx =
      racs_read_callback lib env \<lparr>ev_in = message body, ev_out = out\<rparr> ctx"
    using deliver_pieces [OF assms(6), of "[]" pieces] assms(8,9) by simp
  ultimately show ?thesis using step [of lib env out] assms(5,6) by simp
qed

theorem server_pipeline_witness:
  "\<exists>exec. racs_exec_init = Some exec \<and>
    (let slave = \<lparr>sl_host = ''10.0.0.2'', sl_port = 6381, sl_connected = True, sl_out = Some []\<rparr>;
         ctx = \<lparr>cc_db = \<lparr>db_ctx = example_context, db_exec = exec\<rparr>, cc_slaves = [slave]\<rparr>;
         lib = \<lparr>msgpack_encode = (\<lambda>buf. replicate (length buf) 0x92), msgpack_frames = (\<lambda>_. [])\<rparr>;
         body = str_bytes ''ping'' @ [0]
     in deliver lib example_env [take 9 (message body), drop 9 (message body)] \<lparr>ev_in = [], ev_out = []\<rparr> ctx =
          Some (\<lparr>ev_in = [], ev_out = message [0x92]\<rparr>, ctx\<lparr>cc_slaves := [slave\<lparr>sl_out := Some (message body)\<rparr>]\<rparr>))"
proof -
  obtain exec where exec: "racs_exec_init = Some exec" using exec_init_Some by blast
  let ?cs = "[(''ping'', [])]"
  let ?slave = "\<lparr>sl_host = ''10.0.0.2'', sl_port = 6381, sl_connected = True, sl_out = Some []\<rparr>"
  let ?ctx = "\<lparr>cc_db = \<lparr>db_ctx = example_context, db_exec = exec\<rparr>, cc_slaves = [?slave]\<rparr>"
  let ?lib = "\<lparr>msgpack_encode = (\<lambda>buf. replicate (length buf) 0x92), msgpack_frames = (\<lambda>_. [])\<rparr> :: libmsgpack"
  let ?body = "str_bytes ''ping'' @ [0]"
  have ok: "list_all command_ok ?cs"
    by (simp add: command_ok_def id_char_def is_alpha_def is_digit_def char_code_def)
  have up: "racs_uppercase ''ping'' = ''PING''" by code_simp
  have "command_of ''PING'' = Some PING" by (rule command_of_name) (simp add: command_table_def)
  then have run: "pipeline_meaning example_env ?cs (db_ctx (cc_db ?ctx)) =
      Some ([MP_array [racs_pack_type RACS_TYPE_STR, MP_str ''PONG'']], example_context)"
    by (simp add: pipeline_meaning_def up racs_command_ping_def reply_def racs_pack_str_def)
  have cstr: "cstr_ok (line_text (pipeline_words ?cs))" by code_simp
  have live: "slaves_live ?ctx" by (simp add: slaves_live_def)
  have len: "length (message ?body) = 13" by (simp add: message_def)
  have "deliver ?lib example_env [take 9 (message ?body), drop 9 (message ?body)] \<lparr>ev_in = [], ev_out = []\<rparr> ?ctx =
      Some (\<lparr>ev_in = [], ev_out = [] @ message [0x92]\<rparr>,
        (forwarded ?body ?ctx)\<lparr>cc_db := (cc_db ?ctx)\<lparr>db_ctx := example_context\<rparr>\<rparr>)"
    using server_pipeline [of ?ctx ?cs ?body "[take 9 (message ?body), drop 9 (message ?body)]" example_env _ _ ?lib "[]",
        OF _ ok cstr _ _ _ _ _ _ run] live exec len by (auto simp: length_0_conv [symmetric] simp del: length_0_conv)
  then show ?thesis
    using exec by (auto simp: Let_def forwarded_def)
qed

end
